(* ===== verification/Tf_Prelude.thy ===== *)
theory Tf_Prelude
  imports Main "HOL-Library.Word" "HOL-Library.Monad_Syntax"
begin

text \<open>
  Shared vocabulary of the development: the machine integers of \<^verbatim>\<open>tf_types.h\<close>, raw memory
  as a function from offsets to bytes, slices of it, C conversions between integer widths,
  C division, and the generic lemmas that the components share.

  A C object that the code accesses through byte pointers (a packet buffer of 65536 bytes,
  for instance) is a value of type \<open>mem\<close>: the contents at every offset. Its size is kept
  apart, and an access outside it is the value \<open>None\<close> of the operation that makes it.
\<close>

unbundle bit_operations_syntax

section \<open>Machine integers and raw memory\<close>

type_synonym u8 = "8 word"
type_synonym u16 = "16 word"
type_synonym u32 = "32 word"
type_synonym u64 = "64 word"

type_synonym mem = "nat \<Rightarrow> u8"

named_theorems mem_simps \<open>reading through writes, slices of stores\<close>
named_theorems endian_simps \<open>big endian and host order encodings\<close>

definition bytes_at :: "mem \<Rightarrow> nat \<Rightarrow> nat \<Rightarrow> u8 list" where
  "bytes_at m a n = map m [a..<a + n]"

definition store :: "mem \<Rightarrow> nat \<Rightarrow> u8 list \<Rightarrow> mem" where
  "store m a bs = (\<lambda>i. if a \<le> i \<and> i < a + length bs then bs ! (i - a) else m i)"

text \<open>Conversion of a C \<open>int\<close> result: the low 32 bits read as two's complement.\<close>

definition c_int :: "int \<Rightarrow> int" where
  "c_int i = signed_take_bit 31 i"

text \<open>C division and the cast of a quotient to \<open>int\<close> truncate towards zero.\<close>

definition c_div :: "int \<Rightarrow> int \<Rightarrow> int" where
  "c_div a b = sgn a * sgn b * (\<bar>a\<bar> div \<bar>b\<bar>)"

lemma c_div_nonneg [simp]: "0 \<le> a \<Longrightarrow> 0 < b \<Longrightarrow> c_div a b = a div b"
  by (cases "a = 0") (auto simp: c_div_def)

section \<open>Slices and stores\<close>

lemma length_bytes_at [simp]: "length (bytes_at m a n) = n"
  by (simp add: bytes_at_def)

lemma nth_bytes_at [simp]: "i < n \<Longrightarrow> bytes_at m a n ! i = m (a + i)"
  by (simp add: bytes_at_def)

lemma bytes_at_0 [simp]: "bytes_at m a 0 = []"
  by (simp add: bytes_at_def)

lemma bytes_at_Suc: "bytes_at m a (Suc n) = m a # bytes_at m (Suc a) n"
proof -
  have "[a..<a + Suc n] = a # [Suc a..<Suc a + n]"
    by (simp add: upt_conv_Cons)
  then show ?thesis by (simp add: bytes_at_def)
qed

lemma bytes_at_numeral: "bytes_at m a (numeral k) = m a # bytes_at m (Suc a) (pred_numeral k)"
  by (simp add: numeral_eq_Suc bytes_at_Suc)

lemma bytes_at_fields:
  "bytes_at m a 2 = [m a, m (a + 1)]"
  "bytes_at m a 4 = [m a, m (a + 1), m (a + 2), m (a + 3)]"
  "bytes_at m a 8 = [m a, m (a + 1), m (a + 2), m (a + 3), m (a + 4), m (a + 5), m (a + 6), m (a + 7)]"
  by (simp_all add: eval_nat_numeral bytes_at_Suc)

lemma bytes_at_append: "bytes_at m a (n + k) = bytes_at m a n @ bytes_at m (a + n) k"
  by (rule nth_equalityI) (auto simp: nth_append)

lemma take_bytes_at: "k \<le> n \<Longrightarrow> take k (bytes_at m a n) = bytes_at m a k"
  by (rule nth_equalityI) auto

lemma drop_bytes_at: "drop k (bytes_at m a n) = bytes_at m (a + k) (n - k)"
  by (rule nth_equalityI) (auto simp: add.assoc)

lemma bytes_at_cong: "(\<And>i. a \<le> i \<Longrightarrow> i < a + n \<Longrightarrow> m i = m' i) \<Longrightarrow> bytes_at m a n = bytes_at m' a n"
  by (rule nth_equalityI) auto

lemma bytes_at_eq_nthD: "bytes_at m a n = bs \<Longrightarrow> i < n \<Longrightarrow> m (a + i) = bs ! i"
  by auto

lemma store_Nil [simp]: "store m a [] = m"
  by (rule ext) (auto simp: store_def)

lemma store_other [mem_simps]: "i < a \<or> a + length bs \<le> i \<Longrightarrow> store m a bs i = m i"
  by (auto simp: store_def)

lemma store_same [mem_simps]: "i < length bs \<Longrightarrow> store m a bs (a + i) = bs ! i"
  by (auto simp: store_def)

lemma bytes_at_store_same [mem_simps]: "n = length bs \<Longrightarrow> bytes_at (store m a bs) a n = bs"
  by (rule nth_equalityI) (auto simp: store_same)

lemma bytes_at_store_other [mem_simps]:
  "b + n \<le> a \<or> a + length bs \<le> b \<Longrightarrow> bytes_at (store m a bs) b n = bytes_at m b n"
  by (rule bytes_at_cong) (auto simp: store_def)

lemma store_append: "store m a (bs @ cs) = store (store m a bs) (a + length bs) cs"
  by (rule ext) (auto simp: store_def nth_append)

lemma store_Cons: "store m a (b # bs) = store (m(a := b)) (Suc a) bs"
  by (rule ext) (auto simp: store_def nth_Cons' less_Suc_eq_le)

lemma store_bytes_at_self: "store m a (bytes_at m a n) = m"
  by (rule ext) (auto simp: store_def)

lemma take_bit_mod_numeral: "unat (of_nat n :: u16) = n mod 65536"
  by (simp add: unat_of_nat)

lemma unat_of_nat16: "n < 65536 \<Longrightarrow> unat (of_nat n :: u16) = n"
  by (simp add: unat_of_nat)

lemma bit_u8_high [simp]: "8 \<le> n \<Longrightarrow> \<not> bit (b :: u8) n"
  using bit_imp_le_length [of b n] by auto

lemma bit_u16_high [simp]: "16 \<le> n \<Longrightarrow> \<not> bit (v :: u16) n"
  using bit_imp_le_length [of v n] by auto

lemma unat_lt_65536 [simp]: "unat (v :: u16) < 65536"
  using unsigned_less [of v] by simp

section \<open>Big endian and host order encodings\<close>

text \<open>
  The byte lists that the accessors of \<^verbatim>\<open>tf_bytes.c\<close> read and write: most significant byte
  first. Host order is little endian, as on the x86 machines the library is built for.
\<close>

definition be16 :: "u16 \<Rightarrow> u8 list" where
  "be16 v = [ucast (drop_bit 8 v), ucast v]"

definition be32 :: "u32 \<Rightarrow> u8 list" where
  "be32 v = [ucast (drop_bit 24 v), ucast (drop_bit 16 v), ucast (drop_bit 8 v), ucast v]"

definition be64 :: "u64 \<Rightarrow> u8 list" where
  "be64 v = [ucast (drop_bit 56 v), ucast (drop_bit 48 v), ucast (drop_bit 40 v),
     ucast (drop_bit 32 v), ucast (drop_bit 24 v), ucast (drop_bit 16 v),
     ucast (drop_bit 8 v), ucast v]"

lemma length_be [simp]: "length (be16 v) = 2" "length (be32 w) = 4" "length (be64 x) = 8"
  by (simp_all add: be16_def be32_def be64_def)

text \<open>Host order loads and stores of 16, 32 and 64 bit fields.\<close>

definition host_u16 :: "mem \<Rightarrow> nat \<Rightarrow> u16" where
  "host_u16 m a = ucast (m a) OR push_bit 8 (ucast (m (a + 1)))"

definition set_host_u16 :: "mem \<Rightarrow> nat \<Rightarrow> u16 \<Rightarrow> mem" where
  "set_host_u16 m a v = store m a (rev (be16 v))"

definition host_u32 :: "mem \<Rightarrow> nat \<Rightarrow> u32" where
  "host_u32 m a = ucast (m a) OR push_bit 8 (ucast (m (a + 1)))
     OR push_bit 16 (ucast (m (a + 2))) OR push_bit 24 (ucast (m (a + 3)))"

definition set_host_u32 :: "mem \<Rightarrow> nat \<Rightarrow> u32 \<Rightarrow> mem" where
  "set_host_u32 m a v = store m a (rev (be32 v))"

lemma ucast_split16: "ucast (ucast v :: u8) OR push_bit 8 (ucast (ucast (drop_bit 8 v) :: u8)) = (v :: u16)"
  by (rule bit_word_eqI) (auto simp: bit_simps not_less)

lemma ucast_split32:
  "ucast (ucast v :: u8) OR push_bit 8 (ucast (ucast (drop_bit 8 v) :: u8))
     OR push_bit 16 (ucast (ucast (drop_bit 16 v) :: u8))
     OR push_bit 24 (ucast (ucast (drop_bit 24 v) :: u8)) = (v :: u32)"
proof (rule bit_word_eqI)
  fix n assume "n < LENGTH(32)"
  then consider "n < 8" | "8 \<le> n" "n < 16" | "16 \<le> n" "n < 24" | "24 \<le> n" "n < 32"
    by fastforce
  then show "bit (ucast (ucast v :: u8) OR push_bit 8 (ucast (ucast (drop_bit 8 v) :: u8))
      OR push_bit 16 (ucast (ucast (drop_bit 16 v) :: u8))
      OR push_bit 24 (ucast (ucast (drop_bit 24 v) :: u8)) :: u32) n = bit v n"
    by cases (auto simp: bit_simps)
qed

lemma host_u16_set [mem_simps]: "host_u16 (set_host_u16 m a v) a = v"
  by (simp add: host_u16_def set_host_u16_def be16_def store_def ucast_split16)

lemma host_u32_set [mem_simps]: "host_u32 (set_host_u32 m a v) a = v"
  by (simp add: host_u32_def set_host_u32_def be32_def store_def ucast_split32)

lemma set_host_u16_other [mem_simps]: "i < a \<or> a + 2 \<le> i \<Longrightarrow> set_host_u16 m a v i = m i"
  by (simp add: set_host_u16_def store_other)

lemma set_host_u32_other [mem_simps]: "i < a \<or> a + 4 \<le> i \<Longrightarrow> set_host_u32 m a v i = m i"
  by (simp add: set_host_u32_def store_other)

lemma host_u16_cong: "m a = m' a \<Longrightarrow> m (Suc a) = m' (Suc a) \<Longrightarrow> host_u16 m a = host_u16 m' a"
  by (simp add: host_u16_def)

lemma host_u16_store_other [mem_simps]:
  "a + 2 \<le> b \<or> b + length bs \<le> a \<Longrightarrow> host_u16 (store m b bs) a = host_u16 m a"
  by (rule host_u16_cong) (auto simp: store_def)

lemma bytes_at_set_host_u16_other [mem_simps]:
  "b + n \<le> a \<or> a + 2 \<le> b \<Longrightarrow> bytes_at (set_host_u16 m a v) b n = bytes_at m b n"
  by (simp add: set_host_u16_def bytes_at_store_other)

lemma bytes_at_set_host_u32_other [mem_simps]:
  "b + n \<le> a \<or> a + 4 \<le> b \<Longrightarrow> bytes_at (set_host_u32 m a v) b n = bytes_at m b n"
  by (simp add: set_host_u32_def bytes_at_store_other)

end
