(* ===== verification/Tf_Bytes.thy ===== *)
theory Tf_Bytes
  imports Tf_Prelude
begin

text \<open>
  The byte accessors of \<^verbatim>\<open>tf_bytes.c\<close>: big endian loads and stores at a byte address, the
  loads from a byte swapped buffer, and \<^verbatim>\<open>byte_swap\<close>. C promotes a byte to \<open>int\<close> before
  it shifts, so the loads of up to 32 bits compute in 32 bit words.
\<close>

section \<open>Definitions\<close>

definition get_u16 :: "mem \<Rightarrow> nat \<Rightarrow> u16" where
  "get_u16 b a = ucast ((push_bit 8 (ucast (b a)) AND 0xff00)
      OR (push_bit 0 (ucast (b (a + 1))) AND 0x00ff) :: u32)"

definition put_u16 :: "mem \<Rightarrow> nat \<Rightarrow> u16 \<Rightarrow> mem" where
  "put_u16 b a val = b(a := ucast (drop_bit 8 val AND 0xFF), a + 1 := ucast (val AND 0xFF))"

definition get_u24 :: "mem \<Rightarrow> nat \<Rightarrow> u32" where
  "get_u24 b a = push_bit 16 (ucast (b a)) OR push_bit 8 (ucast (b (a + 1))) OR ucast (b (a + 2))"

definition get_u32 :: "mem \<Rightarrow> nat \<Rightarrow> u32" where
  "get_u32 b a = push_bit 24 (ucast (b a)) OR push_bit 16 (ucast (b (a + 1)))
      OR push_bit 8 (ucast (b (a + 2))) OR ucast (b (a + 3))"

definition get_u32_raw :: "mem \<Rightarrow> nat \<Rightarrow> u32" where
  "get_u32_raw b a = push_bit 24 (ucast (b (a + 1))) OR push_bit 16 (ucast (b a))
      OR push_bit 8 (ucast (b (a + 3))) OR ucast (b (a + 2))"

definition get_u16_raw :: "mem \<Rightarrow> nat \<Rightarrow> u16" where
  "get_u16_raw b a = ucast ((push_bit 8 (ucast (b (a + 1))) AND 0xff00)
      OR (push_bit 0 (ucast (b a)) AND 0x00ff) :: u32)"

definition put_u32 :: "mem \<Rightarrow> nat \<Rightarrow> u32 \<Rightarrow> mem" where
  "put_u32 b a val = b(a := ucast (drop_bit 24 val AND 0xFF),
      a + 1 := ucast (drop_bit 16 val AND 0xFF),
      a + 2 := ucast (drop_bit 8 val AND 0xFF), a + 3 := ucast (val AND 0xFF))"

definition get_u64 :: "mem \<Rightarrow> nat \<Rightarrow> u64" where
  "get_u64 b a =
    (let r = ucast (b a);
         r = push_bit 8 r OR ucast (b (a + 1));
         r = push_bit 8 r OR ucast (b (a + 2));
         r = push_bit 8 r OR ucast (b (a + 3));
         r = push_bit 8 r OR ucast (b (a + 4));
         r = push_bit 8 r OR ucast (b (a + 5));
         r = push_bit 8 r OR ucast (b (a + 6));
         r = push_bit 8 r OR ucast (b (a + 7))
     in r)"

definition put_u64 :: "mem \<Rightarrow> nat \<Rightarrow> u64 \<Rightarrow> mem" where
  "put_u64 b a val = b(a := ucast (drop_bit 56 val AND 0xFF),
      a + 1 := ucast (drop_bit 48 val AND 0xFF), a + 2 := ucast (drop_bit 40 val AND 0xFF),
      a + 3 := ucast (drop_bit 32 val AND 0xFF), a + 4 := ucast (drop_bit 24 val AND 0xFF),
      a + 5 := ucast (drop_bit 16 val AND 0xFF), a + 6 := ucast (drop_bit 8 val AND 0xFF),
      a + 7 := ucast (val AND 0xFF))"

text \<open>
  The library function \<^verbatim>\<open>swab(packet, packet, count)\<close>, which the default build calls: the
  pairs of adjacent bytes are exchanged, a last odd byte stays (\<^verbatim>\<open>test_swab.c\<close> checks both).
\<close>

definition swab :: "mem \<Rightarrow> nat \<Rightarrow> mem" where
  "swab d count = (\<lambda>i. if i < count - count mod 2 then (if even i then d (i + 1) else d (i - 1)) else d i)"

text \<open>The loop of the \<^verbatim>\<open>NO_SWAB\<close> build, from index \<open>i\<close>.\<close>

function byte_swap_loop :: "mem \<Rightarrow> nat \<Rightarrow> nat \<Rightarrow> mem" where
  "byte_swap_loop d i count =
     (if i < count then byte_swap_loop (d(i := d (i + 1), i + 1 := d i)) (i + 2) count else d)"
  by pat_completeness auto
termination
  by (relation "measure (\<lambda>(d, i, count). count - i)") auto

declare byte_swap_loop.simps [simp del]

definition byte_swap :: "mem \<Rightarrow> nat \<Rightarrow> mem" where
  "byte_swap packet count = swab packet count"

text \<open>The same exchange on the list of bytes, the specification of the swapped buffer.\<close>

fun swap_pairs :: "u8 list \<Rightarrow> u8 list" where
  "swap_pairs (x # y # zs) = y # x # swap_pairs zs"
| "swap_pairs zs = zs"

section \<open>Loads read big endian bytes, stores write them\<close>

lemma mask_255 [simp]: "ucast (v AND 0xFF :: u16) = (ucast v :: u8)"
  "ucast (w AND 0xFF :: u32) = (ucast w :: u8)" "ucast (x AND 0xFF :: u64) = (ucast x :: u8)"
proof -
  have m: "(0xFF :: u16) = mask 8" "(0xFF :: u32) = mask 8" "(0xFF :: u64) = mask 8"
    by (simp_all add: mask_eq_exp_minus_1)
  show "ucast (v AND 0xFF :: u16) = (ucast v :: u8)"
    unfolding m by (rule bit_word_eqI) (auto simp: bit_simps)
  show "ucast (w AND 0xFF :: u32) = (ucast w :: u8)"
    unfolding m by (rule bit_word_eqI) (auto simp: bit_simps)
  show "ucast (x AND 0xFF :: u64) = (ucast x :: u8)"
    unfolding m by (rule bit_word_eqI) (auto simp: bit_simps)
qed

lemma put_u16_store: "put_u16 b a v = store b a (be16 v)"
  by (auto simp: put_u16_def be16_def store_Cons)

lemma put_u32_store: "put_u32 b a v = store b a (be32 v)"
  by (auto simp: put_u32_def be32_def store_Cons)

lemma put_u64_store: "put_u64 b a v = store b a (be64 v)"
  by (auto simp: put_u64_def be64_def store_Cons)

text \<open>The loads put the bytes together again: bit by bit, one byte at a time.\<close>

lemma mask_ff00_ff: "(0xff00 :: u32) = push_bit 8 (mask 8)" "(0xff :: u32) = mask 8"
  by (simp_all add: mask_eq_exp_minus_1 push_bit_eq_mult)

lemma get_u16_bit: "get_u16 b a = push_bit 8 (ucast (b a)) OR ucast (b (a + 1))"
  unfolding get_u16_def mask_ff00_ff
  by (rule bit_word_eqI) (auto simp: bit_simps)

lemma get_u16_raw_bit: "get_u16_raw b a = push_bit 8 (ucast (b (a + 1))) OR ucast (b a)"
  unfolding get_u16_raw_def mask_ff00_ff
  by (rule bit_word_eqI) (auto simp: bit_simps)

lemma get_u64_bit:
  "get_u64 b a = push_bit 56 (ucast (b a)) OR push_bit 48 (ucast (b (a + 1)))
     OR push_bit 40 (ucast (b (a + 2))) OR push_bit 32 (ucast (b (a + 3)))
     OR push_bit 24 (ucast (b (a + 4))) OR push_bit 16 (ucast (b (a + 5)))
     OR push_bit 8 (ucast (b (a + 6))) OR ucast (b (a + 7))"
  by (simp add: get_u64_def Let_def push_bit_or or.assoc)

lemma be16_join: "push_bit 8 (ucast (ucast (drop_bit 8 v) :: u8)) OR ucast (ucast v :: u8) = (v :: u16)"
  using ucast_split16 [of v] by (simp only: or.commute)

lemma be32_join:
  "push_bit 24 (ucast (ucast (drop_bit 24 v) :: u8)) OR push_bit 16 (ucast (ucast (drop_bit 16 v) :: u8))
     OR push_bit 8 (ucast (ucast (drop_bit 8 v) :: u8)) OR ucast (ucast v :: u8) = (v :: u32)"
  using ucast_split32 [of v] by (simp only: or.commute or.left_commute or.assoc)

lemma bit_byte_part:
  fixes v :: "'a::len word"
  assumes "n < LENGTH('a)"
  shows "bit (push_bit k (ucast (ucast (drop_bit k v) :: u8)) :: 'a word) n
    \<longleftrightarrow> k \<le> n \<and> n < k + 8 \<and> bit v n"
  using assms by (auto simp: bit_simps)

lemma be64_join:
  "push_bit 56 (ucast (ucast (drop_bit 56 v) :: u8)) OR push_bit 48 (ucast (ucast (drop_bit 48 v) :: u8))
     OR push_bit 40 (ucast (ucast (drop_bit 40 v) :: u8)) OR push_bit 32 (ucast (ucast (drop_bit 32 v) :: u8))
     OR push_bit 24 (ucast (ucast (drop_bit 24 v) :: u8)) OR push_bit 16 (ucast (ucast (drop_bit 16 v) :: u8))
     OR push_bit 8 (ucast (ucast (drop_bit 8 v) :: u8)) OR ucast (ucast v :: u8) = (v :: u64)"
    (is "?l = v")
proof (rule bit_word_eqI)
  fix n assume n: "n < LENGTH(64)"
  have low: "bit (ucast (ucast v :: u8) :: u64) n \<longleftrightarrow> n < 8 \<and> bit v n"
    using bit_byte_part [OF n, of 0 v] by simp
  from n have "n < 64" by simp
  then show "bit ?l n = bit v n"
    unfolding bit_or_iff bit_byte_part [OF n] low by (cases "bit v n") (simp_all, arith)
qed

lemma get_u16_bytes_at: "bytes_at b a 2 = be16 v \<Longrightarrow> get_u16 b a = v"
  by (simp add: get_u16_bit be16_def bytes_at_fields be16_join)

lemma get_u32_bytes_at: "bytes_at b a 4 = be32 v \<Longrightarrow> get_u32 b a = v"
  by (simp add: get_u32_def be32_def bytes_at_fields be32_join)

lemma get_u64_bytes_at: "bytes_at b a 8 = be64 v \<Longrightarrow> get_u64 b a = v"
  by (simp add: get_u64_bit be64_def bytes_at_fields be64_join)

lemma be16_get_u16: "be16 (get_u16 b a) = bytes_at b a 2"
proof -
  have "ucast (drop_bit 8 (get_u16 b a)) = b a" "ucast (get_u16 b a) = b (a + 1)"
    unfolding get_u16_bit by (auto intro!: bit_word_eqI simp: bit_simps)
  then show ?thesis by (simp add: be16_def bytes_at_fields)
qed

lemma be32_get_u32: "be32 (get_u32 b a) = bytes_at b a 4"
proof -
  have "ucast (drop_bit 24 (get_u32 b a)) = b a" "ucast (drop_bit 16 (get_u32 b a)) = b (a + 1)"
    "ucast (drop_bit 8 (get_u32 b a)) = b (a + 2)" "ucast (get_u32 b a) = b (a + 3)"
    unfolding get_u32_def by (auto intro!: bit_word_eqI simp: bit_simps)
  then show ?thesis by (simp add: be32_def bytes_at_fields)
qed

lemma be64_get_u64: "be64 (get_u64 b a) = bytes_at b a 8"
proof -
  have part: "ucast (drop_bit 56 (get_u64 b a)) = b a" "ucast (drop_bit 48 (get_u64 b a)) = b (a + 1)"
    "ucast (drop_bit 40 (get_u64 b a)) = b (a + 2)" "ucast (drop_bit 32 (get_u64 b a)) = b (a + 3)"
    "ucast (drop_bit 24 (get_u64 b a)) = b (a + 4)" "ucast (drop_bit 16 (get_u64 b a)) = b (a + 5)"
    "ucast (drop_bit 8 (get_u64 b a)) = b (a + 6)" "ucast (get_u64 b a) = b (a + 7)"
    unfolding get_u64_bit by (rule bit_word_eqI; simp add: bit_simps)+
  show ?thesis unfolding be64_def bytes_at_fields part ..
qed

section \<open>One interface for the fixed width fields\<close>

text \<open>
  The code that builds and reads packets uses three pairs of accessors in the same way. The
  contract: a load returns the value whose encoding lies at the address, a store writes the
  encoding there and nothing else.
\<close>

locale field_codec =
  fixes width :: nat
    and enc :: "'v \<Rightarrow> u8 list"
    and get :: "mem \<Rightarrow> nat \<Rightarrow> 'v"
    and put :: "mem \<Rightarrow> nat \<Rightarrow> 'v \<Rightarrow> mem"
  assumes length_enc: "length (enc v) = width"
    and get_enc: "bytes_at b a width = enc v \<Longrightarrow> get b a = v"
    and enc_get: "enc (get b a) = bytes_at b a width"
    and put_enc: "put b a v = store b a (enc v)"
begin

lemma get_put: "get (put b a v) a = v"
  by (rule get_enc) (simp add: put_enc bytes_at_store_same length_enc)

lemma get_put_other: "a + width \<le> c \<or> c + width \<le> a \<Longrightarrow> get (put b c v) a = get b a"
  by (rule get_enc) (simp add: put_enc enc_get bytes_at_store_other length_enc)

lemma put_get: "put b a (get b a) = b"
  by (simp add: put_enc enc_get store_bytes_at_self)

lemma bytes_at_put: "bytes_at (put b a v) a width = enc v"
  by (simp add: put_enc bytes_at_store_same length_enc)

lemma enc_inj: "enc v = enc w \<Longrightarrow> v = w"
  using get_enc [of "put b 0 w" 0] bytes_at_put get_put by metis

end

interpretation field_u16: field_codec 2 be16 get_u16 put_u16
  by unfold_locales (simp_all add: get_u16_bytes_at be16_get_u16 put_u16_store)

interpretation field_u32: field_codec 4 be32 get_u32 put_u32
  by unfold_locales (simp_all add: get_u32_bytes_at be32_get_u32 put_u32_store)

interpretation field_u64: field_codec 8 be64 get_u64 put_u64
  by unfold_locales (simp_all add: get_u64_bytes_at be64_get_u64 put_u64_store)

section \<open>Byte swapping\<close>

lemma swap_pairs_length [simp]: "length (swap_pairs xs) = length xs"
  by (induction xs rule: swap_pairs.induct) auto

lemma swap_pairs_involution: "swap_pairs (swap_pairs xs) = xs"
  by (induction xs rule: swap_pairs.induct) auto

lemma swap_pairs_append: "even (length xs) \<Longrightarrow> swap_pairs (xs @ ys) = swap_pairs xs @ swap_pairs ys"
  by (induction xs rule: swap_pairs.induct) auto

lemma nth_swap_pairs:
  "i < length xs \<Longrightarrow> swap_pairs xs ! i =
     (if i < length xs - length xs mod 2 then xs ! (if even i then i + 1 else i - 1) else xs ! i)"
proof (induction xs arbitrary: i rule: swap_pairs.induct)
  case (1 x y zs)
  consider "i = 0" | "i = 1" | j where "i = Suc (Suc j)"
    by (metis One_nat_def not0_implies_Suc)
  then show ?case
  proof cases
    case (3 j)
    with 1 show ?thesis by (auto simp: nth_Cons' elim!: oddE)
  qed (auto simp: mod2_eq_if)
qed auto

lemma even_Suc_less: "even (i :: nat) \<Longrightarrow> i < n \<Longrightarrow> even n \<Longrightarrow> Suc i < n"
  by presburger

lemma swab_swap_pairs: "bytes_at (swab m n) 0 n = swap_pairs (bytes_at m 0 n)"
  by (rule nth_equalityI) (auto simp: nth_swap_pairs swab_def mod2_eq_if even_Suc_less)

lemma swab_other: "n \<le> i \<Longrightarrow> swab m n i = m i"
  by (auto simp: swab_def)

lemma byte_swap_bytes: "bytes_at (byte_swap m n) 0 n = swap_pairs (bytes_at m 0 n)"
  by (simp add: byte_swap_def swab_swap_pairs)

lemma bytes_at_byte_swap_above [mem_simps]: "n \<le> a \<Longrightarrow> bytes_at (byte_swap m n) a k = bytes_at m a k"
  by (rule bytes_at_cong) (simp add: byte_swap_def swab_other)

lemma byte_swap_loop_from:
  "even i \<Longrightarrow> even count \<Longrightarrow>
     byte_swap_loop d i count = (\<lambda>k. if i \<le> k \<and> k < count then (if even k then d (k + 1) else d (k - 1)) else d k)"
proof (induction d i count rule: byte_swap_loop.induct)
  case (1 d i count)
  show ?case
  proof (cases "i < count")
    case True
    have IH: "byte_swap_loop (d(i := d (i + 1), i + 1 := d i)) (i + 2) count =
      (\<lambda>k. if i + 2 \<le> k \<and> k < count
          then (if even k then (d(i := d (i + 1), i + 1 := d i)) (k + 1) else (d(i := d (i + 1), i + 1 := d i)) (k - 1))
          else (d(i := d (i + 1), i + 1 := d i)) k)"
      by (rule "1.IH") (use True "1.prems" in simp_all)
    from True \<open>even i\<close> \<open>even count\<close> have "Suc i < count" by (simp add: even_Suc_less)
    have "byte_swap_loop d i count = byte_swap_loop (d(i := d (i + 1), i + 1 := d i)) (i + 2) count"
      by (subst byte_swap_loop.simps) (simp add: True)
    moreover have "2 * b \<noteq> Suc i" for b using \<open>even i\<close> by presburger
    ultimately show ?thesis
      unfolding IH using \<open>Suc i < count\<close> \<open>even i\<close>
      by (auto simp: fun_eq_iff not_le less_Suc_eq elim!: oddE)
  qed (auto simp: byte_swap_loop.simps [of d i count] fun_eq_iff)
qed

text \<open>
  The accessors of a byte swapped buffer read what the plain accessors read before the swap:
  this is how \<^verbatim>\<open>tf_send\<close> and \<^verbatim>\<open>tf_get_response\<close> find the length of a packet.
\<close>

lemma byte_swap_pair: "even a \<Longrightarrow> Suc a < n \<Longrightarrow> byte_swap m n a = m (Suc a) \<and> byte_swap m n (Suc a) = m a"
  by (auto simp: byte_swap_def swab_def) presburger+

lemma get_u16_raw_swapped: "even a \<Longrightarrow> a + 2 \<le> n \<Longrightarrow> get_u16_raw (byte_swap m n) a = get_u16 m a"
  using byte_swap_pair [of a n m] by (simp add: get_u16_raw_bit get_u16_bit)

lemma get_u16_swapped: "even a \<Longrightarrow> a + 2 \<le> n \<Longrightarrow> get_u16 (byte_swap m n) a = get_u16_raw m a"
  using byte_swap_pair [of a n m] by (simp add: get_u16_raw_bit get_u16_bit)

lemma get_u32_raw_swapped:
  assumes "even a" and "a + 4 \<le> n"
  shows "get_u32_raw (byte_swap m n) a = get_u32 m a"
proof -
  have "byte_swap m n a = m (a + 1)" "byte_swap m n (a + 1) = m a"
    using byte_swap_pair [of a n m] assms by simp_all
  moreover have "byte_swap m n (a + 2) = m (a + 3)" "byte_swap m n (a + 3) = m (a + 2)"
    using byte_swap_pair [of "a + 2" n m] assms by (simp_all add: numeral_3_eq_3)
  ultimately show ?thesis by (simp only: get_u32_raw_def get_u32_def)
qed

lemma get_u16_cong: "b a = b' a' \<Longrightarrow> b (a + 1) = b' (a' + 1) \<Longrightarrow> get_u16 b a = get_u16 b' a'"
  by (simp add: get_u16_def)

lemma get_u16_raw_cong: "b a = b' a' \<Longrightarrow> b (a + 1) = b' (a' + 1) \<Longrightarrow> get_u16_raw b a = get_u16_raw b' a'"
  by (simp add: get_u16_raw_def)

section \<open>Properties\<close>

text \<open>Storing a 16, 32 or 64 bit value and loading it at the same address gives the value
  back, and the bytes stored are its big endian encoding.\<close>

theorem accessor_roundtrip:
  "get_u16 (put_u16 b a v) a = v \<and> bytes_at (put_u16 b a v) a 2 = be16 v
    \<and> get_u32 (put_u32 b a w) a = w \<and> bytes_at (put_u32 b a w) a 4 = be32 w
    \<and> get_u64 (put_u64 b a x) a = x \<and> bytes_at (put_u64 b a x) a 8 = be64 x"
  by (intro conjI field_u16.get_put field_u16.bytes_at_put field_u32.get_put field_u32.bytes_at_put
      field_u64.get_put field_u64.bytes_at_put)

text \<open>For every even count the hand written loop of the \<^verbatim>\<open>NO_SWAB\<close> build leaves the same
  memory as \<^verbatim>\<open>swab\<close>, the bytes are the pairwise swapped bytes, and swapping twice restores them.\<close>

theorem byte_swap_variants_agree:
  assumes "even count"
  shows "byte_swap_loop d 0 count = byte_swap d count
    \<and> bytes_at (byte_swap d count) 0 count = swap_pairs (bytes_at d 0 count)
    \<and> byte_swap (byte_swap d count) count = d"
proof (intro conjI)
  show "byte_swap_loop d 0 count = byte_swap d count"
    using assms by (simp add: byte_swap_loop_from byte_swap_def swab_def mod2_eq_if)
  show "byte_swap (byte_swap d count) count = d"
    using assms by (auto simp: byte_swap_def swab_def mod2_eq_if fun_eq_iff elim!: oddE evenE)
qed (rule byte_swap_bytes)

theorem byte_swap_variants_agree_witness:
  "even (4 :: nat) \<and> byte_swap_loop (\<lambda>i. of_nat i) 0 4 = byte_swap (\<lambda>i. of_nat i) 4"
proof -
  have e: "even (4 :: nat)" by simp
  show ?thesis using e byte_swap_variants_agree [OF e, of "\<lambda>i. of_nat i"] by simp
qed

end
