(* ===== verification/Tf_Os.thy ===== *)
theory Tf_Os
  imports Tf_Prelude
begin

text \<open>
  The surroundings of the library. The kernel and the C library are not part of the
  repository: their calls are the fields of an operating system record over an arbitrary world
  type. A bulk transfer to the device reports how many of the offered bytes were taken, one
  from the device the bytes it delivered, and \<open>None\<close> is the error return.
\<close>

section \<open>The operating system\<close>

text \<open>Broken-down time, \<^verbatim>\<open>struct tm\<close> of the C library.\<close>

record tm =
  tm_sec :: int
  tm_min :: int
  tm_hour :: int
  tm_mday :: int
  tm_mon :: int
  tm_year :: int
  tm_wday :: int
  tm_yday :: int
  tm_isdst :: int

record 'w os =
  os_bulk_out :: "int \<Rightarrow> u32 \<Rightarrow> u8 list \<Rightarrow> int \<Rightarrow> 'w \<Rightarrow> nat option \<times> 'w"
  os_bulk_in :: "int \<Rightarrow> u32 \<Rightarrow> nat \<Rightarrow> int \<Rightarrow> 'w \<Rightarrow> u8 list option \<times> 'w"
  os_sleep :: "nat \<Rightarrow> 'w \<Rightarrow> 'w"
  os_time :: "'w \<Rightarrow> int"
  os_mktime :: "tm \<Rightarrow> int"
  os_localtime :: "int \<Rightarrow> tm option"
  os_junk :: "string \<Rightarrow> 'w \<Rightarrow> mem"

text \<open>
  \<open>os_junk\<close> gives the indeterminate initial contents of an automatic variable, by its name.
  The running program is the world together with the text it has printed, by stream.
\<close>

type_synonym stream = nat

abbreviation (input) stderr :: stream where
  "stderr \<equiv> 2"

record 'w sys =
  world :: 'w
  printed :: "(stream \<times> string) list"

definition fprint :: "stream \<Rightarrow> string \<Rightarrow> 'w sys \<Rightarrow> 'w sys" where
  "fprint fh text s = s\<lparr>printed := printed s @ [(fh, text)]\<rparr>"

definition sleep :: "'w os \<Rightarrow> nat \<Rightarrow> 'w sys \<Rightarrow> 'w sys" where
  "sleep os n s = s\<lparr>world := os_sleep os n (world s)\<rparr>"

end
