(* ===== verification/Script_Device.thy ===== *)
theory Script_Device
  imports Tf_Os
begin

text \<open>
  A device that follows a script, used by the witnesses to run the model on concrete inputs: it
  records every transfer it receives and answers the reads with the packets of its inbox, one
  after the other; a read with an empty inbox is a timeout. The clock stands still, the sleeps
  are counted, and the time zone is UTC on the one date that the scripts use.
\<close>

record script =
  inbox :: "u8 list list"
  outbox :: "u8 list list"
  slept :: nat

definition script_out :: "int \<Rightarrow> u32 \<Rightarrow> u8 list \<Rightarrow> int \<Rightarrow> script \<Rightarrow> nat option \<times> script" where
  "script_out fd ep bs t w = (Some (length bs), w\<lparr>outbox := outbox w @ [bs]\<rparr>)"

definition script_in :: "int \<Rightarrow> u32 \<Rightarrow> nat \<Rightarrow> int \<Rightarrow> script \<Rightarrow> u8 list option \<times> script" where
  "script_in fd ep len t w =
     (case inbox w of
        [] \<Rightarrow> (None, w)
      | p # ps \<Rightarrow> (Some (take len p), w\<lparr>inbox := (if len < length p then drop len p # ps else ps)\<rparr>))"

definition script_os :: "script os" where
  "script_os = \<lparr>os_bulk_out = script_out, os_bulk_in = script_in,
     os_sleep = (\<lambda>n w. w\<lparr>slept := slept w + n\<rparr>), os_time = (\<lambda>w. 0),
     os_mktime = (\<lambda>tm. tm_year tm * 1000 + tm_mon tm * 50 + tm_mday tm),
     os_localtime = (\<lambda>t. Some \<lparr>tm_sec = 0, tm_min = 0, tm_hour = 0, tm_mday = 1, tm_mon = 0, tm_year = 106,
       tm_wday = 0, tm_yday = 0, tm_isdst = 0\<rparr>),
     os_junk = (\<lambda>name w i. 0xEE)\<rparr>"

definition script_sys :: "u8 list list \<Rightarrow> script sys" where
  "script_sys packets = \<lparr>world = \<lparr>inbox = packets, outbox = [], slept = 0\<rparr>, printed = []\<rparr>"

lemmas script_simps = script_os_def script_out_def script_in_def script_sys_def

end
