(* ===== verification/Usb_Io.thy ===== *)
theory Usb_Io
  imports Script_Device
begin

text \<open>
  The USB transfer layer of \<^verbatim>\<open>usb_io.c\<close>: the two bulk transfer loops over the kernel's
  \<^verbatim>\<open>ioctl\<close>. The kernel never transfers more than it was asked to, so the wrappers of the
  \<^verbatim>\<open>ioctl\<close> cut the results to the request.
\<close>

section \<open>The ioctl\<close>

text \<open>The \<^verbatim>\<open>ioctl(fd, USBDEVFS_BULK, &bulk)\<close> call, by the direction bit of the endpoint.\<close>

definition ioctl_bulk_out :: "'w os \<Rightarrow> int \<Rightarrow> u32 \<Rightarrow> u8 list \<Rightarrow> int \<Rightarrow> 'w \<Rightarrow> int \<times> 'w" where
  "ioctl_bulk_out os fd ep data timeout w =
     (case os_bulk_out os fd ep data timeout w of
        (None, w') \<Rightarrow> (-1, w')
      | (Some n, w') \<Rightarrow> (int (min n (length data)), w'))"

definition ioctl_bulk_in :: "'w os \<Rightarrow> int \<Rightarrow> u32 \<Rightarrow> nat \<Rightarrow> int \<Rightarrow> 'w \<Rightarrow> int \<times> u8 list \<times> 'w" where
  "ioctl_bulk_in os fd ep len timeout w =
     (case os_bulk_in os fd ep len timeout w of
        (None, w') \<Rightarrow> (-1, [], w')
      | (Some bs, w') \<Rightarrow> (int (length (take len bs)), take len bs, w'))"

section \<open>Bulk transfers\<close>

abbreviation (input) MAX_READ :: nat where "MAX_READ \<equiv> 16384"
abbreviation (input) MAX_WRITE :: nat where "MAX_WRITE \<equiv> 16384"
abbreviation (input) USB_ENDPOINT_DIR_MASK :: u32 where "USB_ENDPOINT_DIR_MASK \<equiv> 0x80"

text \<open>The \<^verbatim>\<open>do\<close> loop of \<^verbatim>\<open>usb_bulk_write\<close>, with \<open>sent\<close> bytes already gone.\<close>

function bulk_write_loop :: "'w os \<Rightarrow> int \<Rightarrow> u32 \<Rightarrow> u8 list \<Rightarrow> nat \<Rightarrow> int \<Rightarrow> 'w \<Rightarrow> nat \<times> 'w" where
  "bulk_write_loop os fd ep bytes sent timeout w =
     (let len = min (length bytes - sent) MAX_WRITE;
          (ret, w') = ioctl_bulk_out os fd ep (take len (drop sent bytes)) timeout w;
          sent' = (if ret < 0 then sent else sent + nat ret)
      in if ret > 0 \<and> sent' < length bytes
         then bulk_write_loop os fd ep bytes sent' timeout w'
         else (sent', w'))"
  by pat_completeness auto
termination
  by (relation "measure (\<lambda>(os, fd, ep, bytes, sent, timeout, w). length bytes - sent)") auto

declare bulk_write_loop.simps [simp del]

definition usb_bulk_write :: "'w os \<Rightarrow> int \<Rightarrow> u32 \<Rightarrow> u8 list \<Rightarrow> int \<Rightarrow> 'w sys \<Rightarrow> int \<times> 'w sys" where
  "usb_bulk_write os fd ep bytes timeout s =
     (let ep = ep AND NOT USB_ENDPOINT_DIR_MASK;
          (sent, w') = bulk_write_loop os fd ep bytes 0 timeout (world s);
          s = s\<lparr>world := w'\<rparr>;
          s = (if length bytes mod 0x200 = 0
               then fprint stderr (''WARNING: USB I/O is modulo 0x200 - this can trigger a bug in Topfield firmware.''
                 @ [CHR 0x0A]) s
               else s)
      in (int sent, s))"

function bulk_read_loop ::
  "'w os \<Rightarrow> int \<Rightarrow> u32 \<Rightarrow> mem \<Rightarrow> nat \<Rightarrow> nat \<Rightarrow> int \<Rightarrow> 'w \<Rightarrow> nat \<times> mem \<times> 'w" where
  "bulk_read_loop os fd ep bytes retrieved sz timeout w =
     (let requested = min (sz - retrieved) MAX_READ;
          (ret, data, w') = ioctl_bulk_in os fd ep requested timeout w;
          bytes' = store bytes retrieved data;
          retrieved' = (if ret < 0 then retrieved else retrieved + nat ret)
      in if ret > 0 \<and> retrieved' < sz \<and> ret = int requested
         then bulk_read_loop os fd ep bytes' retrieved' sz timeout w'
         else (retrieved', bytes', w'))"
  by pat_completeness auto
termination
  by (relation "measure (\<lambda>(os, fd, ep, bytes, retrieved, sz, timeout, w). sz - retrieved)") auto

declare bulk_read_loop.simps [simp del]

definition memset :: "mem \<Rightarrow> u8 \<Rightarrow> nat \<Rightarrow> mem" where
  "memset m v sz = (\<lambda>i. if i < sz then v else m i)"

definition usb_bulk_read ::
  "'w os \<Rightarrow> int \<Rightarrow> u32 \<Rightarrow> mem \<Rightarrow> nat \<Rightarrow> int \<Rightarrow> 'w sys \<Rightarrow> int \<times> mem \<times> 'w sys" where
  "usb_bulk_read os fd ep bytes sz timeout s =
     (let bytes = memset bytes 0 sz;
          ep = ep OR USB_ENDPOINT_DIR_MASK;
          (retrieved, bytes, w') = bulk_read_loop os fd ep bytes 0 sz timeout (world s)
      in (int retrieved, bytes, s\<lparr>world := w'\<rparr>))"

section \<open>The loops\<close>

lemma bulk_write_loop_unfold:
  "bulk_write_loop os fd ep bytes sent timeout w =
     (let chunk = take MAX_WRITE (drop sent bytes);
          (ret, w') = ioctl_bulk_out os fd ep chunk timeout w;
          sent' = (if ret < 0 then sent else sent + nat ret)
      in if ret > 0 \<and> sent' < length bytes
         then bulk_write_loop os fd ep bytes sent' timeout w'
         else (sent', w'))"
proof -
  have "take (min (length bytes - sent) MAX_WRITE) (drop sent bytes) = take MAX_WRITE (drop sent bytes)"
    by (simp add: min_def)
  then show ?thesis by (subst bulk_write_loop.simps) (simp add: Let_def)
qed

lemma ioctl_bulk_out_bounds:
  "ioctl_bulk_out os fd ep data timeout w = (ret, w') \<Longrightarrow> -1 \<le> ret \<and> ret \<le> int (length data)"
  by (auto simp: ioctl_bulk_out_def split: prod.splits option.splits)

lemma ioctl_bulk_in_bounds:
  "ioctl_bulk_in os fd ep len timeout w = (ret, data, w') \<Longrightarrow>
     ret = -1 \<and> data = [] \<or> ret = int (length data) \<and> length data \<le> len"
  by (auto simp: ioctl_bulk_in_def split: prod.splits option.splits)

lemma bulk_write_loop_bounds:
  "sent \<le> length bytes \<Longrightarrow> bulk_write_loop os fd ep bytes sent timeout w = (n, w') \<Longrightarrow>
     sent \<le> n \<and> n \<le> length bytes"
proof (induction os fd ep bytes sent timeout w arbitrary: n w' rule: bulk_write_loop.induct)
  case (1 os fd ep bytes sent timeout w)
  let ?len = "min (length bytes - sent) MAX_WRITE"
  obtain ret w1 where io: "ioctl_bulk_out os fd ep (take ?len (drop sent bytes)) timeout w = (ret, w1)"
    by fastforce
  note b = ioctl_bulk_out_bounds [OF io]
  show ?case
  proof (cases "ret > 0 \<and> sent + nat ret < length bytes")
    case True
    with "1.prems" io have "bulk_write_loop os fd ep bytes (sent + nat ret) timeout w1 = (n, w')"
      by (subst (asm) bulk_write_loop.simps) auto
    with "1.IH" [OF refl io [symmetric] refl refl] True have "sent + nat ret \<le> n \<and> n \<le> length bytes"
      by simp
    then show ?thesis by simp
  next
    case False
    with "1.prems" io b show ?thesis
      by (subst (asm) bulk_write_loop.simps) (auto simp: Let_def split: if_splits)
  qed
qed

lemma bulk_read_loop_spec:
  "retrieved \<le> sz \<Longrightarrow> bulk_read_loop os fd ep m retrieved sz timeout w = (n, m', w') \<Longrightarrow>
     retrieved \<le> n \<and> n \<le> sz \<and> (\<forall>i. i < retrieved \<or> n \<le> i \<longrightarrow> m' i = m i)"
proof (induction os fd ep m retrieved sz timeout w arbitrary: n m' w' rule: bulk_read_loop.induct)
  case (1 os fd ep m retrieved sz timeout w)
  let ?req = "min (sz - retrieved) MAX_READ"
  obtain ret data w1 where io: "ioctl_bulk_in os fd ep ?req timeout w = (ret, data, w1)"
    by (metis prod_cases3)
  note b = ioctl_bulk_in_bounds [OF io]
  show ?case
  proof (cases "ret > 0 \<and> retrieved + nat ret < sz \<and> ret = int ?req")
    case True
    with "1.prems" io have loop: "bulk_read_loop os fd ep (store m retrieved data) (retrieved + nat ret) sz timeout w1 = (n, m', w')"
      by (subst (asm) bulk_read_loop.simps) (auto simp: Let_def min_def split: if_splits)
    have "retrieved + nat ret \<le> n \<and> n \<le> sz
        \<and> (\<forall>i. i < retrieved + nat ret \<or> n \<le> i \<longrightarrow> m' i = store m retrieved data i)"
      by (rule "1.IH" [OF refl io [symmetric] refl refl refl]) (use True loop in auto)
    with b True show ?thesis by (auto simp: store_def)
  next
    case False
    with "1.prems" io b show ?thesis
      by (subst (asm) bulk_read_loop.simps) (auto simp: store_def Let_def split: if_splits)
  qed
qed

section \<open>The transport contract\<close>

text \<open>
  What the packet layers rely on: a write reports at most the bytes it was given and a read at
  most the bytes of the buffer; a read clears the buffer, so that every byte past the received
  ones is zero, and leaves the memory past the buffer alone; neither prints anything that
  depends on the data, so only the world and the print log of the system change.
\<close>

locale usb_transport =
  fixes bulk_write :: "int \<Rightarrow> u32 \<Rightarrow> u8 list \<Rightarrow> int \<Rightarrow> 's \<Rightarrow> int \<times> 's"
    and bulk_read :: "int \<Rightarrow> u32 \<Rightarrow> mem \<Rightarrow> nat \<Rightarrow> int \<Rightarrow> 's \<Rightarrow> int \<times> mem \<times> 's"
  assumes write_count: "bulk_write fd ep bs t s = (n, s') \<Longrightarrow> 0 \<le> n \<and> n \<le> int (length bs)"
    and read_count: "bulk_read fd ep m sz t s = (n, m', s') \<Longrightarrow> 0 \<le> n \<and> n \<le> int sz"
    and read_zero: "bulk_read fd ep m sz t s = (n, m', s') \<Longrightarrow> nat n \<le> i \<Longrightarrow> i < sz \<Longrightarrow> m' i = 0"
    and read_outside: "bulk_read fd ep m sz t s = (n, m', s') \<Longrightarrow> sz \<le> i \<Longrightarrow> m' i = m i"
begin

lemma read_tail:
  "bulk_read fd ep m sz t s = (int k, m', s') \<Longrightarrow> k + j \<le> sz \<Longrightarrow> bytes_at m' k j = replicate j 0"
  by (rule nth_equalityI) (auto simp: read_zero)

lemma read_count_nat:
  "bulk_read fd ep m sz t s = (n, m', s') \<Longrightarrow> \<exists>k. n = int k \<and> k \<le> sz"
  using read_count by (metis nonneg_int_cases of_nat_le_iff)

lemma write_short_iff:
  "bulk_write fd ep bs t s = (n, s') \<Longrightarrow> n \<noteq> int (length bs) \<longleftrightarrow> n < int (length bs)"
  using write_count by fastforce

end

lemma usb_bulk_read_world:
  "usb_bulk_read os fd ep m sz t s = (n, m', s') \<Longrightarrow> printed s' = printed s"
  by (auto simp: usb_bulk_read_def Let_def split: prod.splits)

interpretation usb: usb_transport "usb_bulk_write os" "usb_bulk_read os" for os :: "'w os"
proof (unfold_locales, goal_cases)
  case (1 fd ep bs t s n s')
  then show ?case
    using bulk_write_loop_bounds [of 0 bs os fd "ep AND NOT USB_ENDPOINT_DIR_MASK" t "world s"]
    by (auto simp: usb_bulk_write_def Let_def split: prod.splits)
next
  case (2 fd ep m sz t s n m' s')
  then show ?case
    using bulk_read_loop_spec [of 0 sz os fd "ep OR USB_ENDPOINT_DIR_MASK" "memset m 0 sz" t "world s"]
    by (auto simp: usb_bulk_read_def Let_def split: prod.splits)
next
  case (3 fd ep m sz t s n m' s' i)
  then show ?case
    using bulk_read_loop_spec [of 0 sz os fd "ep OR USB_ENDPOINT_DIR_MASK" "memset m 0 sz" t "world s"]
    by (auto simp: usb_bulk_read_def memset_def Let_def split: prod.splits)
next
  case (4 fd ep m sz t s n m' s' i)
  then show ?case
    using bulk_read_loop_spec [of 0 sz os fd "ep OR USB_ENDPOINT_DIR_MASK" "memset m 0 sz" t "world s"]
    by (auto simp: usb_bulk_read_def memset_def Let_def split: prod.splits)
qed

section \<open>What reaches the device and what comes from it\<close>

text \<open>
  The documented behaviour of a bulk endpoint. Outgoing: \<open>got w\<close> lists the bytes the device
  has received in world \<open>w\<close>; a transfer that reports \<open>n\<close> bytes appends the first \<open>n\<close> of the
  offered ones, a failed one appends nothing. Incoming: \<open>pend w\<close> is the rest of the packet
  that the device is sending; a request takes as much of it as it asked for.
\<close>

definition out_pipe :: "'w os \<Rightarrow> int \<Rightarrow> u32 \<Rightarrow> ('w \<Rightarrow> u8 list) \<Rightarrow> bool" where
  "out_pipe os fd ep got \<longleftrightarrow>
     (\<forall>bs t w w'. os_bulk_out os fd ep bs t w = (None, w') \<longrightarrow> got w' = got w) \<and>
     (\<forall>bs t w n w'. os_bulk_out os fd ep bs t w = (Some n, w') \<longrightarrow> got w' = got w @ take n bs)"

definition in_pipe :: "'w os \<Rightarrow> int \<Rightarrow> u32 \<Rightarrow> ('w \<Rightarrow> u8 list) \<Rightarrow> bool" where
  "in_pipe os fd ep pend \<longleftrightarrow>
     (\<forall>len t w. 0 < len \<longrightarrow> pend w \<noteq> [] \<longrightarrow>
        (\<exists>w'. os_bulk_in os fd ep len t w = (Some (take len (pend w)), w') \<and>
              (len < length (pend w) \<longrightarrow> pend w' = drop len (pend w))))"

lemma out_pipe_ioctl:
  assumes "out_pipe os fd ep got" and "ioctl_bulk_out os fd ep bs t w = (ret, w')"
  shows "got w' = got w @ take (nat ret) bs"
proof -
  obtain r w1 where out: "os_bulk_out os fd ep bs t w = (r, w1)" by fastforce
  show ?thesis
  proof (cases r)
    case None
    with assms out show ?thesis by (auto simp: ioctl_bulk_out_def out_pipe_def)
  next
    case (Some k)
    with assms(1) out have "got w1 = got w @ take k bs" unfolding out_pipe_def by blast
    with assms(2) out Some show ?thesis by (auto simp: ioctl_bulk_out_def min_def)
  qed
qed

lemma bulk_write_loop_delivers:
  "out_pipe os fd ep got \<Longrightarrow> sent \<le> length bytes \<Longrightarrow> bulk_write_loop os fd ep bytes sent t w = (n, w') \<Longrightarrow>
     got w' = got w @ take (n - sent) (drop sent bytes)"
proof (induction os fd ep bytes sent t w arbitrary: n w' rule: bulk_write_loop.induct)
  case (1 os fd ep bytes sent t w)
  let ?len = "min (length bytes - sent) MAX_WRITE"
  obtain ret w1 where io: "ioctl_bulk_out os fd ep (take ?len (drop sent bytes)) t w = (ret, w1)"
    by fastforce
  note b = ioctl_bulk_out_bounds [OF io]
  have got1: "got w1 = got w @ take (nat ret) (drop sent bytes)"
    using out_pipe_ioctl [OF "1.prems"(1) io] b by (simp add: min_def split: if_splits)
  show ?case
  proof (cases "ret > 0 \<and> sent + nat ret < length bytes")
    case True
    with "1.prems" io have loop: "bulk_write_loop os fd ep bytes (sent + nat ret) t w1 = (n, w')"
      by (subst (asm) bulk_write_loop.simps) auto
    with "1.IH" [OF refl io [symmetric] refl refl] True "1.prems"(1)
    have "got w' = got w1 @ take (n - (sent + nat ret)) (drop (sent + nat ret) bytes)" by simp
    moreover have "take (n - sent) (drop sent bytes) = take (nat ret) (drop sent bytes)
        @ take (n - (sent + nat ret)) (drop (sent + nat ret) bytes)"
      using bulk_write_loop_bounds [OF _ loop] True
        take_add [of "nat ret" "n - (sent + nat ret)" "drop sent bytes"]
      by (simp add: add.commute)
    ultimately show ?thesis
      using got1 by simp
  next
    case False
    with "1.prems" io b got1 show ?thesis
      by (subst (asm) bulk_write_loop.simps) (auto simp: Let_def split: if_splits)
  qed
qed

lemma in_pipe_ioctl:
  assumes "in_pipe os fd ep pend" and "0 < len" and "pend w \<noteq> []"
  shows "\<exists>w'. ioctl_bulk_in os fd ep len t w = (int (min len (length (pend w))), take len (pend w), w')
    \<and> (len < length (pend w) \<longrightarrow> pend w' = drop len (pend w))"
proof -
  obtain w' where "os_bulk_in os fd ep len t w = (Some (take len (pend w)), w')"
    and "len < length (pend w) \<longrightarrow> pend w' = drop len (pend w)"
    using assms unfolding in_pipe_def by blast
  then show ?thesis by (auto simp: ioctl_bulk_in_def min.commute)
qed

lemma bulk_read_loop_packet:
  "in_pipe os fd ep pend \<Longrightarrow> length (pend w) mod MAX_READ \<noteq> 0 \<Longrightarrow> r + length (pend w) < sz \<Longrightarrow>
     \<exists>w'. \<forall>m. bulk_read_loop os fd ep m r sz t w = (r + length (pend w), store m r (pend w), w')"
proof (induction "length (pend w)" arbitrary: r w rule: less_induct)
  case less
  let ?req = "min (sz - r) MAX_READ"
  from less.prems have ne: "pend w \<noteq> []" and req: "0 < ?req" by auto
  obtain w1 where io: "ioctl_bulk_in os fd ep ?req t w = (int (min ?req (length (pend w))), take ?req (pend w), w1)"
    and rest: "?req < length (pend w) \<longrightarrow> pend w1 = drop ?req (pend w)"
    using in_pipe_ioctl [OF less.prems(1) req ne] by blast
  show ?case
  proof (cases "MAX_READ < length (pend w)")
    case True
    with less.prems(3) have eq: "?req = MAX_READ" by simp
    with True rest have pend1: "pend w1 = drop MAX_READ (pend w)" by simp
    have "\<exists>w'. \<forall>m. bulk_read_loop os fd ep m (r + MAX_READ) sz t w1
        = (r + MAX_READ + length (pend w1), store m (r + MAX_READ) (pend w1), w')"
      by (rule less.hyps) (use less.prems True pend1 in \<open>simp_all add: mod_if [of "length (pend w)"]\<close>)
    then obtain w' where loop: "\<And>m. bulk_read_loop os fd ep m (r + MAX_READ) sz t w1
        = (r + MAX_READ + length (pend w1), store m (r + MAX_READ) (pend w1), w')"
      by blast
    have "store (store m r (take MAX_READ (pend w))) (r + MAX_READ) (pend w1) = store m r (pend w)" for m
      using store_append [of m r "take MAX_READ (pend w)" "drop MAX_READ (pend w)"] True
      by (simp add: pend1)
    then have "bulk_read_loop os fd ep m r sz t w = (r + length (pend w), store m r (pend w), w')" for m
      using io eq True less.prems(3) pend1 loop by (subst bulk_read_loop.simps) (simp add: Let_def)
    then show ?thesis by blast
  next
    case False
    with less.prems(2) have "length (pend w) < MAX_READ" by (cases "length (pend w) = MAX_READ") auto
    with io ne less.prems(3) show ?thesis
      by (subst bulk_read_loop.simps) (auto simp: Let_def min_def)
  qed
qed

lemma script_out_pipe: "out_pipe script_os fd ep (\<lambda>w. concat (outbox w))"
  by (auto simp: out_pipe_def script_simps)

lemma script_in_pipe: "in_pipe script_os fd ep (\<lambda>w. case inbox w of [] \<Rightarrow> [] | p # ps \<Rightarrow> p)"
  by (auto simp: in_pipe_def script_simps split: list.splits)

lemma usb_bulk_write_result:
  assumes "out_pipe os fd (ep AND NOT 0x80) got"
    and "usb_bulk_write os fd ep bytes t s = (ret, s')"
  shows "0 \<le> ret \<and> ret \<le> int (length bytes)
    \<and> got (world s') = got (world s) @ take (nat ret) bytes
    \<and> (ret = int (length bytes) \<longleftrightarrow> got (world s') = got (world s) @ bytes)"
proof -
  obtain n w' where loop: "bulk_write_loop os fd (ep AND NOT 0x80) bytes 0 t (world s) = (n, w')"
    by fastforce
  with assms(2) have eq: "ret = int n" "world s' = w'"
    by (auto simp: usb_bulk_write_def fprint_def Let_def split: if_splits)
  have "n \<le> length bytes"
    using bulk_write_loop_bounds [OF _ loop] by simp
  moreover have got: "got w' = got (world s) @ take n bytes"
    using bulk_write_loop_delivers [OF assms(1) _ loop] by simp
  moreover have "take n bytes = bytes \<longleftrightarrow> n = length bytes"
    using \<open>n \<le> length bytes\<close> by (metis length_take min.absorb2 take_all order_refl)
  ultimately show ?thesis by (simp add: eq)
qed

lemma usb_bulk_read_result:
  assumes "in_pipe os fd (ep OR 0x80) pend"
    and "length (pend (world s)) mod 16384 \<noteq> 0" and "length (pend (world s)) < sz"
  shows "\<exists>m' s'. usb_bulk_read os fd ep m sz t s = (int (length (pend (world s))), m', s')
    \<and> bytes_at m' 0 sz = pend (world s) @ replicate (sz - length (pend (world s))) 0"
proof -
  let ?p = "pend (world s)"
  obtain w' where loop: "bulk_read_loop os fd (ep OR 0x80) (memset m 0 sz) 0 sz t (world s)
      = (length ?p, store (memset m 0 sz) 0 ?p, w')"
    using bulk_read_loop_packet [OF assms(1,2), of 0 sz t] assms(3) by auto
  have "bytes_at (store (memset m 0 sz) 0 ?p) 0 sz = ?p @ replicate (sz - length ?p) 0"
    using assms(3) by (intro nth_equalityI) (auto simp: store_def memset_def nth_append)
  with loop show ?thesis by (simp add: usb_bulk_read_def)
qed

section \<open>Properties\<close>

text \<open>However the kernel splits the transfer, the device receives exactly the first \<open>ret\<close>
  bytes of the buffer in order, where \<open>ret\<close> is the result of \<^verbatim>\<open>usb_bulk_write\<close>; so the result
  equals the length exactly if the whole buffer was delivered.\<close>

theorem usb_bulk_write_delivers:
  assumes "out_pipe os fd (ep AND NOT 0x80) got"
    and "usb_bulk_write os fd ep bytes t s = (ret, s')"
  shows "0 \<le> ret \<and> ret \<le> int (length bytes)
    \<and> got (world s') = got (world s) @ take (nat ret) bytes
    \<and> (ret = int (length bytes) \<longleftrightarrow> got (world s') = got (world s) @ bytes)"
  using assms by (rule usb_bulk_write_result)

theorem usb_bulk_write_delivers_witness:
  "out_pipe script_os 3 (0x01 AND NOT 0x80) (\<lambda>w. concat (outbox w))
   \<and> fst (usb_bulk_write script_os 3 0x01 [1, 2, 3] 1000 (script_sys [])) = 3
   \<and> concat (outbox (world (snd (usb_bulk_write script_os 3 0x01 [1, 2, 3] 1000 (script_sys []))))) = [1, 2, 3]"
proof -
  obtain ret s' where run: "usb_bulk_write script_os 3 0x01 [1, 2, 3] 1000 (script_sys []) = (ret, s')"
    by fastforce
  then have "ret = 3"
    by (simp add: usb_bulk_write_def bulk_write_loop.simps [of _ _ _ "[1, 2, 3]"] ioctl_bulk_out_def script_simps Let_def)
  with usb_bulk_write_delivers [OF script_out_pipe run] run show ?thesis
    by (simp add: script_out_pipe script_sys_def)
qed

text \<open>A packet whose length is below the buffer size and is no multiple of the largest
  request is read whole: the result is its length, the buffer holds its bytes, and the rest of
  the buffer is zero.\<close>

theorem usb_bulk_read_packet:
  assumes "in_pipe os fd (ep OR 0x80) pend"
    and "length (pend (world s)) mod 16384 \<noteq> 0" and "length (pend (world s)) < sz"
  shows "\<exists>m' s'. usb_bulk_read os fd ep m sz t s = (int (length (pend (world s))), m', s')
    \<and> bytes_at m' 0 sz = pend (world s) @ replicate (sz - length (pend (world s))) 0"
  using assms by (rule usb_bulk_read_result)

theorem usb_bulk_read_packet_witness:
  "\<exists>m' s'. usb_bulk_read script_os 3 0x82 (\<lambda>i. 7) 16 1000 (script_sys [[1, 2, 3]]) = (3, m', s')
    \<and> bytes_at m' 0 16 = [1, 2, 3] @ replicate 13 0"
  using usb_bulk_read_packet [OF script_in_pipe, where s = "script_sys [[1, 2, 3]]" and sz = 16
      and fd = 3 and ep = "0x82" and m = "\<lambda>i. 7" and t = 1000]
  by (simp add: script_sys_def)

end
