(* ===== verification/Tf_Handle.thy ===== *)
theory Tf_Handle
  imports Tf_Bytes Usb_Io
begin

text \<open>
  The connection handle of \<^verbatim>\<open>tf_open.h\<close>, the error codes of \<^verbatim>\<open>tf_io.h\<close>, and the pieces of
  \<^verbatim>\<open>printf\<close> that the packet traces use.
\<close>

section \<open>The handle\<close>

text \<open>
  A null pointer is \<open>None\<close>. The USB device structure holds only its file descriptor, so \<open>dev\<close>
  is that descriptor; \<open>buf\<close> is the 64 KiB transfer buffer.
\<close>

record tf_handle =
  timeout :: int
  trace_level :: int
  tracefh :: "stream option"
  nocrc :: int
  error :: int
  lock_fd :: int
  dev :: "int option"
  pending :: int
  buf :: "mem option"

abbreviation (input) TF_ERR_NONE :: int where "TF_ERR_NONE \<equiv> 0"
abbreviation (input) TF_ERR_DONE :: int where "TF_ERR_DONE \<equiv> 1"
abbreviation (input) TF_ERR_CRC :: int where "TF_ERR_CRC \<equiv> -1"
abbreviation (input) TF_ERR_FAIL2 :: int where "TF_ERR_FAIL2 \<equiv> -2"
abbreviation (input) TF_ERR_BADCMD :: int where "TF_ERR_BADCMD \<equiv> -3"
abbreviation (input) TF_ERR_FAIL4 :: int where "TF_ERR_FAIL4 \<equiv> -4"
abbreviation (input) TF_ERR_BLKSIZE :: int where "TF_ERR_BLKSIZE \<equiv> -5"
abbreviation (input) TF_ERR_GENERR :: int where "TF_ERR_GENERR \<equiv> -6"
abbreviation (input) TF_ERR_NOMEM :: int where "TF_ERR_NOMEM \<equiv> -7"
abbreviation (input) TF_ERR_UNEXPECTED :: int where "TF_ERR_UNEXPECTED \<equiv> -100"
abbreviation (input) TF_ERR_IO :: int where "TF_ERR_IO \<equiv> -101"
abbreviation (input) TF_ERR_NOCONN :: int where "TF_ERR_NOCONN \<equiv> -102"

definition tf_strerror :: "int \<Rightarrow> string" where
  "tf_strerror err =
     (if err = TF_ERR_NONE then ''No error''
      else if err = TF_ERR_DONE then ''No more files''
      else if err = TF_ERR_CRC then ''CRC error''
      else if err = TF_ERR_FAIL2 then ''Unknown command (2)''
      else if err = TF_ERR_FAIL4 then ''Unknown command (4)''
      else if err = TF_ERR_BADCMD then ''Invalid command''
      else if err = TF_ERR_BLKSIZE then ''Invalid block size''
      else if err = TF_ERR_GENERR then ''Unknown error while running''
      else if err = TF_ERR_NOMEM then ''Memory is full''
      else if err = TF_ERR_UNEXPECTED then ''Unexpected response''
      else if err = TF_ERR_IO then ''I/O error''
      else if err = TF_ERR_NOCONN then ''Not connected''
      else ''Unknown error'')"

text \<open>The fields that no command changes: everything but the error, the pending flag and the
  contents of the transfer buffer.\<close>

definition same_session :: "tf_handle \<Rightarrow> tf_handle \<Rightarrow> bool" where
  "same_session tf tf' \<longleftrightarrow> timeout tf' = timeout tf \<and> trace_level tf' = trace_level tf
     \<and> tracefh tf' = tracefh tf \<and> nocrc tf' = nocrc tf \<and> lock_fd tf' = lock_fd tf
     \<and> dev tf' = dev tf \<and> (buf tf' = None \<longleftrightarrow> buf tf = None)"

lemma same_session_refl [simp, intro]: "same_session tf tf"
  by (simp add: same_session_def)

lemma same_session_trans [trans]: "same_session a b \<Longrightarrow> same_session b c \<Longrightarrow> same_session a c"
  by (simp add: same_session_def)

lemma same_session_updates [simp, intro]:
  "same_session tf (tf\<lparr>error := e\<rparr>)" "same_session tf (tf\<lparr>pending := p\<rparr>)"
  by (simp_all add: same_session_def)

text \<open>A handle as \<^verbatim>\<open>topfield_open\<close> leaves it, for the witnesses.\<close>

definition script_handle :: tf_handle where
  "script_handle = \<lparr>timeout = 11000, trace_level = 0, tracefh = Some stderr, nocrc = 0, error = 0,
     lock_fd = -1, dev = Some 3, pending = 0, buf = Some (\<lambda>i. 0xEE)\<rparr>"

lemma script_handle_simps [simp]:
  "dev script_handle = Some 3" "nocrc script_handle = 0" "timeout script_handle = 11000"
  "trace_level script_handle = 0" "pending script_handle = 0" "buf script_handle = Some (\<lambda>i. 0xEE)"
  by (simp_all add: script_handle_def)

section \<open>Formatted output\<close>

function radix_digits :: "nat \<Rightarrow> nat \<Rightarrow> nat list" where
  "radix_digits b n = (if b < 2 \<or> n < b then [n] else radix_digits b (n div b) @ [n mod b])"
  by pat_completeness auto
termination
  by (relation "measure snd") auto

declare radix_digits.simps [simp del]

definition digit_char :: "bool \<Rightarrow> nat \<Rightarrow> char" where
  "digit_char upper d = char_of (if d < 10 then 48 + d else (if upper then 55 else 87) + d)"

text \<open>\<^verbatim>\<open>%0*X\<close> and \<^verbatim>\<open>%0*x\<close>, and \<^verbatim>\<open>%d\<close>.\<close>

definition fmt_hex :: "bool \<Rightarrow> nat \<Rightarrow> nat \<Rightarrow> string" where
  "fmt_hex upper width n =
     (let ds = map (digit_char upper) (radix_digits 16 n) in replicate (width - length ds) CHR ''0'' @ ds)"

definition fmt_int :: "int \<Rightarrow> string" where
  "fmt_int i = (if i < 0 then CHR ''-'' # map (digit_char False) (radix_digits 10 (nat (- i)))
      else map (digit_char False) (radix_digits 10 (nat i)))"

definition newline :: string where
  "newline = [CHR 0x0A]"

text \<open>The bytes of a trace, 32 to a line.\<close>

definition fmt_bytes :: "u8 list \<Rightarrow> string" where
  "fmt_bytes bs = concat (map (\<lambda>i. (if i mod 32 = 0 then newline else []) @ CHR '' '' # fmt_hex False 2 (unat (bs ! i)))
      [0..<length bs])"

end
