(* ===== verification/Crc16.thy ===== *)
theory Crc16
  imports Tf_Prelude
begin

text \<open>
  The packet checksum of \<^verbatim>\<open>crc16.c\<close>: a table driven CRC-16 (reflected polynomial
  \<^verbatim>\<open>0xA001\<close>). The table and the loop are the code's; the specification is the shift register
  that processes one bit at a time. The theory proves that both compute the same checksum and
  which corruptions of a packet the checksum detects.
\<close>

section \<open>Definitions\<close>

definition crc_16_table :: "u16 list" where
  "crc_16_table = [
      0x0000, 0xc0c1, 0xc181, 0x0140, 0xc301, 0x03c0, 0x0280, 0xc241,
      0xc601, 0x06c0, 0x0780, 0xc741, 0x0500, 0xc5c1, 0xc481, 0x0440,
      0xcc01, 0x0cc0, 0x0d80, 0xcd41, 0x0f00, 0xcfc1, 0xce81, 0x0e40,
      0x0a00, 0xcac1, 0xcb81, 0x0b40, 0xc901, 0x09c0, 0x0880, 0xc841,
      0xd801, 0x18c0, 0x1980, 0xd941, 0x1b00, 0xdbc1, 0xda81, 0x1a40,
      0x1e00, 0xdec1, 0xdf81, 0x1f40, 0xdd01, 0x1dc0, 0x1c80, 0xdc41,
      0x1400, 0xd4c1, 0xd581, 0x1540, 0xd701, 0x17c0, 0x1680, 0xd641,
      0xd201, 0x12c0, 0x1380, 0xd341, 0x1100, 0xd1c1, 0xd081, 0x1040,
      0xf001, 0x30c0, 0x3180, 0xf141, 0x3300, 0xf3c1, 0xf281, 0x3240,
      0x3600, 0xf6c1, 0xf781, 0x3740, 0xf501, 0x35c0, 0x3480, 0xf441,
      0x3c00, 0xfcc1, 0xfd81, 0x3d40, 0xff01, 0x3fc0, 0x3e80, 0xfe41,
      0xfa01, 0x3ac0, 0x3b80, 0xfb41, 0x3900, 0xf9c1, 0xf881, 0x3840,
      0x2800, 0xe8c1, 0xe981, 0x2940, 0xeb01, 0x2bc0, 0x2a80, 0xea41,
      0xee01, 0x2ec0, 0x2f80, 0xef41, 0x2d00, 0xedc1, 0xec81, 0x2c40,
      0xe401, 0x24c0, 0x2580, 0xe541, 0x2700, 0xe7c1, 0xe681, 0x2640,
      0x2200, 0xe2c1, 0xe381, 0x2340, 0xe101, 0x21c0, 0x2080, 0xe041,
      0xa001, 0x60c0, 0x6180, 0xa141, 0x6300, 0xa3c1, 0xa281, 0x6240,
      0x6600, 0xa6c1, 0xa781, 0x6740, 0xa501, 0x65c0, 0x6480, 0xa441,
      0x6c00, 0xacc1, 0xad81, 0x6d40, 0xaf01, 0x6fc0, 0x6e80, 0xae41,
      0xaa01, 0x6ac0, 0x6b80, 0xab41, 0x6900, 0xa9c1, 0xa881, 0x6840,
      0x7800, 0xb8c1, 0xb981, 0x7940, 0xbb01, 0x7bc0, 0x7a80, 0xba41,
      0xbe01, 0x7ec0, 0x7f80, 0xbf41, 0x7d00, 0xbdc1, 0xbc81, 0x7c40,
      0xb401, 0x74c0, 0x7580, 0xb541, 0x7700, 0xb7c1, 0xb681, 0x7640,
      0x7200, 0xb2c1, 0xb381, 0x7340, 0xb101, 0x71c0, 0x7080, 0xb041,
      0x5000, 0x90c1, 0x9181, 0x5140, 0x9301, 0x53c0, 0x5280, 0x9241,
      0x9601, 0x56c0, 0x5780, 0x9741, 0x5500, 0x95c1, 0x9481, 0x5440,
      0x9c01, 0x5cc0, 0x5d80, 0x9d41, 0x5f00, 0x9fc1, 0x9e81, 0x5e40,
      0x5a00, 0x9ac1, 0x9b81, 0x5b40, 0x9901, 0x59c0, 0x5880, 0x9841,
      0x8801, 0x48c0, 0x4980, 0x8941, 0x4b00, 0x8bc1, 0x8a81, 0x4a40,
      0x4e00, 0x8ec1, 0x8f81, 0x4f40, 0x8d01, 0x4dc0, 0x4c80, 0x8c41,
      0x4400, 0x84c1, 0x8581, 0x4540, 0x8701, 0x47c0, 0x4680, 0x8641,
      0x8201, 0x42c0, 0x4380, 0x8341, 0x4100, 0x81c1, 0x8081, 0x4040
    ]"

text \<open>The loop \<^verbatim>\<open>while (size--)\<close> over the bytes at \<open>data\<close>.\<close>

fun crc16_ansi :: "u16 \<Rightarrow> u8 list \<Rightarrow> u16" where
  "crc16_ansi crc [] = crc"
| "crc16_ansi crc (d # data) =
     crc16_ansi (crc_16_table ! unat ((crc XOR ucast d) AND 0xff) XOR drop_bit 8 crc) data"

declare crc16_ansi.simps(2) [simp del]

text \<open>Specification: the bit serial shift register.\<close>

definition crc_bit :: "u16 \<Rightarrow> u16" where
  "crc_bit c = (if bit c 0 then drop_bit 1 c XOR 0xA001 else drop_bit 1 c)"

fun crc_spec :: "u16 \<Rightarrow> u8 list \<Rightarrow> u16" where
  "crc_spec c [] = c"
| "crc_spec c (d # ds) = crc_spec ((crc_bit ^^ 8) (c XOR ucast d)) ds"

section \<open>The shift register\<close>

lemma crc_bit_xor: "crc_bit (a XOR b) = crc_bit a XOR crc_bit b"
  by (auto simp: crc_bit_def bit_0 drop_bit_xor even_xor_iff xor.assoc xor.left_commute xor.commute)

lemma crc_bits_xor: "(crc_bit ^^ n) (a XOR b) = (crc_bit ^^ n) a XOR (crc_bit ^^ n) b"
  by (induction n) (simp_all add: crc_bit_xor)

lemma crc_bit_top: "bit (crc_bit a) 15 = odd a"
  by (simp add: crc_bit_def bit_simps bit_0)

lemma xor_right_cancel: "a XOR v = b XOR v \<longleftrightarrow> a = (b :: u16)"
proof
  assume "a XOR v = b XOR v"
  then have "(a XOR v) XOR v = (b XOR v) XOR v" by simp
  then show "a = b" by (simp add: xor.assoc)
qed simp

lemma drop_bit_1_odd_eq: "drop_bit 1 a = drop_bit 1 b \<Longrightarrow> odd a = odd b \<Longrightarrow> a = (b :: u16)"
proof (rule bit_word_eqI)
  fix n assume d: "drop_bit 1 a = drop_bit 1 b" and o: "odd a = odd b"
  show "bit a n = bit b n"
  proof (cases n)
    case (Suc k)
    from d have "bit (drop_bit 1 a) k = bit (drop_bit 1 b) k" by simp
    then show ?thesis by (simp add: Suc bit_drop_bit_eq)
  qed (use o in \<open>simp add: bit_0\<close>)
qed

lemma crc_bit_inj: "crc_bit a = crc_bit b \<longleftrightarrow> a = b"
proof
  assume eq: "crc_bit a = crc_bit b"
  then have odd: "odd a = odd b"
    using crc_bit_top by metis
  with eq have "drop_bit 1 a = drop_bit 1 b"
    by (cases "odd a") (simp_all add: crc_bit_def bit_0 xor_right_cancel)
  from this odd show "a = b" by (rule drop_bit_1_odd_eq)
qed simp

lemma crc_bits_inj: "(crc_bit ^^ n) a = (crc_bit ^^ n) b \<longleftrightarrow> a = b"
  by (induction n) (simp_all add: crc_bit_inj)

lemma crc_bits_shift:
  "n \<le> k \<Longrightarrow> (crc_bit ^^ n) (push_bit k c) = drop_bit n (push_bit k c)"
proof (induction n)
  case (Suc n)
  then have "even (drop_bit n (push_bit k c))"
    by (auto simp: even_drop_bit_iff_not_bit bit_simps)
  with Suc show ?case by (simp add: crc_bit_def bit_0)
qed simp

lemma crc_byte_high: "(crc_bit ^^ 8) (push_bit 8 (ucast (b :: u8))) = ucast b"
  unfolding crc_bits_shift [OF order_refl]
proof (rule bit_word_eqI)
  fix n assume "n < LENGTH(16)"
  then show "bit (drop_bit 8 (push_bit 8 (ucast b)) :: u16) n = bit (ucast b :: u16) n"
    by (cases "n < 8") (simp_all add: bit_simps)
qed

section \<open>The table holds the register's bytes\<close>

text \<open>
  Eight steps of the register are linear, so the 256 entries are the sums of the eight entries
  of the powers of two; \<open>xor_span\<close> lists these sums in index order.
\<close>

definition crc_byte :: "u16 \<Rightarrow> u16" where
  "crc_byte c = (crc_bit ^^ 8) c"

lemma crc_byte_code: "crc_byte c = crc_bit (crc_bit (crc_bit (crc_bit (crc_bit (crc_bit (crc_bit (crc_bit c)))))))"
  by (simp add: crc_byte_def eval_nat_numeral)

fun xor_span :: "u16 list \<Rightarrow> u16 list" where
  "xor_span [] = [0]"
| "xor_span (b # bs) = xor_span bs @ map ((XOR) b) (xor_span bs)"

lemma of_nat_plus_power_xor:
  assumes "i < 2 ^ n" and "n < 16"
  shows "(of_nat (2 ^ n + i) :: u16) = of_nat (2 ^ n) XOR of_nat i"
proof -
  have "(of_nat (2 ^ n) :: u16) AND of_nat i = 0"
    using assms(1) by (intro bit_word_eqI) (auto simp: bit_simps bit_nat_def)
  then show ?thesis
    by (simp add: disjunctive_xor_eq_or disjunctive_add_eq_or [symmetric])
qed

lemma xor_span_powers:
  "n \<le> 16 \<Longrightarrow> xor_span (map (\<lambda>k. crc_byte (of_nat (2 ^ k))) (rev [0..<n])) = map (\<lambda>i. crc_byte (of_nat i)) [0..<2 ^ n]"
proof (induction n)
  case 0
  show ?case by (simp add: crc_byte_code crc_bit_def)
next
  case (Suc n)
  have "[0..<2 ^ Suc n] = [0..<2 ^ n] @ map (\<lambda>i. i + 2 ^ n) [0..<2 ^ n]"
    by (simp add: map_add_upt mult_2 upt_add_eq_append [of 0])
  moreover have "crc_byte (of_nat (i + 2 ^ n)) = crc_byte (of_nat (2 ^ n)) XOR crc_byte (of_nat i)"
    if "i < 2 ^ n" for i
    using that Suc.prems by (simp only: add.commute [of i] of_nat_plus_power_xor crc_byte_def crc_bits_xor)
  ultimately show ?case using Suc by simp
qed

lemma crc_table_entries: "crc_16_table = map (\<lambda>i. crc_byte (of_nat i)) [0..<256]"
proof -
  have "crc_16_table = xor_span (map (\<lambda>k. crc_byte (of_nat (2 ^ k))) (rev [0..<8]))"
    unfolding crc_16_table_def by (simp add: crc_byte_code crc_bit_def upt_rec)
  then show ?thesis using xor_span_powers [of 8] by simp
qed

lemma crc_table_nth: "i < 256 \<Longrightarrow> crc_16_table ! i = crc_byte (of_nat i)"
  by (simp add: crc_table_entries)

section \<open>Table driven and bit serial checksum agree\<close>

lemma mask_low_byte: "(c :: u16) AND 0xff = take_bit 8 c"
  by (simp add: take_bit_eq_mask mask_eq_exp_minus_1)

lemma low_high_xor: "take_bit 8 c XOR push_bit 8 (drop_bit 8 c) = (c :: u16)"
  by (rule bit_word_eqI) (auto simp: bit_simps)

lemma drop_push_high: "drop_bit 8 (push_bit 8 (drop_bit 8 c)) = drop_bit 8 (c :: u16)"
proof (rule bit_word_eqI)
  fix n assume "n < LENGTH(16)"
  then show "bit (drop_bit 8 (push_bit 8 (drop_bit 8 c))) n = bit (drop_bit 8 c) n"
    by (cases "n < 8") (simp_all add: bit_simps)
qed

lemma crc_table_step:
  fixes c :: u16 and d :: u8
  shows "crc_16_table ! unat ((c XOR ucast d) AND 0xff) XOR drop_bit 8 c = crc_byte (c XOR ucast d)"
proof -
  let ?x = "c XOR ucast d"
  have lt: "unat (take_bit 8 z) < 256" for z :: u16
    using take_bit_nat_less_exp [of 8 "unat z"] by (simp add: unsigned_take_bit_eq)
  have high: "drop_bit 8 ?x = drop_bit 8 c"
    by (rule bit_word_eqI) (simp add: bit_simps)
  have "crc_byte ?x = crc_byte (take_bit 8 ?x XOR push_bit 8 (drop_bit 8 ?x))"
    by (simp only: low_high_xor)
  also have "\<dots> = crc_byte (take_bit 8 ?x) XOR drop_bit 8 (push_bit 8 (drop_bit 8 ?x))"
    by (simp only: crc_byte_def crc_bits_xor crc_bits_shift [OF order_refl])
  also have "drop_bit 8 (push_bit 8 (drop_bit 8 ?x)) = drop_bit 8 c"
    unfolding high by (rule drop_push_high)
  finally show ?thesis
    by (simp only: mask_low_byte crc_table_nth [OF lt] of_nat_unat ucast_id)
qed

lemma crc16_ansi_step: "crc16_ansi c (d # ds) = crc16_ansi (crc_byte (c XOR ucast d)) ds"
  by (simp only: crc16_ansi.simps crc_table_step)

lemma crc16_ansi_append: "crc16_ansi c (xs @ ys) = crc16_ansi (crc16_ansi c xs) ys"
  by (induction c xs rule: crc16_ansi.induct) (simp_all add: crc16_ansi.simps(2))

lemma crc16_ansi_inj: "crc16_ansi a ds = crc16_ansi b ds \<longleftrightarrow> a = b"
proof (induction ds arbitrary: a b)
  case (Cons d ds)
  then show ?case
    by (simp only: crc16_ansi_step crc_byte_def crc_bits_inj xor_right_cancel)
qed simp

lemma crc16_ansi_two:
  "crc16_ansi c [x, y] = (crc_bit ^^ 16) (c XOR (ucast x XOR push_bit 8 (ucast y)))"
proof -
  have "crc_byte (crc_byte (c XOR ucast x) XOR ucast y)
      = (crc_bit ^^ 8) ((crc_bit ^^ 8) (c XOR ucast x XOR push_bit 8 (ucast y)))"
    unfolding crc_byte_def crc_bits_xor crc_byte_high by (simp only: xor.assoc)
  also have "\<dots> = (crc_bit ^^ (8 + 8)) (c XOR (ucast x XOR push_bit 8 (ucast y)))"
    by (simp only: funpow_add o_apply xor.assoc)
  finally show ?thesis by (simp only: crc16_ansi_step crc16_ansi.simps(1)) simp
qed

lemma two_bytes_inj:
  "(ucast x XOR push_bit 8 (ucast y) :: u16) = ucast x' XOR push_bit 8 (ucast y') \<longleftrightarrow> x = (x' :: u8) \<and> y = (y' :: u8)"
proof
  assume eq: "(ucast x XOR push_bit 8 (ucast y) :: u16) = ucast x' XOR push_bit 8 (ucast y')"
  have part: "(ucast (ucast x XOR push_bit 8 (ucast y) :: u16) :: u8) = x"
    "(ucast (drop_bit 8 (ucast x XOR push_bit 8 (ucast y) :: u16)) :: u8) = y" for x y :: u8
    by (rule bit_word_eqI; simp add: bit_simps)+
  show "x = x' \<and> y = y'" using part [of x y] part [of x' y'] eq by simp
qed simp

lemma crc16_adjacent:
  "crc16_ansi crc (pre @ [x, y] @ post) = crc16_ansi crc (pre @ [x', y'] @ post) \<longleftrightarrow> x = x' \<and> y = y'"
proof -
  have "crc16_ansi c [x, y] = crc16_ansi c [x', y'] \<longleftrightarrow> x = x' \<and> y = y'" for c
    unfolding crc16_ansi_two crc_bits_inj two_bytes_inj [symmetric]
    by (simp only: xor_right_cancel xor.commute [of c])
  then show ?thesis
    by (simp only: crc16_ansi_append crc16_ansi_inj)
qed

text \<open>Evaluation of the checksum of concrete bytes.\<close>

lemmas crc_eval = crc16_ansi_step crc_byte_code crc_bit_def

section \<open>Properties\<close>

text \<open>C35. The table driven loop computes the bit serial CRC-16 with polynomial \<^verbatim>\<open>0xA001\<close>, for
  every start value and every byte sequence.\<close>

theorem crc16_ansi_correct: "crc16_ansi crc data = crc_spec crc data"
  by (induction crc data rule: crc_spec.induct)
    (simp_all only: crc16_ansi_step crc16_ansi.simps(1) crc_spec.simps crc_byte_def)

text \<open>The checksum detects every corruption that is confined to two adjacent bytes (so every
  burst of at most nine bits, and every single changed byte), wherever in a message of any
  length the two bytes lie.\<close>

theorem crc16_detects_adjacent_bytes:
  "crc16_ansi crc (pre @ [x, y] @ post) = crc16_ansi crc (pre @ [x', y'] @ post) \<longleftrightarrow> x = x' \<and> y = y'"
  by (rule crc16_adjacent)

end
