(* ===== verification/Tf_Packet.thy ===== *)
theory Tf_Packet
  imports Tf_Handle Crc16
begin

text \<open>
  The packets of \<^verbatim>\<open>tf_io.c\<close>: the packet buffer \<^verbatim>\<open>tf_packet_t\<close> as raw memory of 65536 bytes, the
  functions that start, fill and finish a request, and the packet trace. The buffer has the
  layout of the C structure: \<^verbatim>\<open>length\<close> at offset 0 (in host order until the packet is finished),
  \<^verbatim>\<open>crc\<close> at 2, \<^verbatim>\<open>cmd\<close> at 4, \<^verbatim>\<open>data\<close> at 8, and the dummy byte at 65535. Writing past the buffer is
  \<open>None\<close>.
\<close>

section \<open>Definitions\<close>

abbreviation (input) MAXIMUM_PACKET_SIZE :: nat where "MAXIMUM_PACKET_SIZE \<equiv> 0xFFFF"
abbreviation (input) PACKET_HEAD_SIZE :: nat where "PACKET_HEAD_SIZE \<equiv> 8"
abbreviation (input) sizeof_packet :: nat where "sizeof_packet \<equiv> 65536"

abbreviation (input) TF_MSG_FAIL :: u32 where "TF_MSG_FAIL \<equiv> 0x0001"
abbreviation (input) TF_MSG_SUCCESS :: u32 where "TF_MSG_SUCCESS \<equiv> 0x0002"
abbreviation (input) TF_MSG_CANCEL :: u32 where "TF_MSG_CANCEL \<equiv> 0x0003"
abbreviation (input) TF_MSG_READY :: u32 where "TF_MSG_READY \<equiv> 0x0100"
abbreviation (input) TF_MSG_RESET :: u32 where "TF_MSG_RESET \<equiv> 0x0101"
abbreviation (input) TF_MSG_TURBO :: u32 where "TF_MSG_TURBO \<equiv> 0x0102"
abbreviation (input) TF_MSG_HDD_SIZE :: u32 where "TF_MSG_HDD_SIZE \<equiv> 0x1000"
abbreviation (input) TF_MSG_HDD_SIZE_RESULT :: u32 where "TF_MSG_HDD_SIZE_RESULT \<equiv> 0x1001"
abbreviation (input) TF_MSG_HDD_DIR :: u32 where "TF_MSG_HDD_DIR \<equiv> 0x1002"
abbreviation (input) TF_MSG_HDD_DIRENT :: u32 where "TF_MSG_HDD_DIRENT \<equiv> 0x1003"
abbreviation (input) TF_MSG_HDD_DIREND :: u32 where "TF_MSG_HDD_DIREND \<equiv> 0x1004"
abbreviation (input) TF_MSG_HDD_DELETE :: u32 where "TF_MSG_HDD_DELETE \<equiv> 0x1005"
abbreviation (input) TF_MSG_HDD_RENAME :: u32 where "TF_MSG_HDD_RENAME \<equiv> 0x1006"
abbreviation (input) TF_MSG_HDD_MKDIR :: u32 where "TF_MSG_HDD_MKDIR \<equiv> 0x1007"
abbreviation (input) TF_MSG_HDD_FILE_SEND :: u32 where "TF_MSG_HDD_FILE_SEND \<equiv> 0x1008"
abbreviation (input) TF_MSG_HDD_FILE_START :: u32 where "TF_MSG_HDD_FILE_START \<equiv> 0x1009"
abbreviation (input) TF_MSG_HDD_FILE_DATA :: u32 where "TF_MSG_HDD_FILE_DATA \<equiv> 0x100A"
abbreviation (input) TF_MSG_HDD_FILE_END :: u32 where "TF_MSG_HDD_FILE_END \<equiv> 0x100B"

definition tf_command_name :: "u32 \<Rightarrow> string" where
  "tf_command_name cmd =
     (if cmd = TF_MSG_FAIL then ''FAIL''
      else if cmd = TF_MSG_SUCCESS then ''SUCCESS''
      else if cmd = TF_MSG_CANCEL then ''CANCEL''
      else if cmd = TF_MSG_READY then ''READY''
      else if cmd = TF_MSG_RESET then ''RESET''
      else if cmd = TF_MSG_TURBO then ''TURBO''
      else if cmd = TF_MSG_HDD_SIZE then ''SIZE''
      else if cmd = TF_MSG_HDD_SIZE_RESULT then ''SIZE_RESULT''
      else if cmd = TF_MSG_HDD_DIR then ''DIR''
      else if cmd = TF_MSG_HDD_DIRENT then ''DIRENT''
      else if cmd = TF_MSG_HDD_DIREND then ''DIREND''
      else if cmd = TF_MSG_HDD_DELETE then ''DELETE''
      else if cmd = TF_MSG_HDD_RENAME then ''RENAME''
      else if cmd = TF_MSG_HDD_MKDIR then ''MKDIR''
      else if cmd = TF_MSG_HDD_FILE_SEND then ''FILE_SEND''
      else if cmd = TF_MSG_HDD_FILE_START then ''FILE_START''
      else if cmd = TF_MSG_HDD_FILE_DATA then ''FILE_DATA''
      else if cmd = TF_MSG_HDD_FILE_END then ''FILE_END''
      else ''UNKNOWN('' @ fmt_hex True 4 (unat cmd) @ '')'')"

definition print_packet ::
  "'w os \<Rightarrow> stream option \<Rightarrow> string \<Rightarrow> int \<Rightarrow> mem \<Rightarrow> 'w sys \<Rightarrow> 'w sys" where
  "print_packet os fh prefix level packet s =
     (case fh of
        None \<Rightarrow> s
      | Some fh \<Rightarrow>
          if level > 0 then
            let len = unat (get_u16 packet 0);
                crc = get_u16 packet 2;
                cmd = get_u32 packet 4;
                num = (if level = 1 then min 64 (len - 8) else len - 8)
            in fprint fh (''('' @ fmt_int (os_time os (world s)) @ '') '' @ prefix @ '': cmd='' @ tf_command_name cmd
                 @ ''(0x'' @ fmt_hex True 4 (unat cmd) @ ''), len='' @ fmt_int (int len)
                 @ '', crc=0x'' @ fmt_hex True 4 (unat crc)
                 @ fmt_bytes (bytes_at packet PACKET_HEAD_SIZE num) @ newline) s
          else s)"

text \<open>
  The routines that read or change a packet run over a stretch of its buffer that they are given;
  where it leaves the 65536 bytes, the call is undefined. The size of the checksum is a
  \<^verbatim>\<open>size_t\<close>, so a negative \<^verbatim>\<open>int\<close> becomes huge. The trace reads the header and the bytes it prints.
\<close>

definition size_t :: "int \<Rightarrow> nat" where
  "size_t i = nat (i mod 2 ^ 64)"

definition swap_packet :: "mem \<Rightarrow> nat \<Rightarrow> mem option" where
  "swap_packet packet count = (if count \<le> sizeof_packet then Some (byte_swap packet count) else None)"

definition crc_packet :: "mem \<Rightarrow> nat \<Rightarrow> nat \<Rightarrow> u16 option" where
  "crc_packet packet a n = (if a + n \<le> sizeof_packet then Some (crc16_ansi 0 (bytes_at packet a n)) else None)"

definition traced_bytes :: "int \<Rightarrow> mem \<Rightarrow> nat" where
  "traced_bytes level packet =
     (let len = unat (get_u16 packet 0) in PACKET_HEAD_SIZE + (if level = 1 then min 64 (len - 8) else len - 8))"

definition trace_packet ::
  "'w os \<Rightarrow> stream option \<Rightarrow> string \<Rightarrow> int \<Rightarrow> mem \<Rightarrow> 'w sys \<Rightarrow> 'w sys option" where
  "trace_packet os fh prefix level packet s =
     (if fh \<noteq> None \<and> level > 0 \<and> traced_bytes level packet > sizeof_packet then None
      else Some (print_packet os fh prefix level packet s))"

definition tf_req_init :: "mem \<Rightarrow> u32 \<Rightarrow> mem" where
  "tf_req_init req cmd =
     (let req = set_host_u16 req 0 8;
          req = set_host_u16 req 2 0;
          req = put_u32 req 4 cmd
      in req(65535 := 0))"

definition tf_req_done :: "'w os \<Rightarrow> tf_handle \<Rightarrow> mem \<Rightarrow> 'w sys \<Rightarrow> (mem \<times> 'w sys) option" where
  "tf_req_done os tf req s =
     (let len = host_u16 req 0;
          req = put_u16 req 0 len;
          n = unat len
      in do {
        crc \<leftarrow> crc_packet req 4 (size_t (int n - 4));
        let req = put_u16 req 2 crc;
        s \<leftarrow> trace_packet os (tracefh tf) ''>>'' (trace_level tf) req s;
        let pad = (if n mod 2 = 1 then 1 else 0);
        let req = (if n mod 2 = 1 then req(n := 0) else req);
        req \<leftarrow> swap_packet req (n + pad);
        Some (req, s)
      })"

definition tf_req_put8 :: "mem \<Rightarrow> u8 \<Rightarrow> mem option" where
  "tf_req_put8 req value =
     (let a = unat (host_u16 req 0)
      in if a + 1 \<le> sizeof_packet
         then let b = req(a := value) in Some (set_host_u16 b 0 (host_u16 b 0 + 1))
         else None)"

definition tf_req_put16 :: "mem \<Rightarrow> u16 \<Rightarrow> mem option" where
  "tf_req_put16 req value =
     (let a = unat (host_u16 req 0)
      in if a + 2 \<le> sizeof_packet
         then let b = put_u16 req a value in Some (set_host_u16 b 0 (host_u16 b 0 + 2))
         else None)"

definition tf_req_put32 :: "mem \<Rightarrow> u32 \<Rightarrow> mem option" where
  "tf_req_put32 req value =
     (let a = unat (host_u16 req 0)
      in if a + 4 \<le> sizeof_packet
         then let b = put_u32 req a value in Some (set_host_u16 b 0 (host_u16 b 0 + 4))
         else None)"

definition tf_req_put64 :: "mem \<Rightarrow> u64 \<Rightarrow> mem option" where
  "tf_req_put64 req value =
     (let a = unat (host_u16 req 0)
      in if a + 8 \<le> sizeof_packet
         then let b = put_u64 req a value in Some (set_host_u16 b 0 (host_u16 b 0 + 8))
         else None)"

definition tf_req_putdata :: "mem \<Rightarrow> u8 list \<Rightarrow> mem option" where
  "tf_req_putdata req data =
     (let a = unat (host_u16 req 0)
      in if a + length data \<le> sizeof_packet
         then let b = store req a data in Some (set_host_u16 b 0 (host_u16 b 0 + of_nat (length data)))
         else None)"

text \<open>The loop over the characters of a file name, terminator included.\<close>

definition wire_char :: "char \<Rightarrow> u8" where
  "wire_char c = (if c = CHR ''/'' then of_char (CHR 0x5C) else of_char c)"

fun tf_req_putchars :: "mem \<Rightarrow> string \<Rightarrow> mem option" where
  "tf_req_putchars req [] = Some req"
| "tf_req_putchars req (c # str) = do {
     req \<leftarrow> tf_req_put8 req (wire_char c);
     tf_req_putchars req str
   }"

definition tf_req_putfilename :: "mem \<Rightarrow> string \<Rightarrow> bool \<Rightarrow> mem option" where
  "tf_req_putfilename req str addlength =
     (let len = length str + 1;
          pad = (if odd (len + unat (host_u16 req 0)) then 1 else 0 :: nat)
      in do {
        req \<leftarrow> (if addlength then tf_req_put16 req (of_nat (len + pad)) else Some req);
        req \<leftarrow> tf_req_putchars req (str @ [CHR 0x00]);
        (if pad = 1 then tf_req_put8 req 0 else Some req)
      })"

text \<open>
  Specification. A frame is the length, the checksum of everything after it, the command and
  the payload, all big endian; on the wire it is padded to an even length and byte swapped.
  \<open>building m cmd p\<close>: the buffer holds an unfinished request with this command and payload.
\<close>

definition frame :: "u32 \<Rightarrow> u8 list \<Rightarrow> u8 list" where
  "frame cmd payload = be16 (of_nat (8 + length payload))
     @ be16 (crc16_ansi 0 (be32 cmd @ payload)) @ be32 cmd @ payload"

definition wire :: "u32 \<Rightarrow> u8 list \<Rightarrow> u8 list" where
  "wire cmd payload = swap_pairs (frame cmd payload @ (if odd (length payload) then [0] else []))"

definition building :: "mem \<Rightarrow> u32 \<Rightarrow> u8 list \<Rightarrow> bool" where
  "building m cmd payload \<longleftrightarrow> 8 + length payload \<le> 65535
     \<and> host_u16 m 0 = of_nat (8 + length payload)
     \<and> bytes_at m 4 4 = be32 cmd \<and> bytes_at m 8 (length payload) = payload"

definition enc_filename :: "nat \<Rightarrow> string \<Rightarrow> bool \<Rightarrow> u8 list" where
  "enc_filename pos str addlength =
     (let pad = (if odd (length str + 1 + pos) then [0] else [])
      in (if addlength then be16 (of_nat (length str + 1 + length pad)) else [])
         @ map wire_char str @ [0] @ pad)"

section \<open>Building a request\<close>

lemma length_frame [simp]: "length (frame cmd p) = 8 + length p"
  by (simp add: frame_def)

lemma length_wire: "length (wire cmd p) = 8 + length p + length p mod 2"
  by (simp add: wire_def mod2_eq_if)

lemma building_init: "building (tf_req_init junk cmd) cmd []"
proof -
  have "host_u16 (tf_req_init junk cmd) 0 = host_u16 (set_host_u16 junk 0 8) 0"
    by (rule host_u16_cong) (simp_all add: tf_req_init_def Let_def put_u32_store store_other set_host_u16_other)
  moreover have "bytes_at (tf_req_init junk cmd) 4 4 = bytes_at (put_u32 (set_host_u16 (set_host_u16 junk 0 8) 2 0) 4 cmd) 4 4"
    by (rule bytes_at_cong) (simp add: tf_req_init_def Let_def)
  ultimately show ?thesis
    by (simp add: building_def host_u16_set field_u32.bytes_at_put)
qed

lemma building_length: "building m cmd p \<Longrightarrow> unat (host_u16 m 0) = 8 + length p"
  by (simp add: building_def unat_of_nat16 del: of_nat_add of_nat_Suc)

text \<open>Writing bytes behind the payload and adding their number to the length.\<close>

definition append_bytes :: "mem \<Rightarrow> u8 list \<Rightarrow> mem" where
  "append_bytes m bs = (let b = store m (unat (host_u16 m 0)) bs
     in set_host_u16 b 0 (host_u16 b 0 + of_nat (length bs)))"

lemma building_append:
  assumes b: "building m cmd p" and fits: "8 + length p + length bs \<le> 65535"
  shows "building (append_bytes m bs) cmd (p @ bs)"
proof -
  note n = building_length [OF b]
  have "host_u16 (append_bytes m bs) 0 = host_u16 m 0 + of_nat (length bs)"
    by (simp add: append_bytes_def n Let_def host_u16_set host_u16_store_other)
  moreover have "bytes_at (append_bytes m bs) 4 4 = bytes_at m 4 4"
    by (simp add: append_bytes_def n Let_def bytes_at_set_host_u16_other bytes_at_store_other)
  moreover have "bytes_at (append_bytes m bs) 8 (length p + length bs) = bytes_at m 8 (length p) @ bs"
    by (simp add: append_bytes_def n Let_def bytes_at_append bytes_at_set_host_u16_other
        bytes_at_store_other bytes_at_store_same)
  ultimately show ?thesis
    using b fits by (simp add: building_def add.assoc)
qed

text \<open>
  The contract of the functions that add a field: when the encoding still fits, the request
  grows by it. The rule for sequences follows once for all of them.
\<close>

locale request_field =
  fixes put :: "mem \<Rightarrow> 'v \<Rightarrow> mem option" and enc :: "'v \<Rightarrow> u8 list"
  assumes put_append: "unat (host_u16 m 0) + length (enc v) \<le> sizeof_packet \<Longrightarrow> put m v = Some (append_bytes m (enc v))"
    and put_overflow: "sizeof_packet < unat (host_u16 m 0) + length (enc v) \<Longrightarrow> put m v = None"
begin

lemma put_building:
  assumes "building m cmd p" and "8 + length p + length (enc v) \<le> 65535"
  shows "\<exists>m'. put m v = Some m' \<and> building m' cmd (p @ enc v)"
  using put_append [of m v] building_append [OF assms] building_length [OF assms(1)] assms(2) by simp

lemma put_beyond:
  assumes "building m cmd p" and "8 + length p + length (enc v) \<le> 65535" and "put m v = Some m'"
    and "8 + length p + length (enc v) \<le> i"
  shows "m' i = m i"
  using assms put_append [of m v] building_length [OF assms(1)]
  by (auto simp: append_bytes_def Let_def set_host_u16_other store_other)

end

interpretation put8: request_field tf_req_put8 "\<lambda>v. [v]"
  by unfold_locales (simp_all add: tf_req_put8_def append_bytes_def Let_def store_Cons)

interpretation put16: request_field tf_req_put16 be16
  by unfold_locales (simp_all add: tf_req_put16_def append_bytes_def Let_def put_u16_store)

interpretation put32: request_field tf_req_put32 be32
  by unfold_locales (simp_all add: tf_req_put32_def append_bytes_def Let_def put_u32_store)

interpretation put64: request_field tf_req_put64 be64
  by unfold_locales (simp_all add: tf_req_put64_def append_bytes_def Let_def put_u64_store)

interpretation putdata: request_field tf_req_putdata "\<lambda>bs. bs"
  by unfold_locales (simp_all add: tf_req_putdata_def append_bytes_def Let_def)

lemma putchars_building:
  "building m cmd p \<Longrightarrow> 8 + length p + length str \<le> 65535 \<Longrightarrow>
     \<exists>m'. tf_req_putchars m str = Some m' \<and> building m' cmd (p @ map wire_char str)"
proof (induction str arbitrary: m p)
  case (Cons c str)
  then obtain m1 where "tf_req_put8 m (wire_char c) = Some m1" and "building m1 cmd (p @ [wire_char c])"
    using put8.put_building [of m cmd p "wire_char c"] by auto
  with Cons.IH [of m1 "p @ [wire_char c]"] Cons.prems(2) show ?case by simp
qed simp

lemma wire_char_0 [simp]: "wire_char (CHR 0x00) = 0"
  by (simp add: wire_char_def)

lemma putfilename_building:
  assumes b: "building m cmd p" and fits: "8 + length p + length (enc_filename (length p) str al) \<le> 65535"
  shows "\<exists>m'. tf_req_putfilename m str al = Some m' \<and> building m' cmd (p @ enc_filename (length p) str al)"
proof -
  define pad where "pad = (if odd (length str + 1 + length p) then 1 else 0 :: nat)"
  let ?len = "if al then be16 (of_nat (length str + 1 + pad)) else []"
  have enc: "enc_filename (length p) str al = ?len @ map wire_char (str @ [CHR 0x00]) @ replicate pad 0"
    by (simp add: enc_filename_def pad_def)
  have odd: "odd (length str + 1 + unat (host_u16 m 0)) = odd (length str + 1 + length p)"
    by (simp add: building_length [OF b])
  obtain m1 where m1: "(if al then tf_req_put16 m (of_nat (length str + 1 + pad)) else Some m) = Some m1"
    and b1: "building m1 cmd (p @ ?len)"
    using put16.put_building [OF b, of "of_nat (length str + 1 + pad)"] b fits enc by (cases al) auto
  have fits2: "8 + length (p @ ?len) + length (str @ [CHR 0x00]) + pad \<le> 65535"
    using fits unfolding enc by simp
  obtain m2 where m2: "tf_req_putchars m1 (str @ [CHR 0x00]) = Some m2"
    and b2: "building m2 cmd (p @ ?len @ map wire_char (str @ [CHR 0x00]))"
    using putchars_building [OF b1, of "str @ [CHR 0x00]"] fits2 by auto
  have "\<exists>m3. (if pad = 1 then tf_req_put8 m2 0 else Some m2) = Some m3
      \<and> building m3 cmd (p @ ?len @ map wire_char (str @ [CHR 0x00]) @ replicate pad 0)"
    using put8.put_building [OF b2, of 0] b2 fits2 by (auto simp: pad_def)
  then show ?thesis
    unfolding tf_req_putfilename_def Let_def odd pad_def [symmetric] enc using m1 m2 by simp
qed

lemma enc_filename_parity: "even (length (enc_filename pos str al) + pos)"
  by (auto simp: enc_filename_def)

lemma length_enc_filename:
  "length (enc_filename pos str al) = (if al then 2 else 0) + length str + 1 + (length str + 1 + pos) mod 2"
  by (auto simp: enc_filename_def mod2_eq_if)

lemma init_beyond: "8 \<le> i \<Longrightarrow> tf_req_init junk cmd i = (if i = 65535 then 0 else junk i)"
  by (simp add: tf_req_init_def Let_def put_u32_store store_other set_host_u16_other)

text \<open>Behind the name the buffer stays as it was.\<close>

lemma putchars_beyond:
  "building m cmd p \<Longrightarrow> 8 + length p + length str \<le> i \<Longrightarrow> i < 65536 \<Longrightarrow> tf_req_putchars m str = Some m' \<Longrightarrow> m' i = m i"
proof (induction str arbitrary: m p)
  case (Cons c str)
  have fits: "8 + length p + length [wire_char c] \<le> 65535" using Cons.prems(2,3) by simp
  obtain m1 where m1: "tf_req_put8 m (wire_char c) = Some m1" and b1: "building m1 cmd (p @ [wire_char c])"
    using put8.put_building [OF Cons.prems(1) fits] by blast
  have "m1 i = m i" using put8.put_beyond [OF Cons.prems(1) fits m1, of i] Cons.prems(2) by simp
  moreover have "m' i = m1 i" using Cons.IH [OF b1] Cons.prems(2-4) m1 by simp
  ultimately show ?case by simp
qed simp

lemma putfilename_beyond:
  assumes b: "building m cmd p" and fits: "8 + length p + length (enc_filename (length p) str al) \<le> i" and i: "i < 65536"
    and run: "tf_req_putfilename m str al = Some m'"
  shows "m' i = m i"
proof -
  define pad where "pad = (if odd (length str + 1 + length p) then 1 else 0 :: nat)"
  let ?len = "if al then be16 (of_nat (length str + 1 + pad)) else []"
  have size: "8 + length p + length ?len + (length str + 1) + pad \<le> i"
    using fits by (cases "odd (length str + 1 + length p)")
      (auto simp: length_enc_filename pad_def mod2_eq_if split: if_splits)
  have odd: "odd (length str + 1 + unat (host_u16 m 0)) = odd (length str + 1 + length p)"
    by (simp add: building_length [OF b])
  obtain m1 m2 where m1: "(if al then tf_req_put16 m (of_nat (length str + 1 + pad)) else Some m) = Some m1"
    and m2: "tf_req_putchars m1 (str @ [CHR 0x00]) = Some m2"
    and m3: "(if pad = 1 then tf_req_put8 m2 0 else Some m2) = Some m'"
    using run unfolding tf_req_putfilename_def Let_def odd pad_def [symmetric] by (auto split: Option.bind_splits)
  have b1: "building m1 cmd (p @ ?len)" and "m1 i = m i"
    using put16.put_building [OF b, of "of_nat (length str + 1 + pad)"] put16.put_beyond [OF b _ _, of "of_nat (length str + 1 + pad)" m1 i]
      m1 b size i by (auto split: if_splits)
  moreover have "m2 i = m1 i" using putchars_beyond [OF b1 _ i m2] size by simp
  moreover obtain m2' where "tf_req_putchars m1 (str @ [CHR 0x00]) = Some m2'"
      and "building m2' cmd ((p @ ?len) @ map wire_char (str @ [CHR 0x00]))"
    using putchars_building [OF b1, of "str @ [CHR 0x00]"] size i by auto
  with m2 have b2: "building m2 cmd ((p @ ?len) @ map wire_char (str @ [CHR 0x00]))" by simp
  have "m' i = m2 i"
    using m3 put8.put_beyond [OF b2, of 0 m' i] size i by (auto split: if_splits)
  ultimately show ?thesis by simp
qed

lemma enc_filename_le: "length (enc_filename pos str al) \<le> length str + 4"
  by (auto simp: enc_filename_def)

text \<open>Finishing a request: the bytes of the buffer up to the even length are the wire form.\<close>

lemma print_packet_world [simp]: "world (print_packet os fh prefix level m s) = world s"
  by (simp add: print_packet_def fprint_def Let_def split: option.splits)

text \<open>Inside the buffer: an even length that fits into 16 bits and a trace of any level always are,
  a checksum unless the length is below four.\<close>

lemma size_t_diff: "size_t (int n - 4) = (if 4 \<le> n then n - 4 else 2 ^ 64 + n - 4)" if "n < 65536"
proof (cases "4 \<le> n")
  case True
  then have "(int n - 4) mod 2 ^ 64 = int n - 4" using that by (intro mod_pos_pos_trivial) auto
  with True show ?thesis by (simp add: size_t_def)
next
  case False
  have "(int n - 4) mod 2 ^ 64 = (int n - 4 + 2 ^ 64) mod 2 ^ 64" by (rule mod_add_self2 [symmetric])
  also have "\<dots> = int n - 4 + 2 ^ 64" using False by (intro mod_pos_pos_trivial) auto
  finally show ?thesis using False by (simp add: size_t_def)
qed

lemma crc_packet_len:
  "n < 65536 \<Longrightarrow> crc_packet m 4 (size_t (int n - 4)) = (if 4 \<le> n then Some (crc16_ansi 0 (bytes_at m 4 (n - 4))) else None)"
  by (auto simp: crc_packet_def size_t_diff)

lemma swap_packet_len: "n < 65536 \<Longrightarrow> swap_packet m (n + n mod 2) = Some (byte_swap m (n + n mod 2))"
  by (cases "n = 65535") (simp_all add: swap_packet_def)

lemma trace_packet_eq [simp]: "trace_packet os fh prefix level m s = Some (print_packet os fh prefix level m s)"
proof -
  have "unat (get_u16 m 0) - 8 \<le> 65528" using unat_lt_65536 [of "get_u16 m 0"] by linarith
  then have "traced_bytes level m \<le> sizeof_packet" unfolding traced_bytes_def Let_def by auto
  then show ?thesis by (simp add: trace_packet_def)
qed

lemma req_done_eq:
  "tf_req_done os tf req s =
     (let len = host_u16 req 0;
          req = put_u16 req 0 len;
          n = unat len
      in if n < 4 then None
         else let req = put_u16 req 2 (crc16_ansi 0 (bytes_at req 4 (n - 4)));
                  s = print_packet os (tracefh tf) ''>>'' (trace_level tf) req s;
                  pad = (if n mod 2 = 1 then 1 else 0);
                  req = (if n mod 2 = 1 then req(n := 0) else req)
              in Some (byte_swap req (n + pad), s))"
proof -
  define n where "n = unat (host_u16 req 0)"
  have "n < 65536" unfolding n_def by (rule unat_lt_65536)
  note in_buffer = crc_packet_len [OF this] swap_packet_len [OF this]
  show ?thesis
    unfolding tf_req_done_def Let_def n_def [symmetric]
    using in_buffer by (cases "n mod 2 = 1") simp_all
qed

lemma header_filled:
  assumes b: "building m cmd p" and n: "n = 8 + length p" and m1: "m1 = put_u16 m 0 (of_nat n)"
    and m2: "m2 = put_u16 m1 2 (crc16_ansi 0 (bytes_at m1 4 (n - 4)))"
  shows "bytes_at m2 0 n = frame cmd p"
proof -
  have same: "bytes_at m1 a k = bytes_at m a k" if "2 \<le> a" for a k
    using that by (simp add: m1 put_u16_store bytes_at_store_other)
  have "n - 4 = 4 + length p" by (simp add: n)
  with b have body: "bytes_at m1 4 (n - 4) = be32 cmd @ p"
    by (simp add: same bytes_at_append building_def)
  have "bytes_at m2 0 n = bytes_at m2 0 2 @ bytes_at m2 2 2 @ bytes_at m2 4 (n - 4)"
    using bytes_at_append [of m2 0 2 "n - 2", unfolded add_0] bytes_at_append [of m2 2 2 "n - 4"] by (simp add: n)
  moreover have "bytes_at m2 0 2 = be16 (of_nat n)"
    by (simp add: m2 m1 put_u16_store bytes_at_store_other bytes_at_store_same)
  moreover have "bytes_at m2 2 2 = be16 (crc16_ansi 0 (be32 cmd @ p))"
    by (simp add: m2 put_u16_store bytes_at_store_same body)
  moreover have "bytes_at m2 4 (n - 4) = bytes_at m1 4 (n - 4)"
    by (simp add: m2 put_u16_store bytes_at_store_other)
  ultimately show ?thesis using body by (simp add: frame_def n)
qed

lemma print_packet_silent: "level \<le> 0 \<Longrightarrow> print_packet os fh prefix level m s = s"
  by (simp add: print_packet_def split: option.splits)

lemma req_done_wire:
  assumes b: "building m cmd p"
  shows "\<exists>m' s'. tf_req_done os tf m s = Some (m', s') \<and> world s' = world s
    \<and> bytes_at m' 0 (length (wire cmd p)) = wire cmd p
    \<and> (\<forall>i. length (wire cmd p) \<le> i \<longrightarrow> m' i = m i)
    \<and> (trace_level tf \<le> 0 \<longrightarrow> s' = s)"
proof -
  define n where "n = 8 + length p"
  define pad where "pad = (if n mod 2 = 1 then 1 else 0 :: nat)"
  define m1 where "m1 = put_u16 m 0 (of_nat n)"
  define m2 where "m2 = put_u16 m1 2 (crc16_ansi 0 (bytes_at m1 4 (n - 4)))"
  define m3 where "m3 = (if n mod 2 = 1 then m2(n := 0) else m2)"
  define s' where "s' = print_packet os (tracefh tf) ''>>'' (trace_level tf) m2 s"
  have len: "host_u16 m 0 = of_nat n" and n4: "\<not> n < 4" and "n < 65536"
    using b by (simp_all add: building_def n_def)
  then have un: "unat (of_nat n :: u16) = n" by (intro unat_of_nat16)
  have run: "tf_req_done os tf m s = Some (byte_swap m3 (n + pad), s')"
    unfolding req_done_eq Let_def len un m1_def [symmetric] m2_def [symmetric] m3_def [symmetric] s'_def pad_def
    using n4 by simp
  have "bytes_at m2 0 n = frame cmd p"
    using b n_def m1_def m2_def by (rule header_filled)
  moreover have "bytes_at m3 0 n = bytes_at m2 0 n"
    by (rule bytes_at_cong) (simp add: m3_def)
  moreover have odd: "n mod 2 = 1 \<longleftrightarrow> odd (length p)"
    unfolding n_def by presburger
  then have "bytes_at m3 n pad = (if odd (length p) then [0] else [])"
    by (simp add: m3_def pad_def bytes_at_Suc)
  ultimately have "bytes_at m3 0 (n + pad) = frame cmd p @ (if odd (length p) then [0] else [])"
    by (simp add: bytes_at_append)
  then have "bytes_at (byte_swap m3 (n + pad)) 0 (n + pad) = wire cmd p"
    by (simp add: byte_swap_bytes wire_def)
  moreover have lw: "n + pad = length (wire cmd p)"
    using odd by (simp add: length_wire n_def pad_def mod2_eq_if)
  moreover have "byte_swap m3 (n + pad) i = m i" if "n + pad \<le> i" for i
    using that by (auto simp: byte_swap_def swab_other m3_def m2_def m1_def pad_def put_u16_store store_other n_def)
  moreover have "world s' = world s" "trace_level tf \<le> 0 \<longrightarrow> s' = s"
    by (simp_all add: s'_def print_packet_silent)
  ultimately show ?thesis
    using run by auto
qed

section \<open>Properties\<close>

text \<open>C34. A file name request is well formed, for every path that a packet can take and every trace
  level: the length prefix and the padding keep the payload even, the finished buffer starts
  with the wire form of the frame, and behind that every byte is still what the buffer held
  before the request was started, but for the last one, which \<^verbatim>\<open>tf_req_init\<close> clears.\<close>

theorem filename_request_wire:
  assumes "length path \<le> (if addlength then 65523 else 65525)"
  shows "\<exists>req req' s'. tf_req_putfilename (tf_req_init junk cmd) path addlength = Some req
    \<and> tf_req_done os tf req s = Some (req', s') \<and> world s' = world s
    \<and> even (length (enc_filename 0 path addlength))
    \<and> bytes_at req' 0 (8 + length (enc_filename 0 path addlength)) = wire cmd (enc_filename 0 path addlength)
    \<and> (\<forall>i < sizeof_packet. 8 + length (enc_filename 0 path addlength) \<le> i \<longrightarrow> req' i = (if i = 65535 then 0 else junk i))"
proof -
  let ?p = "enc_filename 0 path addlength" and ?init = "tf_req_init junk cmd"
  have ev: "even (length ?p)" using enc_filename_parity [of 0 path addlength] by simp
  have fits: "8 + length ?p \<le> 65535" using assms by (auto simp: length_enc_filename split: if_splits)
  then obtain req where req: "tf_req_putfilename ?init path addlength = Some req" and b: "building req cmd ?p"
    using putfilename_building [OF building_init, of path addlength junk cmd] by auto
  have "req i = (if i = 65535 then 0 else junk i)" if "i < sizeof_packet" "8 + length ?p \<le> i" for i
    using putfilename_beyond [OF building_init _ _ req, of i] that by (simp add: init_beyond)
  moreover have "length (wire cmd ?p) = 8 + length ?p" using ev by (simp add: length_wire)
  ultimately show ?thesis using req req_done_wire [OF b, of os tf s] ev by auto
qed

theorem filename_request_wire_witness:
  "wire TF_MSG_HDD_MKDIR (enc_filename 0 ''/DataFiles'' True)
     = swap_pairs (frame TF_MSG_HDD_MKDIR ([0, 12] @ map wire_char ''/DataFiles'' @ [0, 0]))
   \<and> (\<exists>req req' s'. tf_req_putfilename (tf_req_init (\<lambda>i. 7) TF_MSG_HDD_MKDIR) ''/DataFiles'' True = Some req
      \<and> tf_req_done script_os script_handle req (script_sys []) = Some (req', s') \<and> req' 100 = 7)"
  using filename_request_wire [of "''/DataFiles''" True "\<lambda>i. 7" TF_MSG_HDD_MKDIR script_os script_handle "script_sys []"]
  by (force simp: enc_filename_def wire_def be16_def)

end
