(* ===== verification/Tf_Link.thy ===== *)
theory Tf_Link
  imports Tf_Packet
begin

text \<open>
  Sending and receiving packets over an open handle: \<^verbatim>\<open>tf_send\<close>, \<^verbatim>\<open>tf_get_response\<close>,
  \<^verbatim>\<open>tf_cmd\<close>, \<^verbatim>\<open>tf_send_success\<close> and \<^verbatim>\<open>tf_send_fail\<close> of \<^verbatim>\<open>tf_io.c\<close>. An operation returns its C
  result, the handle and the system; \<open>None\<close> is undefined behaviour of the C code (an access
  outside a buffer or through a null pointer).
\<close>

section \<open>Definitions\<close>

text \<open>The number of bytes \<^verbatim>\<open>tf_send\<close> transmits for a finished packet.\<close>

definition send_length :: "mem \<Rightarrow> nat" where
  "send_length req =
     (let len = unat (get_u16_raw req 0);
          pad = (if len mod 64 = 0 then 2 else if len mod 2 \<noteq> 0 then 1 else 0)
      in len + pad)"

definition tf_send :: "'w os \<Rightarrow> tf_handle \<Rightarrow> mem \<Rightarrow> 'w sys \<Rightarrow> int \<times> tf_handle \<times> 'w sys" where
  "tf_send os tf req s =
     (case dev tf of
        Some fd \<Rightarrow>
          let len = send_length req;
              (ret, s) = usb_bulk_write os fd 0x01 (bytes_at req 0 len) (timeout tf) s;
              err = (if ret = int len then TF_ERR_NONE else TF_ERR_IO)
          in (err, tf\<lparr>error := err\<rparr>, s)
      | None \<Rightarrow> (TF_ERR_NOCONN, tf\<lparr>error := TF_ERR_NOCONN\<rparr>, s))"

definition tf_get_response ::
  "'w os \<Rightarrow> tf_handle \<Rightarrow> mem \<Rightarrow> 'w sys \<Rightarrow> (int \<times> mem \<times> tf_handle \<times> 'w sys) option" where
  "tf_get_response os tf reply s =
     (case dev tf of
        None \<Rightarrow> Some (TF_ERR_NOCONN, reply, tf\<lparr>error := TF_ERR_NOCONN\<rparr>, s)
      | Some fd \<Rightarrow>
          let tf = tf\<lparr>error := 0\<rparr>;
              (ret, reply, s) = usb_bulk_read os fd 0x82 reply sizeof_packet (timeout tf) s
          in if ret < int PACKET_HEAD_SIZE
             then Some (TF_ERR_IO, reply, tf\<lparr>error := TF_ERR_IO\<rparr>, s)
             else let len = unat (get_u16_raw reply 0) in
               if ret < int len
               then Some (TF_ERR_IO, reply, tf\<lparr>error := TF_ERR_IO\<rparr>, s)
               else do {
                 reply \<leftarrow> swap_packet reply (len + len mod 2);
                 s \<leftarrow> trace_packet os (tracefh tf) ''<<'' (trace_level tf) reply s;
                 err \<leftarrow> (if nocrc tf = 0 then do {
                     let crc = get_u16 reply 2;
                     calc_crc \<leftarrow> crc_packet reply 4 (size_t (int len - 4));
                     Some (if crc \<noteq> calc_crc then TF_ERR_CRC else 0)
                   } else Some 0);
                 let cmd = get_u32 reply 4;
                 let reply = set_host_u16 reply 0 (of_nat len);
                 let reply = set_host_u32 reply 4 cmd;
                 Some (err, reply, tf\<lparr>error := err\<rparr>, s)
               })"

text \<open>Fields of a received packet, after \<^verbatim>\<open>tf_get_response\<close> has put them in host order.\<close>

abbreviation reply_length :: "mem \<Rightarrow> u16" where "reply_length reply \<equiv> host_u16 reply 0"
abbreviation reply_cmd :: "mem \<Rightarrow> u32" where "reply_cmd reply \<equiv> host_u32 reply 4"

text \<open>The reason of a FAIL packet as the negated \<open>int\<close> that the code returns.\<close>

definition fail_code :: "mem \<Rightarrow> int" where
  "fail_code reply = sint (- get_u32 reply 8)"

definition tf_cmd :: "'w os \<Rightarrow> tf_handle \<Rightarrow> mem \<Rightarrow> 'w sys \<Rightarrow> (int \<times> tf_handle \<times> 'w sys) option" where
  "tf_cmd os tf req s =
     (let (ret, tf, s) = tf_send os tf req s
      in if ret = 0 then do {
           (ret, reply, tf, s) \<leftarrow> tf_get_response os tf (os_junk os ''reply'' (world s)) s;
           (if ret = 0 then
              if reply_cmd reply = TF_MSG_FAIL then
                let ret = fail_code reply in Some (ret, tf\<lparr>error := ret\<rparr>, s)
              else if reply_cmd reply \<noteq> TF_MSG_SUCCESS then
                Some (TF_ERR_UNEXPECTED, tf\<lparr>error := TF_ERR_UNEXPECTED\<rparr>, s)
              else Some (ret, tf, s)
            else Some (ret, tf, s))
         }
         else Some (ret, tf, s))"

definition success_packet :: mem where
  "success_packet i = (if i < 8 then [0x08, 0x00, 0x81, 0xc1, 0x00, 0x00, 0x02, 0x00] ! i else 0)"

definition tf_send_success :: "'w os \<Rightarrow> tf_handle \<Rightarrow> 'w sys \<Rightarrow> (int \<times> tf_handle \<times> 'w sys) option" where
  "tf_send_success os tf s =
     (if trace_level tf > 0 then
        case tracefh tf of
          None \<Rightarrow> None
        | Some fh \<Rightarrow>
            Some (tf_send os tf success_packet
              (fprint fh (''('' @ fmt_int (os_time os (world s)) @ '') >>: cmd=SUCCESS(0x0002), len=8'' @ newline) s))
      else Some (tf_send os tf success_packet s))"

definition tf_send_fail :: "'w os \<Rightarrow> tf_handle \<Rightarrow> int \<Rightarrow> 'w sys \<Rightarrow> (int \<times> tf_handle \<times> 'w sys) option" where
  "tf_send_fail os tf reason s = do {
     req \<leftarrow> tf_req_put32 (tf_req_init (os_junk os ''req'' (world s)) TF_MSG_FAIL) (word_of_int reason);
     (req, s) \<leftarrow> tf_req_done os tf req s;
     Some (tf_send os tf req s)
   }"

section \<open>Sending\<close>

lemma mod_64_le: "(l :: nat) < 65536 \<Longrightarrow> l mod 64 = 0 \<Longrightarrow> l \<le> 65472"
  by (auto elim!: dvdE simp: mod_eq_0_iff_dvd)

lemma send_length_le: "send_length req \<le> sizeof_packet"
proof -
  define l where "l = unat (get_u16_raw req 0)"
  have "l < 65536" by (simp add: l_def)
  with mod_64_le [OF this] show ?thesis
    unfolding send_length_def Let_def l_def [symmetric] by auto
qed

lemma wire_raw_length:
  assumes "bytes_at m 0 (length (wire cmd p)) = wire cmd p" and "8 + length p \<le> 65535"
  shows "unat (get_u16_raw m 0) = 8 + length p"
proof -
  let ?v = "of_nat (8 + length p) :: u16"
  obtain zs where w: "wire cmd p = ucast ?v # ucast (drop_bit 8 ?v) # zs"
    by (simp add: wire_def frame_def be16_def del: of_nat_add)
  then have "m 0 = ucast ?v" "m (0 + 1) = ucast (drop_bit 8 ?v)"
    using assms(1) by (auto simp: bytes_at_Suc)
  then have "get_u16_raw m 0 = ?v"
    unfolding get_u16_raw_bit by (simp only: be16_join)
  then show ?thesis using assms(2) by (simp only: unat_of_nat16)
qed

text \<open>The bytes that \<^verbatim>\<open>tf_send\<close> transmits: the wire form, and two bytes from behind it when its
  length is a multiple of 64.\<close>

definition send_pad :: "mem \<Rightarrow> u8 list \<Rightarrow> u8 list" where
  "send_pad req p = (if (8 + length p) mod 64 = 0 then bytes_at req (8 + length p) 2 else [])"

lemma send_bytes:
  assumes "bytes_at req 0 (length (wire cmd p)) = wire cmd p" and "8 + length p \<le> 65535"
  shows "bytes_at req 0 (send_length req) = wire cmd p @ send_pad req p"
proof -
  have raw: "unat (get_u16_raw req 0) = 8 + length p"
    using assms by (rule wire_raw_length)
  show ?thesis
  proof (cases "(8 + length p) mod 64 = 0")
    case True
    then have "even (length p)" by presburger
    then have "send_length req = length (wire cmd p) + 2" and "length (wire cmd p) = 8 + length p"
      using True by (simp_all add: send_length_def raw Let_def length_wire)
    then show ?thesis
      using assms(1) True by (simp only: bytes_at_append add_0 send_pad_def if_True refl)
  next
    case False
    have "(8 + length p) mod 2 = length p mod 2" by presburger
    with False have "send_length req = length (wire cmd p)"
      unfolding send_length_def raw Let_def length_wire by (auto simp: mod2_eq_if)
    then show ?thesis using assms(1) False by (simp add: send_pad_def)
  qed
qed

lemma tf_send_error:
  "tf_send os tf req s = (ret, tf', s') \<Longrightarrow>
     tf' = tf\<lparr>error := ret\<rparr> \<and> ret \<in> {TF_ERR_NONE, TF_ERR_IO, TF_ERR_NOCONN} \<and> (ret = TF_ERR_NOCONN \<longleftrightarrow> dev tf = None)"
  by (auto simp: tf_send_def Let_def split: option.splits prod.splits if_splits)

lemma tf_send_result:
  assumes "tf_send os tf req s = (ret, tf', s')" and "dev tf = Some fd"
    and "out_pipe os fd (0x01 AND NOT 0x80) got"
    and "bytes_at req 0 (length (wire cmd p)) = wire cmd p" and "8 + length p \<le> 65535"
  shows "ret = 0 \<longleftrightarrow> got (world s') = got (world s) @ wire cmd p @ send_pad req p"
proof -
  obtain n s1 where w: "usb_bulk_write os fd 0x01 (bytes_at req 0 (send_length req)) (timeout tf) s = (n, s1)"
    by fastforce
  with assms(1,2) have "ret = (if n = int (send_length req) then 0 else TF_ERR_IO)" and "s' = s1"
    by (auto simp: tf_send_def Let_def)
  moreover have "bytes_at req 0 (send_length req) = wire cmd p @ send_pad req p"
    using assms(4,5) by (rule send_bytes)
  moreover from this have "send_length req = length (wire cmd p @ send_pad req p)"
    by (metis length_bytes_at)
  ultimately show ?thesis
    using usb_bulk_write_result [OF assms(3) w] by auto
qed

lemma success_packet_wire: "bytes_at success_packet 0 8 = wire TF_MSG_SUCCESS []"
proof -
  have "crc16_ansi 0 [0, 0, 0, 2] = 0xc181"
    by (simp add: crc_eval)
  then show ?thesis
    by (simp add: success_packet_def bytes_at_fields wire_def frame_def be16_def be32_def)
qed

section \<open>Receiving\<close>

text \<open>A buffer starts with a frame exactly if its header fields and checksum are right.\<close>

lemma bytes_at_header:
  "bytes_at M 0 (8 + k) = bytes_at M 0 2 @ bytes_at M 2 2 @ bytes_at M 4 4 @ bytes_at M 8 k"
  using bytes_at_append [of M 0 2 "6 + k", unfolded add_0] bytes_at_append [of M 2 2 "4 + k"]
    bytes_at_append [of M 4 4 k] by simp

lemma frame_iff:
  "bytes_at M 0 (8 + length p) = frame cmd p \<longleftrightarrow>
     get_u16 M 0 = of_nat (8 + length p) \<and> get_u16 M 2 = crc16_ansi 0 (bytes_at M 4 (4 + length p))
     \<and> get_u32 M 4 = cmd \<and> bytes_at M 8 (length p) = p"
proof -
  have "bytes_at M 0 (8 + length p) = frame cmd p \<longleftrightarrow>
      bytes_at M 0 2 = be16 (of_nat (8 + length p))
      \<and> bytes_at M 2 2 = be16 (crc16_ansi 0 (be32 cmd @ p))
      \<and> bytes_at M 4 4 = be32 cmd \<and> bytes_at M 8 (length p) = p"
    unfolding bytes_at_header frame_def by (simp del: of_nat_add)
  moreover have "bytes_at M 4 (4 + length p) = bytes_at M 4 4 @ bytes_at M 8 (length p)"
    by (simp add: bytes_at_append)
  ultimately show ?thesis
    unfolding field_u16.enc_get [symmetric] field_u32.enc_get [symmetric]
    by (auto simp del: of_nat_add dest: field_u16.enc_inj field_u32.enc_inj)
qed

lemma frame_fields:
  assumes "bytes_at M 0 (8 + length p) = frame cmd p"
  shows "get_u16 M 2 = crc16_ansi 0 (bytes_at M 4 (4 + length p))"
    and "get_u32 M 4 = cmd" and "bytes_at M 8 (length p) = p"
  using assms by (simp_all add: frame_iff)

lemma swapped_wire:
  assumes "bytes_at m 0 (length (wire cmd p)) = wire cmd p"
  shows "bytes_at (byte_swap m (length (wire cmd p))) 0 (8 + length p) = frame cmd p"
    and "8 + length p < length (wire cmd p) \<Longrightarrow> byte_swap m (length (wire cmd p)) (8 + length p) = 0"
proof -
  have all: "bytes_at (byte_swap m (length (wire cmd p))) 0 (length (wire cmd p))
      = frame cmd p @ (if odd (length p) then [0] else [])"
    by (simp add: byte_swap_bytes assms) (simp add: wire_def swap_pairs_involution)
  then have "take (8 + length p) (bytes_at (byte_swap m (length (wire cmd p))) 0 (length (wire cmd p))) = frame cmd p"
    by simp
  then show "bytes_at (byte_swap m (length (wire cmd p))) 0 (8 + length p) = frame cmd p"
    by (simp add: take_bytes_at length_wire)
  assume lt: "8 + length p < length (wire cmd p)"
  then have "odd (length p)" by (auto simp: length_wire odd_iff_mod_2_eq_one)
  with bytes_at_eq_nthD [OF all lt] show "byte_swap m (length (wire cmd p)) (8 + length p) = 0"
    by (simp add: nth_append)
qed

text \<open>What \<^verbatim>\<open>tf_get_response\<close> leaves of a swapped buffer.\<close>

definition host_reply :: "mem \<Rightarrow> nat \<Rightarrow> mem" where
  "host_reply M len = set_host_u32 (set_host_u16 M 0 (of_nat len)) 4 (get_u32 M 4)"

lemma host_reply_fields:
  "reply_length (host_reply M len) = of_nat len"
  "reply_cmd (host_reply M len) = get_u32 M 4"
  "8 \<le> a \<Longrightarrow> bytes_at (host_reply M len) a k = bytes_at M a k"
  "8 \<le> a \<Longrightarrow> host_reply M len a = M a"
  by (simp_all add: host_reply_def host_u32_set bytes_at_set_host_u32_other bytes_at_set_host_u16_other
      set_host_u32_other set_host_u16_other)
     (simp add: set_host_u32_def host_u16_store_other host_u16_set)

lemma get_response_eq:
  assumes "dev tf = Some fd"
    and "usb_bulk_read os fd 0x82 reply sizeof_packet (timeout tf) s = (n, m, s1)"
  shows "tf_get_response os tf reply s =
    (let len = unat (get_u16_raw m 0); M = byte_swap m (len + len mod 2);
         s2 = print_packet os (tracefh tf) ''<<'' (trace_level tf) M s1;
         err = (if nocrc tf = 0 \<and> get_u16 M 2 \<noteq> crc16_ansi 0 (bytes_at M 4 (len - 4)) then TF_ERR_CRC else 0)
     in if n < 8 \<or> n < int len then Some (TF_ERR_IO, m, tf\<lparr>error := TF_ERR_IO\<rparr>, s1)
        else if nocrc tf = 0 \<and> len < 4 then None
        else Some (err, host_reply M len, tf\<lparr>error := err\<rparr>, s2))"
proof -
  define len where "len = unat (get_u16_raw m 0)"
  have same: "timeout (tf\<lparr>error := 0\<rparr>) = timeout tf" by simp
  have "len < 65536" unfolding len_def by (rule unat_lt_65536)
  note in_buffer = swap_packet_len [OF this] crc_packet_len [OF this]
  show ?thesis
    unfolding tf_get_response_def assms(1) Let_def option.case same assms(2) prod.case len_def [symmetric]
    by (simp add: in_buffer host_reply_def)
qed

lemma get_response_noconn:
  "dev tf = None \<Longrightarrow> tf_get_response os tf reply s = Some (TF_ERR_NOCONN, reply, tf\<lparr>error := TF_ERR_NOCONN\<rparr>, s)"
  by (simp add: tf_get_response_def)

lemma get_response_error:
  assumes "tf_get_response os tf reply s = Some (ret, m, tf', s')"
  shows "tf' = tf\<lparr>error := ret\<rparr> \<and> ret \<in> {0, TF_ERR_CRC, TF_ERR_IO, TF_ERR_NOCONN}"
proof (cases "dev tf")
  case None
  with assms show ?thesis by (simp add: get_response_noconn)
next
  case (Some fd)
  obtain n m1 s1 where "usb_bulk_read os fd 0x82 reply sizeof_packet (timeout tf) s = (n, m1, s1)"
    by (metis prod_cases3)
  with assms Some show ?thesis
    by (auto simp: get_response_eq Let_def split: if_splits)
qed

lemma get_response_wire:
  assumes "dev tf = Some fd"
    and "usb_bulk_read os fd 0x82 reply sizeof_packet (timeout tf) s = (n, m, s1)"
    and w: "bytes_at m 0 (length (wire cmd p)) = wire cmd p"
    and "8 + length p \<le> 65535" and "int (8 + length p) \<le> n"
  shows "\<exists>m' s'. tf_get_response os tf reply s = Some (0, m', tf\<lparr>error := 0\<rparr>, s') \<and> world s' = world s1
    \<and> (trace_level tf \<le> 0 \<longrightarrow> s' = s1)
    \<and> reply_length m' = of_nat (8 + length p) \<and> reply_cmd m' = cmd \<and> bytes_at m' 8 (length p) = p
    \<and> (\<forall>i. length (wire cmd p) \<le> i \<longrightarrow> m' i = m i)
    \<and> (8 + length p < length (wire cmd p) \<longrightarrow> m' (8 + length p) = 0)"
proof -
  define M where "M = byte_swap m (length (wire cmd p))"
  have raw: "unat (get_u16_raw m 0) = 8 + length p"
    using w assms(4) by (rule wire_raw_length)
  have lw: "8 + length p + (8 + length p) mod 2 = length (wire cmd p)"
    unfolding length_wire by presburger
  note fields = frame_fields [OF swapped_wire(1) [OF w], folded M_def]
  have "8 + length p - 4 = 4 + length p" by simp
  then have "tf_get_response os tf reply s = Some (0, host_reply M (8 + length p), tf\<lparr>error := 0\<rparr>,
      print_packet os (tracefh tf) ''<<'' (trace_level tf) M s1)"
    using assms(5) fields(1) unfolding get_response_eq [OF assms(1,2)] raw Let_def lw M_def [symmetric] by simp
  moreover have "host_reply M (8 + length p) i = m i" if "length (wire cmd p) \<le> i" for i
    using that by (simp add: host_reply_fields length_wire M_def byte_swap_def swab_other)
  moreover have "host_reply M (8 + length p) (8 + length p) = 0" if "8 + length p < length (wire cmd p)"
    using swapped_wire(2) [OF w that] by (simp add: host_reply_fields M_def)
  ultimately show ?thesis
    using fields by (auto simp: host_reply_fields print_packet_silent)
qed

text \<open>
  The exchange of one packet as a predicate: in state \<open>s\<close> the read delivers the wire form of a
  packet and leaves state \<open>s'\<close>; the write of \<open>bs\<close> is complete and leaves \<open>s'\<close>.
\<close>

definition receives :: "'w os \<Rightarrow> int \<Rightarrow> int \<Rightarrow> 'w sys \<Rightarrow> u32 \<Rightarrow> u8 list \<Rightarrow> 'w sys \<Rightarrow> bool" where
  "receives os fd t s cmd p s' \<longleftrightarrow> 8 + length p \<le> 65535 \<and>
     (\<forall>reply. \<exists>m. usb_bulk_read os fd 0x82 reply sizeof_packet t s = (int (length (wire cmd p)), m, s')
        \<and> bytes_at m 0 (length (wire cmd p)) = wire cmd p)"

definition accepts :: "'w os \<Rightarrow> int \<Rightarrow> int \<Rightarrow> 'w sys \<Rightarrow> u8 list \<Rightarrow> 'w sys \<Rightarrow> bool" where
  "accepts os fd t s bs s' \<longleftrightarrow> usb_bulk_write os fd 0x01 bs t s = (int (length bs), s')"

lemma receives_pipe:
  assumes "in_pipe os fd (0x82 OR 0x80) pend" and "pend (world s) = wire cmd p"
    and "8 + length p \<le> 65535" and "length (wire cmd p) mod 16384 \<noteq> 0"
  shows "\<exists>w'. receives os fd t s cmd p (s\<lparr>world := w'\<rparr>)"
proof -
  have "length (wire cmd p) \<le> sizeof_packet"
    using assms(3) mod_less_divisor [of 2 "length p"] unfolding length_wire by linarith
  with assms(4) have lt: "length (wire cmd p) < sizeof_packet"
    by (cases "length (wire cmd p) = sizeof_packet") auto
  with bulk_read_loop_packet [OF assms(1), of "world s" 0 sizeof_packet t] assms(2,4)
  obtain w' where loop: "\<And>m. bulk_read_loop os fd (0x82 OR 0x80) m 0 sizeof_packet t (world s)
      = (length (wire cmd p), store m 0 (wire cmd p), w')"
    by auto
  then have "usb_bulk_read os fd 0x82 reply sizeof_packet t s
      = (int (length (wire cmd p)), store (memset reply 0 sizeof_packet) 0 (wire cmd p), s\<lparr>world := w'\<rparr>)" for reply
    by (simp add: usb_bulk_read_def)
  then have "receives os fd t s cmd p (s\<lparr>world := w'\<rparr>)"
    using assms(3) by (simp add: receives_def bytes_at_store_same)
  then show ?thesis ..
qed

lemma get_response_receives:
  assumes "dev tf = Some fd" and "receives os fd (timeout tf) s cmd p s1"
  shows "\<exists>m' s'. tf_get_response os tf reply s = Some (0, m', tf\<lparr>error := 0\<rparr>, s') \<and> world s' = world s1
    \<and> (trace_level tf \<le> 0 \<longrightarrow> s' = s1)
    \<and> reply_length m' = of_nat (8 + length p) \<and> reply_cmd m' = cmd \<and> bytes_at m' 8 (length p) = p
    \<and> (\<forall>i. 8 + length p \<le> i \<longrightarrow> i < sizeof_packet \<longrightarrow> m' i = 0)"
proof -
  obtain m where read: "usb_bulk_read os fd 0x82 reply sizeof_packet (timeout tf) s
      = (int (length (wire cmd p)), m, s1)"
    and w: "bytes_at m 0 (length (wire cmd p)) = wire cmd p" and "8 + length p \<le> 65535"
    using assms(2) unfolding receives_def by blast
  then have zero: "m i = 0" if "length (wire cmd p) \<le> i" "i < sizeof_packet" for i
    using usb.read_zero [OF read] that by simp
  obtain m' s' where r: "tf_get_response os tf reply s = Some (0, m', tf\<lparr>error := 0\<rparr>, s')" "world s' = world s1"
      "trace_level tf \<le> 0 \<longrightarrow> s' = s1" "reply_length m' = of_nat (8 + length p)" "reply_cmd m' = cmd"
      "bytes_at m' 8 (length p) = p"
    and tail: "\<forall>i. length (wire cmd p) \<le> i \<longrightarrow> m' i = m i"
      "8 + length p < length (wire cmd p) \<longrightarrow> m' (8 + length p) = 0"
    using get_response_wire [OF assms(1) read w \<open>8 + length p \<le> 65535\<close>] by (auto simp: length_wire)
  have "m' i = 0" if i: "8 + length p \<le> i" "i < sizeof_packet" for i
  proof (cases "length (wire cmd p) \<le> i")
    case False
    moreover have "length (wire cmd p) \<le> 9 + length p"
      using mod_less_divisor [of 2 "length p"] unfolding length_wire by linarith
    ultimately have "i = 8 + length p" and "8 + length p < length (wire cmd p)"
      using i by linarith+
    with tail(2) show ?thesis by simp
  qed (use zero i tail(1) in simp)
  with r show ?thesis by blast
qed

text \<open>The reason of a FAIL packet with payload \<open>p\<close>: its first four bytes, zero where it is shorter.\<close>

definition fail_reason :: "u8 list \<Rightarrow> u32" where
  "fail_reason p = get_u32 (store (\<lambda>i. 0) 0 p) 0"

lemma fail_code_reason:
  assumes "bytes_at m 8 (length p) = p" and "\<forall>i. 8 + length p \<le> i \<longrightarrow> i < sizeof_packet \<longrightarrow> m i = 0"
  shows "fail_code m = sint (- fail_reason p)"
proof -
  have "m (8 + i) = (if i < length p then p ! i else 0)" if "i < 4" for i
  proof (cases "i < length p")
    case True
    then show ?thesis using bytes_at_eq_nthD [OF assms(1)] by simp
  next
    case False
    with that assms(2) show ?thesis by simp
  qed
  then have at: "m (8 + i) = store (\<lambda>i. 0) 0 p (0 + i)" if "i < 4" for i
    using that by (simp add: store_def)
  have "get_u32 m 8 = get_u32 (store (\<lambda>i. 0) 0 p) 0"
    using at [of 0] at [of 1] at [of 2] at [of 3] by (simp add: get_u32_def)
  then show ?thesis
    by (simp add: fail_code_def fail_reason_def)
qed

definition cmd_result :: "u32 \<Rightarrow> u8 list \<Rightarrow> int" where
  "cmd_result cmd p = (if cmd = TF_MSG_FAIL then sint (- fail_reason p)
     else if cmd = TF_MSG_SUCCESS then 0 else TF_ERR_UNEXPECTED)"

lemma cmd_result_0_iff:
  "cmd_result cmd q = 0 \<longleftrightarrow> cmd = TF_MSG_SUCCESS \<or> (cmd = TF_MSG_FAIL \<and> fail_reason q = 0)"
  by (simp add: cmd_result_def signed_eq_0_iff)

lemma fail_reason_Nil [simp]: "fail_reason [] = 0"
  by (simp add: fail_reason_def get_u32_def)

lemma tf_send_accepts:
  assumes "dev tf = Some fd" and "accepts os fd (timeout tf) s (wire cmd p @ send_pad req p) s1"
    and "bytes_at req 0 (length (wire cmd p)) = wire cmd p" and "8 + length p \<le> 65535"
  shows "tf_send os tf req s = (0, tf\<lparr>error := 0\<rparr>, s1)"
proof -
  have b: "bytes_at req 0 (send_length req) = wire cmd p @ send_pad req p"
    using assms(3,4) by (rule send_bytes)
  then have "send_length req = length (wire cmd p @ send_pad req p)"
    by (metis length_bytes_at)
  with assms(1,2) b show ?thesis
    unfolding accepts_def tf_send_def by simp
qed

text \<open>One command: the request is delivered, the reply decides the result on every branch.\<close>

lemma tf_cmd_exchange:
  assumes "tf_send os tf req s = (0, tf\<lparr>error := 0\<rparr>, s1)" and "dev tf = Some fd"
    and "receives os fd (timeout tf) s1 cmd p s2"
  shows "\<exists>s'. tf_cmd os tf req s = Some (cmd_result cmd p, tf\<lparr>error := cmd_result cmd p\<rparr>, s')
    \<and> world s' = world s2 \<and> (trace_level tf \<le> 0 \<longrightarrow> s' = s2)"
proof -
  let ?tf = "tf\<lparr>error := 0\<rparr>"
  obtain m s' where r: "tf_get_response os ?tf (os_junk os ''reply'' (world s1)) s1 = Some (0, m, ?tf, s')"
    and w: "world s' = world s2" "trace_level tf \<le> 0 \<longrightarrow> s' = s2"
    and c: "reply_cmd m = cmd" and p: "bytes_at m 8 (length p) = p"
    and z: "\<forall>i. 8 + length p \<le> i \<longrightarrow> i < sizeof_packet \<longrightarrow> m i = 0"
    using get_response_receives [of ?tf fd os s1 cmd p s2 "os_junk os ''reply'' (world s1)"] assms(2,3) by auto
  have "fail_code m = sint (- fail_reason p)"
    using p z by (rule fail_code_reason)
  then show ?thesis
    using assms(1) r w c by (auto simp: tf_cmd_def cmd_result_def Let_def)
qed

section \<open>Properties\<close>

text \<open>C1. A reply that the device sends as the wire form of a command and payload is received
  with result 0: the handle records no error, and the reply buffer holds the command, the
  length and the payload, with zeros behind the payload.\<close>

theorem response_roundtrip:
  assumes "dev tf = Some fd" and "receives os fd (timeout tf) s cmd p s1"
  shows "\<exists>m' s'. tf_get_response os tf reply s = Some (0, m', tf\<lparr>error := 0\<rparr>, s') \<and> world s' = world s1
    \<and> unat (reply_length m') = 8 + length p \<and> reply_cmd m' = cmd \<and> bytes_at m' 8 (length p) = p
    \<and> (\<forall>i. 8 + length p \<le> i \<longrightarrow> i < sizeof_packet \<longrightarrow> m' i = 0)"
proof -
  have "8 + length p < 65536" using assms(2) by (simp add: receives_def)
  from unat_of_nat16 [OF this] get_response_receives [OF assms, of reply] show ?thesis
    by (auto simp del: of_nat_add)
qed

lemma script_receives:
  assumes "8 + length p \<le> 16382"
  shows "\<exists>w'. receives script_os fd t (script_sys (wire cmd p # ps)) cmd p ((script_sys [])\<lparr>world := w'\<rparr>)"
proof -
  have "length (wire cmd p) < 16384" and "0 < length (wire cmd p)"
    using assms mod_less_divisor [of 2 "length p"] unfolding length_wire by linarith+
  then show ?thesis
    using receives_pipe [OF script_in_pipe, of "script_sys (wire cmd p # ps)" cmd p fd t] assms
    by (simp add: script_sys_def)
qed

theorem response_roundtrip_witness:
  "\<exists>m' s'. tf_get_response script_os script_handle (\<lambda>i. 0) (script_sys [wire 0x1001 [0, 1, 2, 3]])
     = Some (0, m', script_handle\<lparr>error := 0\<rparr>, s') \<and> reply_cmd m' = 0x1001
     \<and> bytes_at m' 8 (length [0, 1, 2, 3 :: u8]) = [0, 1, 2, 3]"
proof -
  obtain w' where "receives script_os 3 (timeout script_handle) (script_sys [wire 0x1001 [0, 1, 2, 3]]) 0x1001 [0, 1, 2, 3]
      ((script_sys [])\<lparr>world := w'\<rparr>)"
    using script_receives [where p = "[0, 1, 2, 3]" and fd = 3 and t = "timeout script_handle" and cmd = "0x1001" and ps = "[]"]
    by auto
  from response_roundtrip [OF script_handle_simps(1) this, of "\<lambda>i. 0"] show ?thesis by blast
qed

text \<open>C2. With checksums on, \<^verbatim>\<open>tf_get_response\<close> accepts a buffer whose length field is at least
  the header size exactly if enough bytes were read and they are, swapped back, the frame of
  some command and payload.\<close>

theorem response_accepts_iff_frame:
  assumes "dev tf = Some fd" and "nocrc tf = 0"
    and "usb_bulk_read os fd 0x82 reply sizeof_packet (timeout tf) s = (n, m, s1)"
    and "len = unat (get_u16_raw m 0)" and "8 \<le> len"
  shows "(\<exists>m' tf' s'. tf_get_response os tf reply s = Some (0, m', tf', s')) \<longleftrightarrow>
    int len \<le> n \<and> (\<exists>cmd p. take len (swap_pairs (bytes_at m 0 (len + len mod 2))) = frame cmd p)"
proof -
  define M where "M = byte_swap m (len + len mod 2)"
  have take: "take len (swap_pairs (bytes_at m 0 (len + len mod 2))) = bytes_at M 0 len"
    by (simp add: M_def byte_swap_bytes [symmetric] take_bytes_at)
  have len16: "get_u16 M 0 = of_nat len"
    using assms(4,5) by (simp add: M_def get_u16_swapped)
  have "(\<exists>cmd p. bytes_at M 0 len = frame cmd p) \<longleftrightarrow> get_u16 M 2 = crc16_ansi 0 (bytes_at M 4 (len - 4))"
  proof
    assume "\<exists>cmd p. bytes_at M 0 len = frame cmd p"
    then obtain cmd p where f: "bytes_at M 0 len = frame cmd p" by blast
    then have "len = 8 + length p" by (metis length_bytes_at length_frame)
    with f frame_fields(1) [of M p cmd] show "get_u16 M 2 = crc16_ansi 0 (bytes_at M 4 (len - 4))"
      by simp
  next
    assume crc: "get_u16 M 2 = crc16_ansi 0 (bytes_at M 4 (len - 4))"
    let ?p = "bytes_at M 8 (len - 8)"
    have "8 + length ?p = len" "4 + length ?p = len - 4" using assms(5) by simp_all
    then have "bytes_at M 0 len = frame (get_u32 M 4) ?p"
      using frame_iff [of M ?p "get_u32 M 4"] len16 crc by (simp del: of_nat_add)
    then show "\<exists>cmd p. bytes_at M 0 len = frame cmd p" by blast
  qed
  then show ?thesis
    using assms(2,5) unfolding get_response_eq [OF assms(1,3)] Let_def assms(4) [symmetric] M_def [symmetric] take
    by (auto simp: not_less)
qed

theorem response_accepts_iff_frame_witness:
  "\<exists>n m s1. usb_bulk_read script_os 3 0x82 (\<lambda>i. 0) sizeof_packet 11000 (script_sys [wire 0x1001 [0, 1, 2, 3]]) = (n, m, s1)
    \<and> ((\<exists>m' tf' s'. tf_get_response script_os script_handle (\<lambda>i. 0) (script_sys [wire 0x1001 [0, 1, 2, 3]])
          = Some (0, m', tf', s')) \<longleftrightarrow>
       12 \<le> n \<and> (\<exists>cmd p. take 12 (swap_pairs (bytes_at m 0 12)) = frame cmd p))"
proof -
  obtain w' where "receives script_os 3 11000 (script_sys [wire 0x1001 [0, 1, 2, 3]]) 0x1001 [0, 1, 2, 3]
      ((script_sys [])\<lparr>world := w'\<rparr>)"
    using script_receives [where p = "[0, 1, 2, 3]" and fd = 3 and t = 11000 and cmd = "0x1001" and ps = "[]"] by auto
  then obtain m where read: "usb_bulk_read script_os 3 0x82 (\<lambda>i. 0) sizeof_packet 11000 (script_sys [wire 0x1001 [0, 1, 2, 3]])
        = (int (length (wire 0x1001 [0, 1, 2, 3])), m, (script_sys [])\<lparr>world := w'\<rparr>)"
    and w: "bytes_at m 0 (length (wire 0x1001 [0, 1, 2, 3])) = wire 0x1001 [0, 1, 2, 3]"
    unfolding receives_def by blast
  have "12 = unat (get_u16_raw m 0)"
    using wire_raw_length [OF w] by simp
  note iff = response_accepts_iff_frame [OF script_handle_simps(1,2) read [folded script_handle_simps(3)] this]
  have "(12 :: nat) + 12 mod 2 = 12" by simp
  with iff read show ?thesis by auto
qed

text \<open>C3. With checksums on, a received packet whose checksummed part differs from what the
  sender framed in one byte or in two adjacent bytes is rejected with \<^verbatim>\<open>TF_ERR_CRC\<close>.\<close>

theorem response_detects_corruption:
  assumes "dev tf = Some fd" and "nocrc tf = 0"
    and "usb_bulk_read os fd 0x82 reply sizeof_packet (timeout tf) s = (n, m, s1)"
    and "8 + length p \<le> 65535" and "int (8 + length p) \<le> n"
    and "be32 cmd @ p = pre @ [x, y] @ post" and "\<not> (x = x' \<and> y = y')"
    and "take (8 + length p) (swap_pairs (bytes_at m 0 (8 + length p + length p mod 2)))
      = take 4 (frame cmd p) @ pre @ [x', y'] @ post"
  shows "\<exists>m' s'. tf_get_response os tf reply s = Some (TF_ERR_CRC, m', tf\<lparr>error := TF_ERR_CRC\<rparr>, s')"
proof -
  let ?L = "8 + length p + length p mod 2"
  define M where "M = byte_swap m ?L"
  have len: "length pre + 2 + length post = 4 + length p"
    using arg_cong [OF assms(6), of length] by simp
  have "take (8 + length p) (bytes_at M 0 ?L) = be16 (of_nat (8 + length p)) @ be16 (crc16_ansi 0 (be32 cmd @ p)) @ pre @ [x', y'] @ post"
    using assms(8) by (simp add: M_def byte_swap_bytes frame_def del: of_nat_add)
  moreover have "take (8 + length p) (bytes_at M 0 ?L) = bytes_at M 0 2 @ bytes_at M 2 2 @ bytes_at M 4 (4 + length p)"
    unfolding take_bytes_at [OF le_add1] bytes_at_header by (simp add: bytes_at_append)
  ultimately have M: "bytes_at M 0 2 = be16 (of_nat (8 + length p))"
      "bytes_at M 2 2 = be16 (crc16_ansi 0 (be32 cmd @ p))" "bytes_at M 4 (4 + length p) = pre @ [x', y'] @ post"
    using len by (auto simp: append_eq_append_conv simp del: of_nat_add)
  have "get_u16_raw m 0 = get_u16 M 0" by (simp add: M_def get_u16_swapped)
  also have "\<dots> = of_nat (8 + length p)" using M(1) by (rule get_u16_bytes_at)
  finally have raw: "unat (get_u16_raw m 0) = 8 + length p"
    using assms(4) by (simp only: unat_of_nat16)
  have "get_u16 M 2 = crc16_ansi 0 (pre @ [x, y] @ post)"
    using get_u16_bytes_at [OF M(2)] assms(6) by simp
  then have "get_u16 M 2 \<noteq> crc16_ansi 0 (bytes_at M 4 (4 + length p))"
    using assms(7) unfolding M(3) by (simp only: crc16_adjacent) simp
  moreover have "(8 + length p) mod 2 = length p mod 2" by presburger
  ultimately show ?thesis
    using assms(2,5) unfolding get_response_eq [OF assms(1,3)] raw Let_def M_def by simp
qed

theorem response_detects_corruption_witness:
  "\<exists>m' s'. tf_get_response script_os script_handle (\<lambda>i. 0)
      (script_sys [swap_pairs (take 4 (frame 0x1001 [0, 1, 2, 3]) @ [0, 0, 0x10, 1] @ [0, 1, 2, 7])])
     = Some (TF_ERR_CRC, m', script_handle\<lparr>error := TF_ERR_CRC\<rparr>, s')"
proof -
  let ?good = "take 4 (frame 0x1001 [0, 1, 2, 3])"
  let ?bad = "swap_pairs (?good @ [0, 0, 0x10, 1] @ [0, 1, 2, 7])"
  let ?pend = "\<lambda>w. case inbox w of [] \<Rightarrow> [] | p # ps \<Rightarrow> p"
  have len: "length ?bad = 12" by simp
  obtain m s1 where read: "usb_bulk_read script_os 3 0x82 (\<lambda>i. 0) sizeof_packet 11000 (script_sys [?bad]) = (int 12, m, s1)"
    and m: "bytes_at m 0 sizeof_packet = ?bad @ replicate (sizeof_packet - 12) 0"
    using usb_bulk_read_result [OF script_in_pipe, where s = "script_sys [?bad]" and sz = sizeof_packet
        and fd = 3 and ep = "0x82" and m = "\<lambda>i. 0" and t = 11000] len
    by (auto simp: script_sys_def)
  have "take 12 (bytes_at m 0 sizeof_packet) = ?bad"
    unfolding m by simp
  then have m12: "bytes_at m 0 12 = ?bad" by (simp add: take_bytes_at)
  have body: "be32 0x1001 @ [0, 1, 2, 3] = [0, 0, 0x10, 1, 0, 1] @ [2, 3] @ []"
    by (simp add: be32_def)
  show ?thesis
    by (rule response_detects_corruption [OF script_handle_simps(1,2) read [folded script_handle_simps(3)] _ _ body])
      (simp_all add: m12 swap_pairs_involution)
qed

text \<open>C38. When \<^verbatim>\<open>tf_get_response\<close> leaves the packet buffer of 65536 bytes: the byte swap of the odd
  byte and the trace stay inside it for every length field and trace level, and the checksum does
  unless the device sends at least eight bytes whose length field is below four while checksums are
  on; then it runs over \<^verbatim>\<open>(size_t)(len - 4)\<close> bytes.\<close>

theorem response_undefined_iff:
  "tf_get_response os (tf\<lparr>dev := d\<rparr>) reply s = None \<longleftrightarrow>
    (case d of None \<Rightarrow> False
     | Some fd \<Rightarrow> (case usb_bulk_read os fd 0x82 reply sizeof_packet (timeout tf) s of
         (n, m, s1) \<Rightarrow> 8 \<le> n \<and> unat (get_u16_raw m 0) < 4 \<and> nocrc tf = 0))"
proof (cases d)
  case (Some fd)
  obtain n m s1 where read: "usb_bulk_read os fd 0x82 reply sizeof_packet (timeout tf) s = (n, m, s1)"
    by (metis prod_cases3)
  have d: "dev (tf\<lparr>dev := Some fd\<rparr>) = Some fd" and t: "timeout (tf\<lparr>dev := Some fd\<rparr>) = timeout tf"
    by simp_all
  define l where "l = unat (get_u16_raw m 0)"
  show ?thesis
    unfolding Some option.case read prod.case get_response_eq [OF d read [folded t]] Let_def l_def [symmetric]
    by auto
qed (simp add: get_response_noconn)

text \<open>C4. Sending a finished request: the result is also the handle's error; it is 0 exactly if
  the device received the whole wire form followed by the padding, however the kernel splits
  the transfer.\<close>

theorem send_delivers_wire:
  assumes "out_pipe os fd (0x01 AND NOT 0x80) got" and "dev tf = Some fd"
    and "building req cmd p" and "tf_req_done os tf req s = Some (req', s1)"
    and "tf_send os tf req' s1 = (ret, tf', s2)"
  shows "tf' = tf\<lparr>error := ret\<rparr> \<and> ret \<in> {0, TF_ERR_IO}
    \<and> (ret = 0 \<longleftrightarrow> got (world s2) = got (world s) @ wire cmd p @ send_pad req p)"
proof -
  have len: "8 + length p \<le> 65535" using assms(3) by (simp add: building_def)
  from req_done_wire [OF assms(3), of os tf s] assms(4)
  have w: "world s1 = world s" "bytes_at req' 0 (length (wire cmd p)) = wire cmd p"
    and same: "\<forall>i. length (wire cmd p) \<le> i \<longrightarrow> req' i = req i" by auto
  have "send_pad req' p = send_pad req p"
  proof (cases "(8 + length p) mod 64 = 0")
    case True
    then have "even (length p)" by presburger
    then have "length (wire cmd p) = 8 + length p" by (simp add: length_wire)
    with same True show ?thesis by (simp add: send_pad_def bytes_at_fields)
  qed (simp add: send_pad_def)
  with tf_send_result [OF assms(5,2,1) w(2) len] tf_send_error [OF assms(5)] w(1) assms(2) show ?thesis
    by auto
qed

theorem send_delivers_wire_witness:
  "\<exists>req' ret tf' s2. tf_req_done script_os script_handle (tf_req_init (\<lambda>i. 0) TF_MSG_CANCEL) (script_sys []) = Some (req', script_sys [])
    \<and> tf_send script_os script_handle req' (script_sys []) = (ret, tf', s2)
    \<and> (ret = 0 \<longleftrightarrow> concat (outbox (world s2)) = wire TF_MSG_CANCEL [])"
proof -
  obtain req' where d: "tf_req_done script_os script_handle (tf_req_init (\<lambda>i. 0) TF_MSG_CANCEL) (script_sys [])
      = Some (req', script_sys [])"
    using req_done_wire [OF building_init, of script_os script_handle "\<lambda>i. 0" TF_MSG_CANCEL "script_sys []"] by auto
  obtain ret tf' s2 where t: "tf_send script_os script_handle req' (script_sys []) = (ret, tf', s2)"
    by (metis prod_cases3)
  from send_delivers_wire [OF script_out_pipe script_handle_simps(1) building_init d t] d t show ?thesis
    by (auto simp: send_pad_def script_sys_def)
qed

text \<open>The padding keeps every transfer even, but it does not keep the transfer away from the
  multiples of 64 that the code means to avoid: a packet whose length is 63 modulo 64 is padded
  by one byte to a multiple of 64.\<close>

theorem send_length_residue:
  "even (send_length req) \<and> (send_length req mod 64 = 0 \<longleftrightarrow> unat (get_u16_raw req 0) mod 64 = 63)"
proof -
  define l where "l = unat (get_u16_raw req 0)"
  have parity: "l mod 64 mod 2 = l mod 2" by (rule mod_mod_cancel) simp
  have len: "send_length req = (if l mod 64 = 0 then l + 2 else if l mod 2 \<noteq> 0 then l + 1 else l)"
    by (simp add: send_length_def l_def)
  have "Suc l mod 64 = 0 \<longleftrightarrow> l mod 64 = 63" by (simp add: mod_Suc)
  moreover have "l mod 64 = 0 \<Longrightarrow> Suc (Suc l) mod 64 \<noteq> 0" by (simp add: mod_Suc)
  moreover have "l mod 64 = 63 \<Longrightarrow> l mod 2 = 1" and "l mod 64 = 0 \<Longrightarrow> l mod 2 = 0" using parity by simp_all
  ultimately show ?thesis
    unfolding len l_def [symmetric] by (cases "l mod 64 = 0") (auto simp: mod2_eq_if)
qed

text \<open>C5. The result of \<^verbatim>\<open>tf_cmd\<close> on every kind of reply, once the request is accepted: a FAIL
  gives the negated reason read as \<^verbatim>\<open>int\<close>, SUCCESS gives 0, anything else is unexpected; the
  handle's error is the result. In particular a FAIL packet whose reason is zero or missing is
  reported as success.\<close>

theorem cmd_outcome:
  assumes "dev tf = Some fd" and "building req c p" and "tf_req_done os tf req s = Some (req', s0)"
    and "accepts os fd (timeout tf) s0 (wire c p @ send_pad req' p) s1"
    and "receives os fd (timeout tf) s1 cmd q s2"
  shows "\<exists>s'. tf_cmd os tf req' s0 = Some (cmd_result cmd q, tf\<lparr>error := cmd_result cmd q\<rparr>, s') \<and> world s' = world s2
    \<and> (cmd_result cmd q = 0 \<longleftrightarrow> cmd = TF_MSG_SUCCESS \<or> (cmd = TF_MSG_FAIL \<and> fail_reason q = 0))
    \<and> (q = [] \<longrightarrow> fail_reason q = 0)"
proof -
  have len: "8 + length p \<le> 65535" using assms(2) by (simp add: building_def)
  from req_done_wire [OF assms(2), of os tf s] assms(3)
  have "bytes_at req' 0 (length (wire c p)) = wire c p" by auto
  from tf_send_accepts [OF assms(1,4) this len]
  have "tf_send os tf req' s0 = (0, tf\<lparr>error := 0\<rparr>, s1)" .
  from tf_cmd_exchange [OF this assms(1,5)] show ?thesis
    by (auto simp: cmd_result_0_iff)
qed

lemma script_accepts:
  assumes "bs \<noteq> []" and "length bs < 512"
  shows "accepts script_os fd t s bs (s\<lparr>world := (world s)\<lparr>outbox := outbox (world s) @ [bs]\<rparr>\<rparr>)"
proof -
  have "bulk_write_loop script_os fd ep bs 0 t w = (length bs, w\<lparr>outbox := outbox w @ [bs]\<rparr>)" for ep w
    using assms by (subst bulk_write_loop.simps) (simp add: ioctl_bulk_out_def script_os_def script_out_def)
  with assms show ?thesis by (simp add: accepts_def usb_bulk_write_def)
qed

theorem cmd_outcome_witness:
  "\<exists>req' s'. tf_req_done script_os script_handle (tf_req_init (\<lambda>i. 0) TF_MSG_RESET) (script_sys [wire TF_MSG_FAIL []])
      = Some (req', script_sys [wire TF_MSG_FAIL []])
    \<and> tf_cmd script_os script_handle req' (script_sys [wire TF_MSG_FAIL []]) = Some (0, script_handle\<lparr>error := 0\<rparr>, s')"
proof -
  let ?s = "script_sys [wire TF_MSG_FAIL []]"
  let ?s1 = "?s\<lparr>world := (world ?s)\<lparr>outbox := [wire TF_MSG_RESET []]\<rparr>\<rparr>"
  obtain req' where d: "tf_req_done script_os script_handle (tf_req_init (\<lambda>i. 0) TF_MSG_RESET) ?s = Some (req', ?s)"
    using req_done_wire [OF building_init, of script_os script_handle "\<lambda>i. 0" TF_MSG_RESET ?s] by auto
  have a: "accepts script_os 3 (timeout script_handle) ?s (wire TF_MSG_RESET [] @ send_pad req' []) ?s1"
    using script_accepts [of "wire TF_MSG_RESET []" 3 11000 ?s]
    by (simp add: send_pad_def length_wire script_sys_def flip: length_greater_0_conv)
  obtain w' where r: "receives script_os 3 (timeout script_handle) ?s1 TF_MSG_FAIL [] (?s1\<lparr>world := w'\<rparr>)"
    using receives_pipe [OF script_in_pipe, of ?s1 TF_MSG_FAIL "[]"] by (auto simp: length_wire script_sys_def)
  from cmd_outcome [OF script_handle_simps(1) building_init d a r] d show ?thesis by auto
qed

end
