(* ===== verification/Tf_Command.thy ===== *)
theory Tf_Command
  imports Tf_Link
begin

text \<open>
  The synchronous commands of \<^verbatim>\<open>tf_io.c\<close> (cancel, ready, reset, turbo, delete, mkdir, rename,
  size) and the start-up sequence \<^verbatim>\<open>tf_init\<close>. The indeterminate contents of the automatic
  variable \<^verbatim>\<open>req\<close> are an input from the system.
\<close>

section \<open>Definitions\<close>

definition tf_cmd_cancel :: "'w os \<Rightarrow> tf_handle \<Rightarrow> 'w sys \<Rightarrow> (int \<times> tf_handle \<times> 'w sys) option" where
  "tf_cmd_cancel os tf s = do {
     let req = tf_req_init (os_junk os ''req'' (world s)) TF_MSG_CANCEL;
     (req, s) \<leftarrow> tf_req_done os tf req s;
     tf_cmd os tf req s
   }"

definition tf_cmd_ready :: "'w os \<Rightarrow> tf_handle \<Rightarrow> 'w sys \<Rightarrow> (int \<times> tf_handle \<times> 'w sys) option" where
  "tf_cmd_ready os tf s = do {
     let req = tf_req_init (os_junk os ''req'' (world s)) TF_MSG_READY;
     (req, s) \<leftarrow> tf_req_done os tf req s;
     tf_cmd os tf req s
   }"

definition tf_cmd_reset :: "'w os \<Rightarrow> tf_handle \<Rightarrow> 'w sys \<Rightarrow> (int \<times> tf_handle \<times> 'w sys) option" where
  "tf_cmd_reset os tf s = do {
     let req = tf_req_init (os_junk os ''req'' (world s)) TF_MSG_RESET;
     (req, s) \<leftarrow> tf_req_done os tf req s;
     tf_cmd os tf req s
   }"

definition tf_cmd_turbo :: "'w os \<Rightarrow> tf_handle \<Rightarrow> int \<Rightarrow> 'w sys \<Rightarrow> (int \<times> tf_handle \<times> 'w sys) option" where
  "tf_cmd_turbo os tf on s = do {
     let req = tf_req_init (os_junk os ''req'' (world s)) TF_MSG_TURBO;
     req \<leftarrow> tf_req_put32 req (word_of_int on);
     (req, s) \<leftarrow> tf_req_done os tf req s;
     tf_cmd os tf req s
   }"

definition tf_cmd_delete :: "'w os \<Rightarrow> tf_handle \<Rightarrow> string \<Rightarrow> 'w sys \<Rightarrow> (int \<times> tf_handle \<times> 'w sys) option" where
  "tf_cmd_delete os tf path s = do {
     let req = tf_req_init (os_junk os ''req'' (world s)) TF_MSG_HDD_DELETE;
     req \<leftarrow> tf_req_putfilename req path False;
     (req, s) \<leftarrow> tf_req_done os tf req s;
     tf_cmd os tf req s
   }"

definition tf_cmd_mkdir :: "'w os \<Rightarrow> tf_handle \<Rightarrow> string \<Rightarrow> 'w sys \<Rightarrow> (int \<times> tf_handle \<times> 'w sys) option" where
  "tf_cmd_mkdir os tf path s = do {
     let req = tf_req_init (os_junk os ''req'' (world s)) TF_MSG_HDD_MKDIR;
     req \<leftarrow> tf_req_putfilename req path True;
     (req, s) \<leftarrow> tf_req_done os tf req s;
     tf_cmd os tf req s
   }"

definition tf_cmd_rename :: "'w os \<Rightarrow> tf_handle \<Rightarrow> string \<Rightarrow> string \<Rightarrow> 'w sys \<Rightarrow> (int \<times> tf_handle \<times> 'w sys) option" where
  "tf_cmd_rename os tf src dest s = do {
     let req = tf_req_init (os_junk os ''req'' (world s)) TF_MSG_HDD_RENAME;
     req \<leftarrow> tf_req_putfilename req src True;
     req \<leftarrow> tf_req_putfilename req dest True;
     (req, s) \<leftarrow> tf_req_done os tf req s;
     tf_cmd os tf req s
   }"

record tf_size_result =
  totalk :: u32
  freek :: u32

definition tf_cmd_size ::
  "'w os \<Rightarrow> tf_handle \<Rightarrow> tf_size_result \<Rightarrow> 'w sys \<Rightarrow> (int \<times> tf_size_result \<times> tf_handle \<times> 'w sys) option" where
  "tf_cmd_size os tf result s = do {
     let req = tf_req_init (os_junk os ''req'' (world s)) TF_MSG_HDD_SIZE;
     (req, s) \<leftarrow> tf_req_done os tf req s;
     let (ret, tf, s) = tf_send os tf req s;
     (if ret = 0 then do {
        (ret, reply, tf, s) \<leftarrow> tf_get_response os tf (os_junk os ''reply'' (world s)) s;
        (if ret = 0 then
           if reply_cmd reply = TF_MSG_HDD_SIZE_RESULT
           then Some (ret, \<lparr>totalk = get_u32 reply 8, freek = get_u32 reply 12\<rparr>, tf, s)
           else Some (TF_ERR_UNEXPECTED, result, tf, s)
         else Some (ret, result, tf, s))
      }
      else Some (ret, result, tf, s))
   }"

definition tf_init :: "'w os \<Rightarrow> tf_handle \<Rightarrow> 'w sys \<Rightarrow> (int \<times> tf_handle \<times> 'w sys) option" where
  "tf_init os tf s = do {
     (ret, tf, s) \<leftarrow> tf_cmd_cancel os tf s;
     (if ret = 0 then Some (0, tf, s)
      else do {
        (ret, tf, s) \<leftarrow> tf_cmd_cancel os tf s;
        (if ret = 0 then Some (0, tf, s)
         else do {
           (_, tf, s) \<leftarrow> tf_send_fail os tf 2 s;
           (_, tf, s) \<leftarrow> tf_send_success os tf s;
           (ret, tf, s) \<leftarrow> tf_cmd_ready os tf s;
           (if ret = 0 then Some (0, tf, s)
            else do {
              (ret, tf, s) \<leftarrow> tf_cmd_cancel os tf s;
              (if ret = 0 then Some (0, tf, s) else Some (-1, tf, s))
            })
         })
      })
   }"

section \<open>The contract of an operation on the handle\<close>

text \<open>
  Every command keeps the session: the fields that \<^verbatim>\<open>topfield_open\<close> and the caller have set stay
  as they are. The commands that end with \<^verbatim>\<open>tf_cmd\<close> or \<^verbatim>\<open>tf_send\<close> also store their result in
  the handle, and report a handle without a device as not connected.
\<close>

locale session_op =
  fixes oper :: "tf_handle \<Rightarrow> 'w sys \<Rightarrow> (int \<times> tf_handle \<times> 'w sys) option"
  assumes keeps_session: "oper tf s = Some (ret, tf', s') \<Longrightarrow> same_session tf tf'"
begin

lemma keeps_dev: "oper tf s = Some (ret, tf', s') \<Longrightarrow> dev tf' = dev tf \<and> timeout tf' = timeout tf"
  using keeps_session by (auto simp: same_session_def)

lemma keeps_after:
  "same_session tf0 tf \<Longrightarrow> oper tf s = Some (ret, tf', s') \<Longrightarrow> same_session tf0 tf'"
  using keeps_session same_session_trans by blast

end

locale error_op = session_op +
  assumes stores_error: "oper tf s = Some (ret, tf', s') \<Longrightarrow> error tf' = ret"
    and no_device: "dev tf = None \<Longrightarrow> oper tf s = Some (ret, tf', s') \<Longrightarrow> ret = TF_ERR_NOCONN"
begin

lemma success_needs_device: "oper tf s = Some (0, tf', s') \<Longrightarrow> \<exists>fd. dev tf = Some fd"
  using no_device by (cases "dev tf") fastforce+

end

lemma tf_cmd_error:
  "tf_cmd os tf req s = Some (ret, tf', s') \<Longrightarrow>
     same_session tf tf' \<and> error tf' = ret \<and> (dev tf = None \<longrightarrow> ret = TF_ERR_NOCONN)"
  by (auto simp: tf_cmd_def Let_def split: prod.splits if_splits bind_splits
      dest!: tf_send_error get_response_error)

lemma tf_cmd_keeps: "tf_cmd os tf req s = Some (ret, tf', s') \<Longrightarrow> pending tf' = pending tf \<and> buf tf' = buf tf"
  by (auto simp: tf_cmd_def Let_def split: prod.splits if_splits bind_splits
      dest!: tf_send_error get_response_error)

section \<open>One request and its reply\<close>

text \<open>
  \<open>takes os fd t w c p W\<close>: in world \<open>w\<close> the device takes the wire form of command \<open>c\<close> with payload
  \<open>p\<close>, whatever the two bytes of padding behind a multiple of 64 are, leaving a system that
  satisfies \<open>W\<close>. \<open>answers os fd t t' w c p cmd q W\<close>: it takes it and then delivers the packet
  \<open>cmd\<close> with payload \<open>q\<close>, leaving a world that satisfies \<open>W\<close>.
\<close>

definition takes :: "'w os \<Rightarrow> int \<Rightarrow> int \<Rightarrow> 'w \<Rightarrow> u32 \<Rightarrow> u8 list \<Rightarrow> ('w sys \<Rightarrow> bool) \<Rightarrow> bool" where
  "takes os fd t w c p W \<longleftrightarrow>
     (\<forall>s pad. world s = w \<longrightarrow> length pad = (if (8 + length p) mod 64 = 0 then 2 else 0) \<longrightarrow>
        (\<exists>s1. accepts os fd t s (wire c p @ pad) s1 \<and> W s1))"

definition answers ::
  "'w os \<Rightarrow> int \<Rightarrow> int \<Rightarrow> int \<Rightarrow> 'w \<Rightarrow> u32 \<Rightarrow> u8 list \<Rightarrow> u32 \<Rightarrow> u8 list \<Rightarrow> ('w \<Rightarrow> bool) \<Rightarrow> bool" where
  "answers os fd t t' w c p cmd q W \<longleftrightarrow>
     takes os fd t w c p (\<lambda>s1. \<exists>s2. receives os fd t' s1 cmd q s2 \<and> W (world s2))"

lemma takes_mono: "takes os fd t w c p W \<Longrightarrow> (\<And>s. W s \<Longrightarrow> W' s) \<Longrightarrow> takes os fd t w c p W'"
  unfolding takes_def by blast

lemma answers_mono:
  assumes "answers os fd t t' w c p cmd q W" and "\<And>w. W w \<Longrightarrow> W' w"
  shows "answers os fd t t' w c p cmd q W'"
  using assms(1) unfolding answers_def by (rule takes_mono) (use assms(2) in blast)

text \<open>What a reply buffer holds after a packet has been received.\<close>

definition holds_reply :: "mem \<Rightarrow> u32 \<Rightarrow> u8 list \<Rightarrow> bool" where
  "holds_reply m cmd q \<longleftrightarrow> 8 + length q \<le> 65535 \<and> reply_length m = of_nat (8 + length q) \<and> reply_cmd m = cmd
     \<and> bytes_at m 8 (length q) = q \<and> (\<forall>i. 8 + length q \<le> i \<longrightarrow> i < sizeof_packet \<longrightarrow> m i = 0)"

lemma holds_reply_at: "holds_reply m cmd q \<Longrightarrow> a + 8 < sizeof_packet \<Longrightarrow> m (8 + a) = (if a < length q then q ! a else 0)"
  using bytes_at_eq_nthD [of m 8 "length q" q a] by (auto simp: holds_reply_def)

lemma holds_reply_length: "holds_reply m cmd q \<Longrightarrow> unat (reply_length m) = 8 + length q"
  by (simp add: holds_reply_def unat_of_nat16 del: of_nat_add of_nat_Suc)

lemma get_response_holds:
  assumes "dev tf = Some fd" and "receives os fd (timeout tf) s cmd q s1"
  shows "\<exists>m s'. tf_get_response os tf reply s = Some (0, m, tf\<lparr>error := 0\<rparr>, s') \<and> world s' = world s1
    \<and> holds_reply m cmd q"
proof -
  have "8 + length q \<le> 65535" using assms(2) by (simp add: receives_def)
  with get_response_receives [OF assms, of reply] show ?thesis
    by (auto simp: holds_reply_def)
qed

lemma request_sent:
  assumes "dev tf = Some fd" and b: "building req c p" and "takes os fd (timeout tf) (world s) c p W"
  shows "\<exists>req' s0 s1. tf_req_done os tf req s = Some (req', s0) \<and> world s0 = world s
    \<and> tf_send os tf req' s0 = (0, tf\<lparr>error := 0\<rparr>, s1) \<and> W s1"
proof -
  obtain req' s0 where d: "tf_req_done os tf req s = Some (req', s0)" "world s0 = world s"
    and w: "bytes_at req' 0 (length (wire c p)) = wire c p"
    using req_done_wire [OF b, of os tf s] by auto
  have pad: "length (send_pad req' p) = (if (8 + length p) mod 64 = 0 then 2 else 0)"
    by (simp add: send_pad_def)
  obtain s1 where a: "accepts os fd (timeout tf) s0 (wire c p @ send_pad req' p) s1" "W s1"
    using assms(3) [unfolded takes_def, rule_format, OF d(2) pad] by blast
  have "8 + length p \<le> 65535" using b by (simp add: building_def)
  from tf_send_accepts [OF assms(1) a(1) w this] d a(2) show ?thesis by blast
qed

lemma request_reply:
  assumes "dev tf = Some fd" and "building req c p"
    and "answers os fd (timeout tf) t' (world s) c p cmd q W"
  shows "\<exists>req' s0 s1 s2. tf_req_done os tf req s = Some (req', s0) \<and> world s0 = world s
    \<and> tf_send os tf req' s0 = (0, tf\<lparr>error := 0\<rparr>, s1) \<and> receives os fd t' s1 cmd q s2 \<and> W (world s2)"
  using request_sent [OF assms(1,2) assms(3) [unfolded answers_def]] by blast

text \<open>The acknowledgement, and the reply to it.\<close>

lemma send_success_sent:
  assumes "dev tf = Some fd" and "trace_level tf > 0 \<longrightarrow> tracefh tf \<noteq> None"
    and "takes os fd (timeout tf) (world s) TF_MSG_SUCCESS [] W"
  shows "\<exists>s1. tf_send_success os tf s = Some (0, tf\<lparr>error := 0\<rparr>, s1) \<and> W s1"
proof -
  have lw: "length (wire TF_MSG_SUCCESS []) = 8" by (simp add: length_wire)
  have pad: "(if (8 + length ([] :: u8 list)) mod 64 = 0 then 2 else 0) = (0 :: nat)" by simp
  have "\<exists>s1. tf_send os tf success_packet s' = (0, tf\<lparr>error := 0\<rparr>, s1) \<and> W s1"
    if "world s' = world s" for s'
  proof -
    from assms(3) [unfolded takes_def pad, rule_format, OF that, of "[]"]
    obtain s1 where a: "accepts os fd (timeout tf) s' (wire TF_MSG_SUCCESS [] @ []) s1" "W s1" by auto
    have "send_pad success_packet [] = []" by (simp add: send_pad_def)
    with a have a': "accepts os fd (timeout tf) s' (wire TF_MSG_SUCCESS [] @ send_pad success_packet []) s1" by simp
    from tf_send_accepts [OF assms(1) a'] success_packet_wire a(2) show ?thesis
      by (auto simp: lw)
  qed
  then show ?thesis
    using assms(2) by (auto simp: tf_send_success_def fprint_def)
qed

lemma send_success_reply:
  assumes "dev tf = Some fd" and "trace_level tf > 0 \<longrightarrow> tracefh tf \<noteq> None"
    and "answers os fd (timeout tf) t' (world s) TF_MSG_SUCCESS [] cmd q W"
  shows "\<exists>s1 s2. tf_send_success os tf s = Some (0, tf\<lparr>error := 0\<rparr>, s1) \<and> receives os fd t' s1 cmd q s2 \<and> W (world s2)"
  using send_success_sent [OF assms(1,2) assms(3) [unfolded answers_def]] by blast

lemma send_fail_sent:
  assumes "dev tf = Some fd" and "takes os fd (timeout tf) (world s) TF_MSG_FAIL (be32 (word_of_int reason)) W"
  shows "\<exists>s1. tf_send_fail os tf reason s = Some (0, tf\<lparr>error := 0\<rparr>, s1) \<and> W s1"
proof -
  obtain req where "tf_req_put32 (tf_req_init (os_junk os ''req'' (world s)) TF_MSG_FAIL) (word_of_int reason) = Some req"
    and b: "building req TF_MSG_FAIL (be32 (word_of_int reason))"
    using put32.put_building [OF building_init, of "word_of_int reason" "os_junk os ''req'' (world s)" TF_MSG_FAIL] by auto
  with request_sent [OF assms(1) b assms(2)] show ?thesis
    by (auto simp: tf_send_fail_def)
qed

section \<open>Commands\<close>

text \<open>
  The contract of a command with an argument \<open>x\<close>: it builds the request \<open>c\<close> with the payload of
  \<open>x\<close> when that fits in a packet, and ends with the exchange \<^verbatim>\<open>tf_cmd\<close>. Its behaviour on every
  reply follows once for all commands.
\<close>

locale command =
  fixes os :: "'w os" and oper :: "'a \<Rightarrow> tf_handle \<Rightarrow> 'w sys \<Rightarrow> (int \<times> tf_handle \<times> 'w sys) option"
    and c :: u32 and payload :: "'a \<Rightarrow> u8 list"
  assumes builds: "8 + length (payload x) \<le> 65535 \<Longrightarrow> \<exists>req. building req c (payload x)
      \<and> oper x tf s = do {(req, s) \<leftarrow> tf_req_done os tf req s; tf_cmd os tf req s}"
    and ends: "oper x tf s = Some r \<Longrightarrow> \<exists>req s0. tf_cmd os tf req s0 = Some r"
begin

lemma exchange:
  assumes "8 + length (payload x) \<le> 65535" and "dev tf = Some fd"
    and "answers os fd (timeout tf) (timeout tf) (world s) c (payload x) cmd q W"
  shows "\<exists>s'. oper x tf s = Some (cmd_result cmd q, tf\<lparr>error := cmd_result cmd q\<rparr>, s') \<and> W (world s')"
proof -
  obtain req where b: "building req c (payload x)"
    and run: "oper x tf s = do {(req, s) \<leftarrow> tf_req_done os tf req s; tf_cmd os tf req s}"
    using builds [OF assms(1)] by blast
  obtain req' s0 s1 s2 where d: "tf_req_done os tf req s = Some (req', s0)"
    and t: "tf_send os tf req' s0 = (0, tf\<lparr>error := 0\<rparr>, s1)"
    and r: "receives os fd (timeout tf) s1 cmd q s2" and W: "W (world s2)"
    using request_reply [OF assms(2) b assms(3)] by blast
  from tf_cmd_exchange [OF t assms(2) r] d W run show ?thesis by auto
qed

lemma keeps_transfer: "oper x tf s = Some (ret, tf', s') \<Longrightarrow> pending tf' = pending tf \<and> buf tf' = buf tf"
  using ends tf_cmd_keeps by blast

end

sublocale command \<subseteq> error_op "oper x" for x
  by unfold_locales (auto dest!: ends tf_cmd_error)


lemma putfilename_init:
  "8 + length (enc_filename 0 path al) \<le> 65535 \<Longrightarrow>
     \<exists>req. tf_req_putfilename (tf_req_init junk c) path al = Some req \<and> building req c (enc_filename 0 path al)"
  using putfilename_building [OF building_init, of path al junk c] by auto

text \<open>The payload of a rename: both paths, each with its length.\<close>

definition enc_rename :: "string \<times> string \<Rightarrow> u8 list" where
  "enc_rename paths = enc_filename 0 (fst paths) True @ enc_filename 0 (snd paths) True"

lemma enc_filename_even: "even pos \<Longrightarrow> enc_filename pos str al = enc_filename 0 str al"
  by (simp add: enc_filename_def)

lemma even_enc_filename: "even (length (enc_filename 0 str al))"
  using enc_filename_parity [of 0 str al] by simp

lemma putfilename_rename:
  assumes "8 + length (enc_rename (src, dest)) \<le> 65535"
  shows "\<exists>r1 r2. tf_req_putfilename (tf_req_init junk c) src True = Some r1
    \<and> tf_req_putfilename r1 dest True = Some r2 \<and> building r2 c (enc_rename (src, dest))"
proof -
  obtain r1 where r1: "tf_req_putfilename (tf_req_init junk c) src True = Some r1"
    and b1: "building r1 c (enc_filename 0 src True)"
    using putfilename_init [of src True junk c] assms by (auto simp: enc_rename_def)
  have "enc_filename (length (enc_filename 0 src True)) dest True = enc_filename 0 dest True"
    using even_enc_filename by (rule enc_filename_even)
  with putfilename_building [OF b1, of dest True] assms r1 show ?thesis
    by (auto simp: enc_rename_def)
qed

lemma ends_with_cmd:
  "(case p of (req, s) \<Rightarrow> tf_cmd os tf req s) = Some r \<Longrightarrow> \<exists>req s0. tf_cmd os tf req s0 = Some r"
  by (cases p) auto

interpretation cmd_cancel: command os "\<lambda>_ :: unit. tf_cmd_cancel os" TF_MSG_CANCEL "\<lambda>_. []" for os :: "'w os"
proof unfold_locales
  fix tf s
  show "\<exists>req. building req TF_MSG_CANCEL []
      \<and> tf_cmd_cancel os tf s = do {(req, s) \<leftarrow> tf_req_done os tf req s; tf_cmd os tf req s}"
    using building_init by (auto simp: tf_cmd_cancel_def Let_def)
qed (auto simp: tf_cmd_cancel_def Let_def Option.bind_eq_Some_conv intro: ends_with_cmd)

interpretation cmd_ready: command os "\<lambda>_ :: unit. tf_cmd_ready os" TF_MSG_READY "\<lambda>_. []" for os :: "'w os"
proof unfold_locales
  fix tf s
  show "\<exists>req. building req TF_MSG_READY []
      \<and> tf_cmd_ready os tf s = do {(req, s) \<leftarrow> tf_req_done os tf req s; tf_cmd os tf req s}"
    using building_init by (auto simp: tf_cmd_ready_def Let_def)
qed (auto simp: tf_cmd_ready_def Let_def Option.bind_eq_Some_conv intro: ends_with_cmd)

interpretation cmd_reset: command os "\<lambda>_ :: unit. tf_cmd_reset os" TF_MSG_RESET "\<lambda>_. []" for os :: "'w os"
proof unfold_locales
  fix tf s
  show "\<exists>req. building req TF_MSG_RESET []
      \<and> tf_cmd_reset os tf s = do {(req, s) \<leftarrow> tf_req_done os tf req s; tf_cmd os tf req s}"
    using building_init by (auto simp: tf_cmd_reset_def Let_def)
qed (auto simp: tf_cmd_reset_def Let_def Option.bind_eq_Some_conv intro: ends_with_cmd)

interpretation cmd_turbo: command os "\<lambda>on tf. tf_cmd_turbo os tf on" TF_MSG_TURBO "\<lambda>on. be32 (word_of_int on)" for os :: "'w os"
proof unfold_locales
  fix on tf s
  show "\<exists>req. building req TF_MSG_TURBO (be32 (word_of_int on))
      \<and> tf_cmd_turbo os tf on s = do {(req, s) \<leftarrow> tf_req_done os tf req s; tf_cmd os tf req s}"
    using put32.put_building [OF building_init, of "word_of_int on" "os_junk os ''req'' (world s)" TF_MSG_TURBO]
    by (auto simp: tf_cmd_turbo_def Let_def)
qed (auto simp: tf_cmd_turbo_def Let_def Option.bind_eq_Some_conv intro: ends_with_cmd)

interpretation cmd_delete: command os "\<lambda>path tf. tf_cmd_delete os tf path" TF_MSG_HDD_DELETE
    "\<lambda>path. enc_filename 0 path False" for os :: "'w os"
proof unfold_locales
  fix path tf and s :: "'w sys" assume "8 + length (enc_filename 0 path False) \<le> 65535"
  from putfilename_init [OF this, of "os_junk os ''req'' (world s)" TF_MSG_HDD_DELETE]
  show "\<exists>req. building req TF_MSG_HDD_DELETE (enc_filename 0 path False)
      \<and> tf_cmd_delete os tf path s = do {(req, s) \<leftarrow> tf_req_done os tf req s; tf_cmd os tf req s}"
    by (auto simp: tf_cmd_delete_def Let_def)
qed (auto simp: tf_cmd_delete_def Let_def Option.bind_eq_Some_conv intro: ends_with_cmd)

interpretation cmd_mkdir: command os "\<lambda>path tf. tf_cmd_mkdir os tf path" TF_MSG_HDD_MKDIR
    "\<lambda>path. enc_filename 0 path True" for os :: "'w os"
proof unfold_locales
  fix path tf and s :: "'w sys" assume "8 + length (enc_filename 0 path True) \<le> 65535"
  from putfilename_init [OF this, of "os_junk os ''req'' (world s)" TF_MSG_HDD_MKDIR]
  show "\<exists>req. building req TF_MSG_HDD_MKDIR (enc_filename 0 path True)
      \<and> tf_cmd_mkdir os tf path s = do {(req, s) \<leftarrow> tf_req_done os tf req s; tf_cmd os tf req s}"
    by (auto simp: tf_cmd_mkdir_def Let_def)
qed (auto simp: tf_cmd_mkdir_def Let_def Option.bind_eq_Some_conv intro: ends_with_cmd)

interpretation cmd_rename: command os "\<lambda>paths tf. tf_cmd_rename os tf (fst paths) (snd paths)" TF_MSG_HDD_RENAME enc_rename
  for os :: "'w os"
proof unfold_locales
  fix paths tf and s :: "'w sys" assume fits: "8 + length (enc_rename paths) \<le> 65535"
  obtain src dest where [simp]: "paths = (src, dest)" by fastforce
  from fits have "8 + length (enc_rename (src, dest)) \<le> 65535" by simp
  from putfilename_rename [OF this, of "os_junk os ''req'' (world s)" TF_MSG_HDD_RENAME]
  show "\<exists>req. building req TF_MSG_HDD_RENAME (enc_rename paths)
      \<and> tf_cmd_rename os tf (fst paths) (snd paths) s = do {(req, s) \<leftarrow> tf_req_done os tf req s; tf_cmd os tf req s}"
    by (auto simp: tf_cmd_rename_def Let_def)
qed (auto simp: tf_cmd_rename_def Let_def Option.bind_eq_Some_conv intro: ends_with_cmd)

text \<open>The replies the library sends are operations with the same contract.\<close>

interpretation send_success: error_op "tf_send_success os" for os :: "'w os"
  by unfold_locales (auto simp: tf_send_success_def split: if_splits option.splits dest!: tf_send_error)

interpretation send_fail: error_op "\<lambda>tf. tf_send_fail os tf reason" for os :: "'w os" and reason
  by unfold_locales
    (auto simp: tf_send_fail_def Option.bind_eq_Some_conv dest!: tf_send_error)

section \<open>Commands on the scripted device\<close>

lemma script_takes:
  assumes "length p < 500" and "\<And>pad s1. length pad = (if (8 + length p) mod 64 = 0 then 2 else 0) \<Longrightarrow>
      world s1 = w\<lparr>outbox := outbox w @ [wire c p @ pad]\<rparr> \<Longrightarrow> W s1"
  shows "takes script_os fd t w c p W"
  unfolding takes_def
proof (intro allI impI)
  fix s :: "script sys" and pad :: "u8 list"
  assume w: "world s = w" and pad: "length pad = (if (8 + length p) mod 64 = 0 then 2 else 0)"
  then have "length (wire c p @ pad) < 512" and "wire c p @ pad \<noteq> []"
    using assms(1) mod_less_divisor [of 2 "length p"] by (auto simp: length_wire simp flip: length_greater_0_conv)
  then have "accepts script_os fd t s (wire c p @ pad) (s\<lparr>world := w\<lparr>outbox := outbox w @ [wire c p @ pad]\<rparr>\<rparr>)"
    using script_accepts [of "wire c p @ pad" fd t s] w by simp
  moreover have "W (s\<lparr>world := w\<lparr>outbox := outbox w @ [wire c p @ pad]\<rparr>\<rparr>)"
    by (rule assms(2) [OF pad]) simp
  ultimately show "\<exists>s1. accepts script_os fd t s (wire c p @ pad) s1 \<and> W s1" by blast
qed

lemma script_receives_next:
  assumes "length q < 16300" and "inbox (world s) = wire cmd q # ps"
  shows "receives script_os fd t s cmd q (s\<lparr>world := (world s)\<lparr>inbox := ps\<rparr>\<rparr>)"
proof -
  let ?n = "length (wire cmd q)"
  have n: "?n < 16384" using assms(1) mod_less_divisor [of 2 "length q"] unfolding length_wire by linarith
  have "bulk_read_loop script_os fd ep m 0 sizeof_packet t (world s) = (?n, store m 0 (wire cmd q), (world s)\<lparr>inbox := ps\<rparr>)" for ep m
    using n assms(2) by (subst bulk_read_loop.simps) (simp add: ioctl_bulk_in_def script_os_def script_in_def)
  then have "usb_bulk_read script_os fd ep reply sizeof_packet t s
      = (int ?n, store (memset reply 0 sizeof_packet) 0 (wire cmd q), s\<lparr>world := (world s)\<lparr>inbox := ps\<rparr>\<rparr>)" for ep reply
    by (simp add: usb_bulk_read_def)
  then show ?thesis
    using assms(1) by (simp add: receives_def bytes_at_store_same)
qed

lemma script_answers:
  assumes "length p < 500" and "length q < 16300" and "inbox w = wire cmd q # ps"
    and "\<And>pad. length pad = (if (8 + length p) mod 64 = 0 then 2 else 0) \<Longrightarrow>
      W (w\<lparr>outbox := outbox w @ [wire c p @ pad], inbox := ps\<rparr>)"
  shows "answers script_os fd t t' w c p cmd q W"
  unfolding answers_def
proof (rule script_takes [OF assms(1)])
  fix pad :: "u8 list" and s1 :: "script sys"
  assume pad: "length pad = (if (8 + length p) mod 64 = 0 then 2 else 0)"
    and w: "world s1 = w\<lparr>outbox := outbox w @ [wire c p @ pad]\<rparr>"
  then have "receives script_os fd t' s1 cmd q (s1\<lparr>world := (world s1)\<lparr>inbox := ps\<rparr>\<rparr>)"
    using assms(2,3) by (intro script_receives_next) simp_all
  with w assms(4) [OF pad] show "\<exists>s2. receives script_os fd t' s1 cmd q s2 \<and> W (world s2)"
    by (intro exI [of _ "s1\<lparr>world := (world s1)\<lparr>inbox := ps\<rparr>\<rparr>"]) simp
qed

section \<open>Properties\<close>

text \<open>Renaming: whenever both paths fit into a packet, the device takes one RENAME request
  whose payload is both paths with their lengths, each padded to an even size; the result and
  the handle's error are decided by its reply, for every reply.\<close>

theorem rename_exchange:
  assumes "length src + length dest \<le> 65519" and "dev tf = Some fd"
    and "answers os fd (timeout tf) (timeout tf) (world s) TF_MSG_HDD_RENAME
           (enc_filename 0 src True @ enc_filename 0 dest True) cmd q W"
  shows "\<exists>s'. tf_cmd_rename os tf src dest s = Some (cmd_result cmd q, tf\<lparr>error := cmd_result cmd q\<rparr>, s') \<and> W (world s')"
proof -
  have "8 + length (enc_rename (src, dest)) \<le> 65535"
    using assms(1) enc_filename_le [of 0 src True] enc_filename_le [of 0 dest True] by (simp add: enc_rename_def)
  from cmd_rename.exchange [OF this assms(2)] assms(3) show ?thesis
    by (simp add: enc_rename_def)
qed

theorem rename_exchange_witness:
  "\<exists>s'. tf_cmd_rename script_os script_handle ''/A.rec'' ''/B.rec'' (script_sys [wire TF_MSG_FAIL (be32 6)])
      = Some (TF_ERR_GENERR, script_handle\<lparr>error := TF_ERR_GENERR\<rparr>, s') \<and> inbox (world s') = []"
proof -
  have res: "cmd_result TF_MSG_FAIL (be32 6) = TF_ERR_GENERR"
    by (simp add: cmd_result_def fail_reason_def be32_def get_u32_def store_def)
  have "answers script_os 3 (timeout script_handle) (timeout script_handle) (world (script_sys [wire TF_MSG_FAIL (be32 6)]))
      TF_MSG_HDD_RENAME (enc_filename 0 ''/A.rec'' True @ enc_filename 0 ''/B.rec'' True) TF_MSG_FAIL (be32 6) (\<lambda>w. inbox w = [])"
    by (rule script_answers [where ps = "[]"]) (simp_all add: script_sys_def enc_filename_def)
  from rename_exchange [OF _ script_handle_simps(1) this] show ?thesis
    unfolding res by simp
qed

text \<open>Deleting: the request carries the path without a length prefix.\<close>

theorem delete_exchange:
  assumes "length path \<le> 65523" and "dev tf = Some fd"
    and "answers os fd (timeout tf) (timeout tf) (world s) TF_MSG_HDD_DELETE (enc_filename 0 path False) cmd q W"
  shows "\<exists>s'. tf_cmd_delete os tf path s = Some (cmd_result cmd q, tf\<lparr>error := cmd_result cmd q\<rparr>, s') \<and> W (world s')"
  using assms enc_filename_le [of 0 path False] by (intro cmd_delete.exchange) auto

theorem delete_exchange_witness:
  "\<exists>s'. tf_cmd_delete script_os script_handle ''/A.rec'' (script_sys [wire TF_MSG_SUCCESS []])
      = Some (0, script_handle\<lparr>error := 0\<rparr>, s')
    \<and> outbox (world s') = [wire TF_MSG_HDD_DELETE (map wire_char ''/A.rec'' @ [0, 0])]"
proof -
  have e: "enc_filename 0 ''/A.rec'' False = map wire_char ''/A.rec'' @ [0, 0]"
    by (simp add: enc_filename_def)
  have "answers script_os 3 (timeout script_handle) (timeout script_handle) (world (script_sys [wire TF_MSG_SUCCESS []]))
      TF_MSG_HDD_DELETE (enc_filename 0 ''/A.rec'' False) TF_MSG_SUCCESS []
      (\<lambda>w. outbox w = [wire TF_MSG_HDD_DELETE (enc_filename 0 ''/A.rec'' False)])"
    by (rule script_answers [where ps = "[]"]) (simp_all add: script_sys_def e length_wire)
  from delete_exchange [OF _ script_handle_simps(1) this] show ?thesis
    by (simp add: cmd_result_def e)
qed

text \<open>The size query: a SIZE_RESULT gives both 32 bit numbers of its payload; any other
  packet, a FAIL included, gives \<^verbatim>\<open>TF_ERR_UNEXPECTED\<close> and leaves the caller's result alone, and
  this error is not stored in the handle.\<close>

theorem size_outcome:
  assumes "dev tf = Some fd"
    and "answers os fd (timeout tf) (timeout tf) (world s) TF_MSG_HDD_SIZE [] cmd (be32 a @ be32 b) W"
  shows "\<exists>s'. tf_cmd_size os tf result s =
      Some (if cmd = TF_MSG_HDD_SIZE_RESULT then 0 else TF_ERR_UNEXPECTED,
            if cmd = TF_MSG_HDD_SIZE_RESULT then \<lparr>totalk = a, freek = b\<rparr> else result,
            tf\<lparr>error := 0\<rparr>, s') \<and> W (world s')"
proof -
  obtain req' s0 s1 s2 where d: "tf_req_done os tf (tf_req_init (os_junk os ''req'' (world s)) TF_MSG_HDD_SIZE) s = Some (req', s0)"
    and t: "tf_send os tf req' s0 = (0, tf\<lparr>error := 0\<rparr>, s1)"
    and r: "receives os fd (timeout tf) s1 cmd (be32 a @ be32 b) s2" and W: "W (world s2)"
    using request_reply [OF assms(1) building_init assms(2)] by blast
  obtain m s' where g: "tf_get_response os (tf\<lparr>error := 0\<rparr>) (os_junk os ''reply'' (world s1)) s1 = Some (0, m, tf\<lparr>error := 0\<rparr>, s')"
    and w: "world s' = world s2" and h: "holds_reply m cmd (be32 a @ be32 b)"
    using get_response_holds [of "tf\<lparr>error := 0\<rparr>" fd os s1 cmd "be32 a @ be32 b" s2
        "os_junk os ''reply'' (world s1)"] assms(1) r by auto
  have "bytes_at m 8 (4 + 4) = be32 a @ be32 b" and c: "reply_cmd m = cmd"
    using h by (simp_all add: holds_reply_def)
  then have "bytes_at m 8 4 = be32 a" "bytes_at m 12 4 = be32 b"
    unfolding bytes_at_append by simp_all
  then have "get_u32 m 8 = a" "get_u32 m 12 = b"
    by (simp_all add: get_u32_bytes_at)
  with d t g W w c show ?thesis by (simp add: tf_cmd_size_def)
qed

theorem size_outcome_witness:
  "(\<exists>s'. tf_cmd_size script_os script_handle \<lparr>totalk = 7, freek = 7\<rparr>
      (script_sys [wire TF_MSG_HDD_SIZE_RESULT (be32 1000 @ be32 250)])
      = Some (0, \<lparr>totalk = 1000, freek = 250\<rparr>, script_handle\<lparr>error := 0\<rparr>, s') \<and> inbox (world s') = [])
   \<and> (\<exists>s'. tf_cmd_size script_os script_handle \<lparr>totalk = 7, freek = 7\<rparr>
      (script_sys [wire TF_MSG_FAIL (be32 6 @ be32 0)])
      = Some (TF_ERR_UNEXPECTED, \<lparr>totalk = 7, freek = 7\<rparr>, script_handle\<lparr>error := 0\<rparr>, s') \<and> inbox (world s') = [])"
proof -
  have ans: "answers script_os 3 (timeout script_handle) (timeout script_handle) (world (script_sys [wire cmd (be32 a @ be32 b)]))
      TF_MSG_HDD_SIZE [] cmd (be32 a @ be32 b) (\<lambda>w. inbox w = [])" for cmd a b
    by (rule script_answers [where ps = "[]"]) (simp_all add: script_sys_def)
  show ?thesis
    using size_outcome [OF script_handle_simps(1) ans, of \<open>\<lparr>totalk = 7, freek = 7\<rparr>\<close> TF_MSG_HDD_SIZE_RESULT 1000 250]
      size_outcome [OF script_handle_simps(1) ans, of \<open>\<lparr>totalk = 7, freek = 7\<rparr>\<close> TF_MSG_FAIL 6 0] by simp
qed

text \<open>Every command that ends with \<^verbatim>\<open>tf_cmd\<close> keeps the session, stores its result in the
  handle, and reports an unopened handle as not connected.\<close>

theorem commands_contract:
  assumes "oper \<in> {tf_cmd_cancel os, tf_cmd_ready os, tf_cmd_reset os, \<lambda>tf. tf_cmd_turbo os tf on,
      \<lambda>tf. tf_cmd_delete os tf path, \<lambda>tf. tf_cmd_mkdir os tf path, \<lambda>tf. tf_cmd_rename os tf path dest}"
    and "oper tf s = Some (ret, tf', s')"
  shows "same_session tf tf' \<and> error tf' = ret \<and> (dev tf = None \<longrightarrow> ret = TF_ERR_NOCONN)"
proof -
  have op: "error_op oper"
    using assms(1) cmd_cancel.error_op_axioms cmd_ready.error_op_axioms cmd_reset.error_op_axioms
      cmd_turbo.error_op_axioms cmd_delete.error_op_axioms cmd_mkdir.error_op_axioms
      cmd_rename.error_op_axioms [where x = "(path, dest)"]
    by auto
  show ?thesis
    using session_op.keeps_session [OF error_op.axioms(1) [OF op] assms(2)]
      error_op.stores_error [OF op assms(2)] error_op.no_device [OF op _ assms(2)] by simp
qed

theorem commands_contract_witness:
  "\<exists>tf' s'. tf_cmd_reset script_os (script_handle\<lparr>dev := None\<rparr>) (script_sys []) = Some (TF_ERR_NOCONN, tf', s')
    \<and> error tf' = TF_ERR_NOCONN"
proof -
  obtain req s0 where d: "tf_req_done script_os (script_handle\<lparr>dev := None\<rparr>)
      (tf_req_init (os_junk script_os ''req'' (world (script_sys []))) TF_MSG_RESET) (script_sys []) = Some (req, s0)"
    using req_done_wire [OF building_init] by blast
  then obtain ret tf' s' where "tf_cmd_reset script_os (script_handle\<lparr>dev := None\<rparr>) (script_sys []) = Some (ret, tf', s')"
    by (simp add: tf_cmd_reset_def tf_cmd_def tf_send_def Let_def)
  with commands_contract [of "tf_cmd_reset script_os" script_os _ _ _ "script_handle\<lparr>dev := None\<rparr>"] show ?thesis
    by auto
qed

lemma init_step:
  assumes "tf_cmd_cancel os tf s = Some (ret, tf', s') \<or> tf_cmd_ready os tf s = Some (ret, tf', s')"
    and "same_session tf0 tf"
  shows "same_session tf0 tf' \<and> error tf' = ret"
  using assms(1)
proof
  assume c: "tf_cmd_cancel os tf s = Some (ret, tf', s')"
  show ?thesis using cmd_cancel.keeps_after [OF assms(2) c] cmd_cancel.stores_error [OF c] ..
next
  assume c: "tf_cmd_ready os tf s = Some (ret, tf', s')"
  show ?thesis using cmd_ready.keeps_after [OF assms(2) c] cmd_ready.stores_error [OF c] ..
qed

text \<open>The start-up sequence gives 0 or -1; it is 0 exactly if the last command left no error in
  the handle, and the session is kept.\<close>

theorem init_result:
  assumes "tf_init os tf s = Some (ret, tf', s')"
  shows "ret \<in> {0, -1} \<and> (ret = 0 \<longleftrightarrow> error tf' = 0) \<and> same_session tf tf'"
proof -
  obtain r1 tf1 s1 where c1: "tf_cmd_cancel os tf s = Some (r1, tf1, s1)"
    using assms by (auto simp: tf_init_def Option.bind_eq_Some_conv)
  note i1 = init_step [OF disjI1 [OF c1] same_session_refl]
  show ?thesis
  proof (cases "r1 = 0")
    case True with assms c1 i1 show ?thesis by (simp add: tf_init_def)
  next
    case r1: False
    then obtain r2 tf2 s2 where c2: "tf_cmd_cancel os tf1 s1 = Some (r2, tf2, s2)"
      using assms c1 by (auto simp: tf_init_def Option.bind_eq_Some_conv)
    note i2 = init_step [OF disjI1 [OF c2] conjunct1 [OF i1]]
    show ?thesis
    proof (cases "r2 = 0")
      case True with assms c1 c2 r1 i2 show ?thesis by (simp add: tf_init_def)
    next
      case r2: False
      then obtain r3 tf3 s3 r4 tf4 s4 r5 tf5 s5 where
          c3: "tf_send_fail os tf2 2 s2 = Some (r3, tf3, s3)" and c4: "tf_send_success os tf3 s3 = Some (r4, tf4, s4)"
        and c5: "tf_cmd_ready os tf4 s4 = Some (r5, tf5, s5)"
        using assms c1 c2 r1 by (auto simp: tf_init_def Option.bind_eq_Some_conv)
      have "same_session tf tf4"
        using send_success.keeps_after [OF send_fail.keeps_after [OF _ c3] c4] i2 by blast
      note i5 = init_step [OF disjI2 [OF c5] this]
      show ?thesis
      proof (cases "r5 = 0")
        case True with assms c1 c2 c3 c4 c5 r1 r2 i5 show ?thesis by (simp add: tf_init_def)
      next
        case r5: False
        then obtain r6 tf6 s6 where c6: "tf_cmd_cancel os tf5 s5 = Some (r6, tf6, s6)"
          using assms c1 c2 c3 c4 c5 r1 r2 by (auto simp: tf_init_def Option.bind_eq_Some_conv)
        note i6 = init_step [OF disjI1 [OF c6] conjunct1 [OF i5]]
        with assms c1 c2 c3 c4 c5 c6 r1 r2 r5 show ?thesis
          by (auto simp: tf_init_def split: if_splits)
      qed
    qed
  qed
qed

text \<open>The start-up sequence on the wire: when both first cancels fail, the device is sent a
  FAIL with reason 2, a SUCCESS and a READY, and only if that fails one more CANCEL; the result
  is 0 exactly if one of the last two is answered with success.\<close>

theorem init_sequence:
  assumes "dev tf = Some fd" and "trace_level tf > 0 \<longrightarrow> tracefh tf \<noteq> None"
    and "cmd_result c1 q1 \<noteq> 0" and "cmd_result c2 q2 \<noteq> 0"
    and "answers os fd (timeout tf) (timeout tf) (world s) TF_MSG_CANCEL [] c1 q1 (\<lambda>w1.
           answers os fd (timeout tf) (timeout tf) w1 TF_MSG_CANCEL [] c2 q2 (\<lambda>w2.
             takes os fd (timeout tf) w2 TF_MSG_FAIL (be32 2) (\<lambda>s3.
               takes os fd (timeout tf) (world s3) TF_MSG_SUCCESS [] (\<lambda>s4.
                 answers os fd (timeout tf) (timeout tf) (world s4) TF_MSG_READY [] c5 q5 (\<lambda>w5.
                   if cmd_result c5 q5 = 0 then W w5
                   else answers os fd (timeout tf) (timeout tf) w5 TF_MSG_CANCEL [] c6 q6 W)))))"
  shows "\<exists>tf' s'. tf_init os tf s = Some (if cmd_result c5 q5 = 0 \<or> cmd_result c6 q6 = 0 then 0 else -1, tf', s')
    \<and> W (world s')"
proof -
  let ?h = "\<lambda>e. tf\<lparr>error := e\<rparr>"
  note ex = cmd_cancel.exchange [where tf = "?h e" for e, simplified, OF assms(1)]
    cmd_ready.exchange [where tf = "?h e" for e, simplified, OF assms(1)]
  let ?t = "timeout tf"
  let ?k5 = "\<lambda>w5. if cmd_result c5 q5 = 0 then W w5 else answers os fd ?t ?t w5 TF_MSG_CANCEL [] c6 q6 W"
  let ?k4 = "\<lambda>s4. answers os fd ?t ?t (world s4) TF_MSG_READY [] c5 q5 ?k5"
  let ?k3 = "\<lambda>s3. takes os fd ?t (world s3) TF_MSG_SUCCESS [] ?k4"
  let ?k2 = "\<lambda>w2. takes os fd ?t w2 TF_MSG_FAIL (be32 2) ?k3"
  obtain s1 where c1: "tf_cmd_cancel os tf s = Some (cmd_result c1 q1, ?h (cmd_result c1 q1), s1)"
    and w1: "answers os fd ?t ?t (world s1) TF_MSG_CANCEL [] c2 q2 ?k2"
    using cmd_cancel.exchange [OF _ assms(1) assms(5)] by auto
  obtain s2 where c2: "tf_cmd_cancel os (?h (cmd_result c1 q1)) s1 = Some (cmd_result c2 q2, ?h (cmd_result c2 q2), s2)"
    and w2: "?k2 (world s2)"
    using ex(1) [OF w1] by auto
  obtain s3 where c3: "tf_send_fail os (?h (cmd_result c2 q2)) 2 s2 = Some (0, ?h 0, s3)" and w3: "?k3 s3"
    using send_fail_sent [of "?h (cmd_result c2 q2)" fd os s2 2] assms(1) w2 by auto
  obtain s4 where c4: "tf_send_success os (?h 0) s3 = Some (0, ?h 0, s4)" and w4: "?k4 s4"
    using send_success_sent [of "?h 0" fd os s3] assms(1,2) w3 by auto
  obtain s5 where c5: "tf_cmd_ready os (?h 0) s4 = Some (cmd_result c5 q5, ?h (cmd_result c5 q5), s5)"
    and w5: "?k5 (world s5)"
    using ex(2) [OF w4] by auto
  show ?thesis
  proof (cases "cmd_result c5 q5 = 0")
    case True
    with c1 c2 c3 c4 c5 w5 assms(3,4) show ?thesis by (simp add: tf_init_def)
  next
    case False
    with w5 have "answers os fd (timeout tf) (timeout tf) (world s5) TF_MSG_CANCEL [] c6 q6 W" by simp
    from ex(1) [OF this, of "cmd_result c5 q5"] False c1 c2 c3 c4 c5 assms(3,4) show ?thesis
      by (auto simp: tf_init_def)
  qed
qed

lemma script_fail_reply: "cmd_result TF_MSG_FAIL (be32 3) = TF_ERR_BADCMD"
  by (simp add: cmd_result_def fail_reason_def be32_def get_u32_def store_def)

theorem init_sequence_witness:
  "\<exists>tf' s'. tf_init script_os script_handle
      (script_sys [wire TF_MSG_FAIL (be32 3), wire TF_MSG_FAIL (be32 3), wire TF_MSG_SUCCESS []]) = Some (0, tf', s')
    \<and> outbox (world s') = [wire TF_MSG_CANCEL [], wire TF_MSG_CANCEL [], wire TF_MSG_FAIL (be32 2),
        wire TF_MSG_SUCCESS [], wire TF_MSG_READY []]"
proof -
  let ?fail = "wire TF_MSG_FAIL (be32 3)"
  let ?s = "script_sys [?fail, ?fail, wire TF_MSG_SUCCESS []]"
  let ?W = "\<lambda>w. outbox w = [wire TF_MSG_CANCEL [], wire TF_MSG_CANCEL [], wire TF_MSG_FAIL (be32 2),
        wire TF_MSG_SUCCESS [], wire TF_MSG_READY []]"
  let ?t = "timeout script_handle"
  have ok: "cmd_result TF_MSG_SUCCESS [] = 0" by (simp add: cmd_result_def)
  have "answers script_os 3 ?t ?t (world ?s) TF_MSG_CANCEL [] TF_MSG_FAIL (be32 3) (\<lambda>w1.
           answers script_os 3 ?t ?t w1 TF_MSG_CANCEL [] TF_MSG_FAIL (be32 3) (\<lambda>w2.
             takes script_os 3 ?t w2 TF_MSG_FAIL (be32 2) (\<lambda>s3.
               takes script_os 3 ?t (world s3) TF_MSG_SUCCESS [] (\<lambda>s4.
                 answers script_os 3 ?t ?t (world s4) TF_MSG_READY [] TF_MSG_SUCCESS [] (\<lambda>w5.
                   if cmd_result TF_MSG_SUCCESS [] = 0 then ?W w5
                   else answers script_os 3 ?t ?t w5 TF_MSG_CANCEL [] TF_MSG_SUCCESS [] ?W)))))"
    unfolding ok
    by (rule script_answers [where ps = "[?fail, wire TF_MSG_SUCCESS []]"], simp, simp, simp add: script_sys_def,
        rule script_answers [where ps = "[wire TF_MSG_SUCCESS []]"], simp, simp, simp add: script_sys_def,
        rule script_takes, simp, rule script_takes, simp,
        rule script_answers [where ps = "[]"], simp, simp, simp add: script_sys_def, simp add: script_sys_def)
  from init_sequence [OF script_handle_simps(1) _ _ _ this] show ?thesis
    by (auto simp: script_fail_reply ok)
qed

theorem init_result_witness:
  "\<exists>tf' s'. tf_init script_os script_handle (script_sys [wire TF_MSG_SUCCESS []]) = Some (0, tf', s') \<and> error tf' = 0"
proof -
  let ?s = "script_sys [wire TF_MSG_SUCCESS []]"
  have "answers script_os 3 (timeout script_handle) (timeout script_handle) (world ?s) TF_MSG_CANCEL [] TF_MSG_SUCCESS [] (\<lambda>w. True)"
    by (rule script_answers [where ps = "[]"]) (simp_all add: script_sys_def)
  from cmd_cancel.exchange [OF _ script_handle_simps(1) this] obtain tf' s' where
    "tf_init script_os script_handle ?s = Some (0, tf', s')"
    by (auto simp: tf_init_def cmd_result_def)
  with init_result [OF this] show ?thesis by auto
qed

end
