(* ===== verification/Mjd.thy ===== *)
theory Mjd
  imports Tf_Bytes Script_Device
begin

text \<open>
  The date conversions of \<^verbatim>\<open>mjd.c\<close>. A \<^verbatim>\<open>struct tf_datetime\<close> is five bytes of memory: the day
  number at offset 0, then hour, minute and second. The C code computes with \<^verbatim>\<open>double\<close>; the definitions
  here use the exact quotients, and theory \<open>Mjd_Double\<close> proves that the C formulas, with every
  rounding, have the same results.
\<close>

section \<open>Definitions\<close>

definition mjd_date :: "int \<Rightarrow> int \<times> int \<times> int" where
  "mjd_date mjd =
     (let y = c_div (20 * mjd - 301564) 7305;
          m = c_div (10000 * (mjd - c_div (1461 * y) 4) - 149561000) 306001;
          d = mjd - 14956 - c_div (1461 * y) 4 - c_div (306001 * m) 10000;
          k = (if m = 14 \<or> m = 15 then 1 else 0);
          y = y + k;
          m = m - 1 - k * 12
      in (y, m - 1, d))"

definition tfdt_to_time :: "'w os \<Rightarrow> mem \<Rightarrow> nat \<Rightarrow> int" where
  "tfdt_to_time os dt a =
     (let mjd = uint (get_u16 dt a)
      in if mjd = 0xffff \<and> dt (a + 4) = 0xff \<and> dt (a + 3) = 0xff \<and> dt (a + 2) = 0xff then 0
         else let (y, m, d) = mjd_date mjd
              in os_mktime os \<lparr>tm_sec = uint (dt (a + 4)), tm_min = uint (dt (a + 3)), tm_hour = uint (dt (a + 2)),
                   tm_mday = d, tm_mon = m, tm_year = y, tm_wday = 0, tm_yday = 0, tm_isdst = -1\<rparr>)"

definition date_mjd :: "int \<Rightarrow> int \<Rightarrow> int \<Rightarrow> int" where
  "date_mjd year mon mday =
     (let m = mon + 1;
          k = (if m = 1 \<or> m = 2 then 1 else 0)
      in 14956 + mday + c_div (1461 * (year - k)) 4 + c_div (306001 * (m + 1 + k * 12)) 10000)"

definition time_to_tfdt :: "'w os \<Rightarrow> int \<Rightarrow> mem \<Rightarrow> nat \<Rightarrow> mem option" where
  "time_to_tfdt os t dt a = do {
     tm \<leftarrow> os_localtime os t;
     let dt = put_u16 dt a (word_of_int (date_mjd (tm_year tm) (tm_mon tm) (tm_mday tm)));
     let dt = dt(a + 2 := word_of_int (tm_hour tm));
     let dt = dt(a + 3 := word_of_int (tm_min tm));
     Some (dt(a + 4 := word_of_int (tm_sec tm)))
   }"

text \<open>
  The calendar, independently of the formulas: leap years, month lengths, and the day number of
  a date as the number of days since 1858-11-17 (1900-01-01 is day 15020).
\<close>

definition leap_year :: "int \<Rightarrow> bool" where
  "leap_year y \<longleftrightarrow> 4 dvd y \<and> (\<not> 100 dvd y \<or> 400 dvd y)"

definition month_days :: "int \<Rightarrow> int list" where
  "month_days y = [31, if leap_year y then 29 else 28, 31, 30, 31, 30, 31, 31, 30, 31, 30, 31]"

definition valid_date :: "int \<Rightarrow> nat \<Rightarrow> int \<Rightarrow> bool" where
  "valid_date y mon d \<longleftrightarrow> mon < 12 \<and> 1 \<le> d \<and> d \<le> month_days y ! mon"

fun year_start :: "nat \<Rightarrow> int" where
  "year_start 0 = 15020"
| "year_start (Suc n) = year_start n + (if leap_year (1900 + int n) then 366 else 365)"

definition day_number :: "nat \<Rightarrow> nat \<Rightarrow> int \<Rightarrow> int" where
  "day_number n mon d = year_start n + sum_list (take mon (month_days (1900 + int n))) + d - 1"

section \<open>The calendar\<close>

lemma century_window: "n < 200 \<Longrightarrow> 100 dvd (1900 + int n) \<longleftrightarrow> n = 0 \<or> n = 100"
proof
  assume "n < 200" and "100 dvd (1900 + int n)"
  then obtain k where "1900 + int n = 100 * k" by (auto elim: dvdE)
  with \<open>n < 200\<close> show "n = 0 \<or> n = 100" by presburger
qed auto

lemma leap_year_window:
  assumes "n < 200"
  shows "leap_year (1900 + int n) \<longleftrightarrow> 0 < n \<and> n mod 4 = 0"
proof -
  have "4 dvd (1900 + int n) \<longleftrightarrow> n mod 4 = 0" by presburger
  then show ?thesis
    using century_window [OF assms] by (cases "n = 0 \<or> n = 100") (auto simp: leap_year_def)
qed

lemma quarter_step: "int n div 4 = (int n - 1) div 4 + (if n mod 4 = 0 then 1 else 0)"
  by presburger

lemma year_start_closed:
  "n \<le> 200 \<Longrightarrow> year_start n = 15020 + 365 * int n + (int n - 1) div 4 + (if n = 0 then 1 else 0)"
proof (induction n)
  case (Suc n)
  then have "year_start n = 15020 + 365 * int n + (int n - 1) div 4 + (if n = 0 then 1 else 0)" and "n < 200" by simp_all
  then show ?case using quarter_step [of n] by (auto simp: leap_year_window)
qed simp

lemma less_12_cases:
  "mon < (12 :: nat) \<Longrightarrow> mon = 0 \<or> mon = 1 \<or> mon = 2 \<or> mon = 3 \<or> mon = 4 \<or> mon = 5 \<or> mon = 6 \<or> mon = 7
     \<or> mon = 8 \<or> mon = 9 \<or> mon = 10 \<or> mon = 11"
  by presburger

text \<open>Dates from March on count in the year itself, January and February in the one before.\<close>

definition march_year :: "nat \<Rightarrow> nat \<Rightarrow> int" where
  "march_year n mon = (if mon < 2 then int n - 1 else int n)"

definition march_month :: "nat \<Rightarrow> int" where
  "march_month mon = (if mon < 2 then int mon + 14 else int mon + 2)"

lemma day_number_march:
  assumes "n < 200" and "valid_date (1900 + int n) mon d" and "2 \<le> mon \<or> 0 < n"
  shows "day_number n mon d = 14956 + (365 * march_year n mon + march_year n mon div 4) + 306001 * march_month mon div 10000 + d"
proof -
  have "mon < 12" using assms(2) by (simp add: valid_date_def)
  note cases = less_12_cases [OF this]
  have "year_start n = 15020 + 365 * int n + (int n - 1) div 4 + (if n = 0 then 1 else 0)"
    using assms(1) by (intro year_start_closed) simp
  then have "year_start n + sum_list (take mon (month_days (1900 + int n)))
      = 14957 + (365 * march_year n mon + march_year n mon div 4) + 306001 * march_month mon div 10000"
    using cases assms(1,3) quarter_step [of n]
    by (elim disjE) (simp_all add: month_days_def march_year_def march_month_def leap_year_window split: if_splits)
  then show ?thesis by (simp add: day_number_def)
qed

section \<open>Encoding and decoding\<close>

lemma quarters: "1461 * y div 4 = 365 * y + y div (4 :: int)"
proof -
  have "1461 * y = y + 365 * y * 4" by simp
  then show ?thesis by (simp only: div_mult_self1 [of 4 y "365 * y"] if_False zero_neq_numeral)
qed

lemma encode_day_number:
  assumes "n < 200" and "valid_date (1900 + int n) mon d" and "2 \<le> mon \<or> 0 < n"
  shows "date_mjd (int n) (int mon) d = day_number n mon d"
proof -
  have "mon < 12" using assms(2) by (simp add: valid_date_def)
  have k: "int n - (if int mon + 1 = 1 \<or> int mon + 1 = 2 then 1 else 0) = march_year n mon"
    by (auto simp: march_year_def)
  have m: "int mon + 1 + 1 + (if int mon + 1 = 1 \<or> int mon + 1 = 2 then 1 else 0) * 12 = march_month mon"
    by (auto simp: march_month_def)
  have "0 \<le> march_year n mon" "0 \<le> march_month mon"
    using assms(3) by (auto simp: march_year_def march_month_def)
  then show ?thesis
    unfolding day_number_march [OF assms] date_mjd_def Let_def k m by (simp add: quarters)
qed

lemma div_window:
  assumes "b * k \<le> x" and "x < b * k + b" and "0 < (b :: int)"
  shows "x div b = k"
  using assms by (intro int_div_pos_eq [where r = "x - b * k"]) simp_all

lemma decode_year:
  assumes "0 \<le> y" and "0 \<le> doy" and "doy \<le> 365" and "doy = 365 \<longrightarrow> y mod 4 = 3"
    and "mjd = 15079 + (365 * y + y div 4) + doy"
  shows "c_div (20 * mjd - 301564) 7305 = y"
proof -
  define q where "q = y div 4"
  define r where "r = y mod 4"
  have y: "y = 4 * q + r" by (simp add: q_def r_def)
  have r: "0 \<le> r" "r \<le> 3" by (simp_all add: r_def)
  have leap: "doy = 365 \<longrightarrow> r = 3" using assms(4) by (simp add: r_def)
  have "20 * mjd - 301564 = 7305 * y + (16 + 20 * doy - 5 * r)"
    using assms(5) y unfolding q_def [symmetric] by linarith
  moreover have low: "0 \<le> 16 + 20 * doy - 5 * r" using assms(2) r by linarith
  moreover have "16 + 20 * doy - 5 * r < 7305"
    using assms(3) leap r by (cases "doy = 365") auto
  ultimately have "(20 * mjd - 301564) div 7305 = y" "0 \<le> 20 * mjd - 301564"
    using assms(1) by (auto intro: div_window)
  then show ?thesis by simp
qed

text \<open>The day of the year that starts in March, by month.\<close>

definition march_day :: "nat \<Rightarrow> int \<Rightarrow> int" where
  "march_day mon d = 306001 * march_month mon div 10000 + d - 123"

lemma month_length:
  assumes "mon < 12" and "d \<le> month_days y ! mon"
  shows "d \<le> (if mon = 1 then (if leap_year y then 29 else 28) else if mon = 3 \<or> mon = 5 \<or> mon = 8 \<or> mon = 10 then 30 else 31)"
  using less_12_cases [OF assms(1)] assms(2) by (elim disjE) (simp_all add: month_days_def)

lemma march_day_table:
  "march_day 0 d = 305 + d" "march_day (Suc 0) d = 336 + d" "march_day 2 d = d - 1" "march_day 3 d = 30 + d"
  "march_day 4 d = 60 + d" "march_day 5 d = 91 + d" "march_day 6 d = 121 + d" "march_day 7 d = 152 + d"
  "march_day 8 d = 183 + d" "march_day 9 d = 213 + d" "march_day 10 d = 244 + d" "march_day 11 d = 274 + d"
  by (simp_all add: march_day_def march_month_def)

lemma march_day_bounds:
  assumes "n < 200" and "valid_date (1900 + int n) mon d"
  shows "0 \<le> march_day mon d \<and> march_day mon d \<le> 365 \<and> (march_day mon d = 365 \<longrightarrow> march_year n mon mod 4 = 3)"
proof -
  have v: "mon < 12" "1 \<le> d"
    and len: "d \<le> (if mon = 1 then (if leap_year (1900 + int n) then 29 else 28) else if mon = 3 \<or> mon = 5 \<or> mon = 8 \<or> mon = 10 then 30 else 31)"
    using assms(2) month_length unfolding valid_date_def by blast+
  show ?thesis
  proof (cases "mon = 1")
    case True
    then have m: "march_day mon d = 336 + d" "march_year n mon = int n - 1"
      by (simp_all add: march_day_table march_year_def)
    show ?thesis
    proof (cases "leap_year (1900 + int n)")
      case leap: True
      then have "n mod 4 = 0" using leap_year_window [OF assms(1)] by blast
      then have "(int n - 1) mod 4 = 3" by presburger
      with True leap len v(2) show ?thesis unfolding m by simp
    next
      case False
      with True len v(2) show ?thesis unfolding m by simp
    qed
  next
    case False
    with len have "d \<le> 31" and "mon = 3 \<or> mon = 5 \<or> mon = 8 \<or> mon = 10 \<Longrightarrow> d \<le> 30" by (auto split: if_splits)
    with False less_12_cases [OF v(1)] v(2) show ?thesis
      by (elim disjE) (simp_all add: march_day_table)
  qed
qed

lemma decode_month:
  assumes "mon < 12" and "1 \<le> d" and "d \<le> month_days y ! mon"
  shows "c_div (10000 * (123 + march_day mon d) - 1000) 306001 = march_month mon"
proof -
  have "d \<le> (if mon = 1 then 29 else if mon = 3 \<or> mon = 5 \<or> mon = 8 \<or> mon = 10 then 30 else 31)"
    using month_length [OF assms(1,3)] by (auto split: if_splits)
  then have d: "d \<le> 31" "mon = 1 \<Longrightarrow> d \<le> 29" "mon = 3 \<or> mon = 5 \<or> mon = 8 \<or> mon = 10 \<Longrightarrow> d \<le> 30"
    by (auto split: if_splits)
  have "(10000 * (123 + march_day mon d) - 1000) div 306001 = march_month mon"
    using less_12_cases [OF assms(1)] assms(2) d
    by (intro div_window; elim disjE) (simp_all add: march_day_table march_month_def)
  moreover have "0 \<le> march_day mon d"
    using less_12_cases [OF assms(1)] assms(2) by (elim disjE) (simp_all add: march_day_table)
  ultimately show ?thesis by simp
qed

lemma day_number_march_day:
  assumes "n < 200" and "valid_date (1900 + int n) mon d" and "2 \<le> mon \<or> 0 < n"
  shows "day_number n mon d = 15079 + (365 * march_year n mon + march_year n mon div 4) + march_day mon d"
  using day_number_march [OF assms] by (simp add: march_day_def)

lemma decode_day_number:
  assumes "n < 200" and "valid_date (1900 + int n) mon d" and "2 \<le> mon \<or> 0 < n"
  shows "mjd_date (day_number n mon d) = (int n, int mon, d)"
proof -
  define mjd where "mjd = day_number n mon d"
  note day = day_number_march_day [OF assms, folded mjd_def]
  have v: "mon < 12" "1 \<le> d" "d \<le> month_days (1900 + int n) ! mon"
    using assms(2) by (simp_all add: valid_date_def)
  have Y: "0 \<le> march_year n mon" using assms(3) by (auto simp: march_year_def)
  note doy = march_day_bounds [OF assms(1,2)]
  have y: "c_div (20 * mjd - 301564) 7305 = march_year n mon"
    using decode_year [OF Y _ _ _ day] doy by blast
  have Yd: "c_div (1461 * march_year n mon) 4 = 365 * march_year n mon + march_year n mon div 4"
    using Y by (simp add: quarters)
  have "10000 * (mjd - (365 * march_year n mon + march_year n mon div 4)) - 149561000
      = 10000 * (123 + march_day mon d) - 1000"
    unfolding day by simp
  then have m: "c_div (10000 * (mjd - c_div (1461 * march_year n mon) 4) - 149561000) 306001 = march_month mon"
    unfolding Yd using decode_month [OF v] by (simp only:)
  have "0 \<le> march_month mon" by (simp add: march_month_def)
  then have d: "mjd - 14956 - c_div (1461 * march_year n mon) 4 - c_div (306001 * march_month mon) 10000 = d"
    unfolding Yd day by (simp add: march_day_def)
  have "march_year n mon + (if march_month mon = 14 \<or> march_month mon = 15 then 1 else 0) = int n"
    and "march_month mon - 1 - (if march_month mon = 14 \<or> march_month mon = 15 then 1 else 0) * 12 - 1 = int mon"
    using v(1) by (auto simp: march_year_def march_month_def)
  then show ?thesis
    unfolding mjd_def [symmetric] mjd_date_def y m d Let_def by simp
qed

lemma march_date_early:
  assumes "0 \<le> y" and "y \<le> 198" and "2 \<le> mon" "mon < 12" "march_day mon d = doy" "1 \<le> d"
    and "d \<le> (if mon = 3 \<or> mon = 5 \<or> mon = 8 \<or> mon = 10 then 30 else 31)"
  shows "\<exists>n mon d. n < 200 \<and> valid_date (1900 + int n) mon d \<and> (2 \<le> mon \<or> 0 < n)
    \<and> march_year n mon = y \<and> march_day mon d = doy"
proof (intro exI conjI)
  show "valid_date (1900 + int (nat y)) mon d"
    using less_12_cases [OF assms(4)] assms(3,6,7) by (elim disjE) (simp_all add: valid_date_def month_days_def)
qed (use assms in \<open>auto simp: march_year_def\<close>)

lemma march_date_late:
  assumes "0 \<le> y" and "y \<le> 198" and "mon < 2" "march_day mon d = doy" "1 \<le> d"
    and "d \<le> (if mon = 0 then 31 else if y mod 4 = 3 then 29 else 28)"
  shows "\<exists>n mon d. n < 200 \<and> valid_date (1900 + int n) mon d \<and> (2 \<le> mon \<or> 0 < n)
    \<and> march_year n mon = y \<and> march_day mon d = doy"
proof (intro exI conjI)
  have "y mod 4 = 3 \<Longrightarrow> Suc (nat y) mod 4 = 0" using assms(1) by presburger
  then have "y mod 4 = 3 \<Longrightarrow> leap_year (1900 + int (Suc (nat y)))"
    using leap_year_window [of "Suc (nat y)"] assms(2) by simp
  then show "valid_date (1900 + int (Suc (nat y))) mon d"
    using assms(3-6) by (cases "mon = 0") (auto simp: valid_date_def month_days_def less_2_cases_iff split: if_splits)
qed (use assms in \<open>auto simp: march_year_def\<close>)

lemma march_date_exists:
  assumes "0 \<le> y" and "0 \<le> doy" and "doy \<le> 365" and leap: "doy = 365 \<longrightarrow> y mod 4 = 3" and "y \<le> 198"
  shows "\<exists>n mon d. n < 200 \<and> valid_date (1900 + int n) mon d \<and> (2 \<le> mon \<or> 0 < n)
    \<and> march_year n mon = y \<and> march_day mon d = doy"
proof -
  note early = march_date_early [OF assms(1,5)] and late = march_date_late [OF assms(1,5)]
  show ?thesis
  proof (cases "doy < 306")
    case True
    consider "doy < 31" | "31 \<le> doy" "doy < 61" | "61 \<le> doy" "doy < 92" | "92 \<le> doy" "doy < 122"
      | "122 \<le> doy" "doy < 153" | "153 \<le> doy" "doy < 184" | "184 \<le> doy" "doy < 214"
      | "214 \<le> doy" "doy < 245" | "245 \<le> doy" "doy < 275" | "275 \<le> doy" "doy < 306"
      using True by linarith
    then show ?thesis
    proof cases
      case 1 then show ?thesis using early [of 2 "doy + 1"] assms(2) by (simp add: march_day_table)
    next case 2 then show ?thesis using early [of 3 "doy - 30"] by (simp add: march_day_table)
    next case 3 then show ?thesis using early [of 4 "doy - 60"] by (simp add: march_day_table)
    next case 4 then show ?thesis using early [of 5 "doy - 91"] by (simp add: march_day_table)
    next case 5 then show ?thesis using early [of 6 "doy - 121"] by (simp add: march_day_table)
    next case 6 then show ?thesis using early [of 7 "doy - 152"] by (simp add: march_day_table)
    next case 7 then show ?thesis using early [of 8 "doy - 183"] by (simp add: march_day_table)
    next case 8 then show ?thesis using early [of 9 "doy - 213"] by (simp add: march_day_table)
    next case 9 then show ?thesis using early [of 10 "doy - 244"] by (simp add: march_day_table)
    next case 10 then show ?thesis using early [of 11 "doy - 274"] by (simp add: march_day_table)
    qed
  next
    case False
    show ?thesis
    proof (cases "doy < 337")
      case True
      with False show ?thesis using late [of 0 "doy - 305"] by (simp add: march_day_table)
    next
      case False
      with assms(3) leap show ?thesis
        using late [of "Suc 0" "doy - 336"] by (auto simp: march_day_table)
    qed
  qed
qed

lemma date_exists:
  assumes "15079 \<le> mjd" and "mjd \<le> 65535"
  shows "\<exists>n mon d. n < 200 \<and> valid_date (1900 + int n) mon d \<and> (2 \<le> mon \<or> 0 < n) \<and> day_number n mon d = mjd"
proof -
  define y where "y = (20 * mjd - 301564) div 7305"
  define q where "q = y div 4"
  define r where "r = y mod 4"
  define doy where "doy = mjd - 15079 - (365 * y + y div 4)"
  have y: "y = 4 * q + r" "0 \<le> r" "r \<le> 3" by (simp_all add: q_def r_def)
  define s where "s = (20 * mjd - 301564) mod 7305"
  have s: "20 * mjd - 301564 = 7305 * y + s" "0 \<le> s" "s < 7305"
    by (simp_all add: y_def s_def)
  then have d: "20 * doy = s - 16 + 5 * r"
    using y(1) unfolding doy_def q_def [symmetric] by (simp add: algebra_simps)
  have "0 \<le> doy" "doy \<le> 365" "doy = 365 \<Longrightarrow> r = 3"
    using d s y(2,3) by linarith+
  moreover have "0 \<le> y" "y \<le> 198" using s assms by linarith+
  ultimately obtain n mon d where ex: "n < 200" "valid_date (1900 + int n) mon d" "2 \<le> mon \<or> 0 < n"
      "march_year n mon = y" "march_day mon d = doy"
    using march_date_exists [of y doy] unfolding r_def by blast
  then have "day_number n mon d = mjd"
    by (simp add: day_number_march_day doy_def)
  with ex show ?thesis by blast
qed

lemma day_number_range:
  assumes "n < 138" and "valid_date (1900 + int n) mon d" and "2 \<le> mon \<or> 0 < n"
  shows "0 \<le> day_number n mon d \<and> day_number n mon d < 65536"
proof -
  have "n < 200" using assms(1) by simp
  note day = day_number_march_day [OF this assms(2,3)]
  have "0 \<le> march_year n mon" "march_year n mon \<le> 137" using assms(1,3) by (auto simp: march_year_def)
  moreover from this have "0 \<le> march_year n mon div 4" "march_year n mon div 4 \<le> 34" by linarith+
  ultimately show ?thesis
    unfolding day using march_day_bounds [OF \<open>n < 200\<close> assms(2)] by linarith
qed

section \<open>Properties\<close>

text \<open>Decoding a date: from 1 March 1900 on, the broken-down time handed to \<^verbatim>\<open>mktime\<close> is the
  valid calendar date whose day number is the stored one.\<close>

theorem tfdt_calendar:
  assumes "15079 \<le> uint (get_u16 dt a)" and "\<not> (get_u16 dt a = 0xffff \<and> dt (a + 2) = 0xff \<and> dt (a + 3) = 0xff \<and> dt (a + 4) = 0xff)"
  shows "\<exists>n mon d. valid_date (1900 + int n) mon d \<and> day_number n mon d = uint (get_u16 dt a)
    \<and> tfdt_to_time os dt a = os_mktime os \<lparr>tm_sec = uint (dt (a + 4)), tm_min = uint (dt (a + 3)), tm_hour = uint (dt (a + 2)),
        tm_mday = d, tm_mon = int mon, tm_year = int n, tm_wday = 0, tm_yday = 0, tm_isdst = -1\<rparr>"
proof -
  have "uint (get_u16 dt a) < 65536" using unsigned_less [of "get_u16 dt a", where ?'a = int] by simp
  with date_exists [OF assms(1)] obtain n mon d where day: "n < 200" "valid_date (1900 + int n) mon d" "2 \<le> mon \<or> 0 < n"
    "day_number n mon d = uint (get_u16 dt a)" by auto
  then have date: "mjd_date (uint (get_u16 dt a)) = (int n, int mon, d)"
    using decode_day_number [OF day(1-3)] by simp
  have "uint (get_u16 dt a) = 0xffff \<longleftrightarrow> get_u16 dt a = 0xffff"
    by (simp add: word_uint_eq_iff)
  with assms(2) day(2,4) show ?thesis
    by (auto simp: tfdt_to_time_def Let_def date)
qed

lemma tfdt_inverse:
  assumes "os_localtime os t = Some tm" and "os_mktime os (tm\<lparr>tm_wday := 0, tm_yday := 0, tm_isdst := -1\<rparr>) = t"
    and "tm_year tm = int n" and "n < 138" and "tm_mon tm = int mon" and "2 \<le> mon \<or> 0 < n"
    and "valid_date (1900 + int n) mon (tm_mday tm)"
    and "tm_hour tm \<in> {0..23}" and "tm_min tm \<in> {0..59}" and "tm_sec tm \<in> {0..60}"
  shows "\<exists>dt'. time_to_tfdt os t dt a = Some dt' \<and> tfdt_to_time os dt' a = t
    \<and> uint (get_u16 dt' a) = day_number n mon (tm_mday tm) \<and> (\<forall>i. i < a \<or> a + 5 \<le> i \<longrightarrow> dt' i = dt i)"
proof -
  let ?day = "day_number n mon (tm_mday tm)"
  have n: "n < 200" using assms(4) by simp
  define dt1 where "dt1 = put_u16 dt a (word_of_int ?day)"
  define dt' where "dt' = dt1(a + 2 := word_of_int (tm_hour tm), a + 3 := word_of_int (tm_min tm), a + 4 := word_of_int (tm_sec tm))"
  have run: "time_to_tfdt os t dt a = Some dt'"
    using encode_day_number [OF n assms(7,6)] assms(1,3,5) by (simp add: time_to_tfdt_def dt'_def dt1_def)
  have "get_u16 dt' a = get_u16 dt1 a" by (simp add: get_u16_def dt'_def)
  also have "\<dots> = word_of_int ?day" by (simp add: dt1_def field_u16.get_put)
  finally have mjd: "uint (get_u16 dt' a) = ?day"
    using day_number_range [OF assms(4,7,6)] by (simp add: uint_word_of_int take_bit_int_eq_self)
  have hms: "uint (dt' (a + 2)) = tm_hour tm" "uint (dt' (a + 3)) = tm_min tm" "uint (dt' (a + 4)) = tm_sec tm"
    using assms(8-10) by (simp_all add: dt'_def uint_word_of_int take_bit_int_eq_self)
  then have "dt' (a + 2) \<noteq> 0xff" using assms(8) by auto
  then have "tfdt_to_time os dt' a = os_mktime os \<lparr>tm_sec = tm_sec tm, tm_min = tm_min tm, tm_hour = tm_hour tm,
      tm_mday = tm_mday tm, tm_mon = int mon, tm_year = int n, tm_wday = 0, tm_yday = 0, tm_isdst = -1\<rparr>"
    using decode_day_number [OF n assms(7,6)] unfolding tfdt_to_time_def Let_def mjd hms by simp
  also have "\<lparr>tm_sec = tm_sec tm, tm_min = tm_min tm, tm_hour = tm_hour tm,
      tm_mday = tm_mday tm, tm_mon = int mon, tm_year = int n, tm_wday = 0, tm_yday = 0, tm_isdst = -1\<rparr>
      = tm\<lparr>tm_wday := 0, tm_yday := 0, tm_isdst := -1\<rparr>"
    using assms(3,5) by (cases tm) simp
  finally have "tfdt_to_time os dt' a = t" using assms(2) by simp
  moreover have "\<forall>i. i < a \<or> a + 5 \<le> i \<longrightarrow> dt' i = dt i"
    by (auto simp: dt'_def dt1_def put_u16_store store_other)
  ultimately show ?thesis using run mjd by blast
qed

text \<open>C36. A time survives the conversion to the device's format and back, with the day number of
  its calendar date stored, for every date from March 1900 to the end of 2037; the bytes around the
  structure are untouched.\<close>

theorem tfdt_roundtrip:
  assumes "os_localtime os t = Some tm" and "os_mktime os (tm\<lparr>tm_wday := 0, tm_yday := 0, tm_isdst := -1\<rparr>) = t"
    and "tm_year tm = int n" and "n < 138" and "tm_mon tm = int mon" and "2 \<le> mon \<or> 0 < n"
    and "valid_date (1900 + int n) mon (tm_mday tm)"
    and "tm_hour tm \<in> {0..23}" and "tm_min tm \<in> {0..59}" and "tm_sec tm \<in> {0..60}"
  shows "\<exists>dt'. time_to_tfdt os t dt a = Some dt' \<and> tfdt_to_time os dt' a = t
    \<and> uint (get_u16 dt' a) = day_number n mon (tm_mday tm) \<and> (\<forall>i. i < a \<or> a + 5 \<le> i \<longrightarrow> dt' i = dt i)"
  using assms by (rule tfdt_inverse)

theorem tfdt_roundtrip_witness:
  "\<exists>dt'. time_to_tfdt script_os 106001 (\<lambda>i. 0) 0 = Some dt' \<and> tfdt_to_time script_os dt' 0 = 106001
    \<and> uint (get_u16 dt' 0) = 53736"
proof -
  let ?tm = "\<lparr>tm_sec = 0, tm_min = 0, tm_hour = 0, tm_mday = 1, tm_mon = 0, tm_year = 106,
       tm_wday = 0, tm_yday = 0, tm_isdst = 0\<rparr> :: tm"
  have local: "os_localtime script_os 106001 = Some ?tm"
    and mk: "os_mktime script_os (?tm\<lparr>tm_wday := 0, tm_yday := 0, tm_isdst := -1\<rparr>) = 106001"
    by (simp_all add: script_os_def)
  have valid: "valid_date (1900 + int 106) 0 (tm_mday ?tm)"
    by (simp add: valid_date_def month_days_def)
  have "day_number 106 0 1 = 53736"
    by (simp add: day_number_def year_start_closed)
  then show ?thesis
    using tfdt_roundtrip [OF local mk _ _ _ _ valid, of "\<lambda>i. 0" 0] by auto
qed

theorem tfdt_calendar_witness:
  "\<exists>n mon d. valid_date (1900 + int n) mon d \<and> day_number n mon d = 53736
    \<and> tfdt_to_time script_os (store (\<lambda>i. 0) 0 [0xD1, 0xE8]) 0 = int n * 1000 + int mon * 50 + d"
proof -
  have "get_u16 (store (\<lambda>i. 0) 0 [0xD1, 0xE8]) 0 = 53736"
    by (simp add: get_u16_def store_def)
  then show ?thesis
    using tfdt_calendar [of "store (\<lambda>i. 0) 0 [0xD1, 0xE8]" 0 script_os]
    by (auto simp: script_os_def)
qed

end
