(* ===== verification/Tf_Dir.thy ===== *)
theory Tf_Dir
  imports Tf_Command Mjd
begin

text \<open>
  Directory listings: \<^verbatim>\<open>unpack_dirent\<close>, \<^verbatim>\<open>get_dirents\<close> and \<^verbatim>\<open>tf_cmd_dir_first\<close>, \<^verbatim>\<open>tf_cmd_dir_next\<close>,
  \<^verbatim>\<open>tf_cmd_dir_cancel\<close> of \<^verbatim>\<open>tf_io.c\<close>, and \<^verbatim>\<open>tf_stat\<close> of \<^verbatim>\<open>tf_util.c\<close>. A \<^verbatim>\<open>tf_typefile_t\<close> is a packed
  structure of 114 bytes of the packet buffer: the time stamp at offset 0, the file type at 5,
  the size at 6, the name of 95 bytes at 14, an unused byte at 109 and the attributes at 110.
\<close>

section \<open>Definitions\<close>

abbreviation (input) TYPE_DIR :: u8 where "TYPE_DIR \<equiv> 1"
abbreviation (input) TYPE_FILE :: u8 where "TYPE_FILE \<equiv> 2"
abbreviation (input) MAX_DIR_ENTRIES :: nat where "MAX_DIR_ENTRIES \<equiv> 595"
abbreviation (input) sizeof_typefile :: nat where "sizeof_typefile \<equiv> 114"
abbreviation (input) NAME_SIZE :: nat where "NAME_SIZE \<equiv> 95"

record tf_dirent =
  d_stamp :: int
  d_type :: char
  d_size :: u64
  d_name :: string
  d_attrib :: u32

record tf_dir_entries =
  count :: int
  entry :: "tf_dirent list"

text \<open>The C string in a list of bytes: the characters before the first null byte.\<close>

fun c_string :: "u8 list \<Rightarrow> string option" where
  "c_string [] = None"
| "c_string (b # bs) = (if b = 0 then Some [] else map_option (Cons (char_of (unat b))) (c_string bs))"

text \<open>The \<^verbatim>\<open>strcpy\<close> into the name of 95 bytes is undefined when the source has no terminator there.\<close>

definition unpack_dirent :: "'w os \<Rightarrow> mem \<Rightarrow> nat \<Rightarrow> tf_dirent option" where
  "unpack_dirent os m a = do {
     name \<leftarrow> c_string (bytes_at m (a + 14) NAME_SIZE);
     Some \<lparr>d_stamp = tfdt_to_time os m a,
           d_type = (if m (a + 5) = TYPE_DIR then CHR ''d'' else CHR ''f''),
           d_size = get_u64 m (a + 6),
           d_name = name,
           d_attrib = ucast (get_u16 m (a + 110))\<rparr>
   }"

text \<open>The loop of \<^verbatim>\<open>get_dirents\<close> over the entries of a reply, from index \<open>i\<close> on.\<close>

function unpack_entries :: "'w os \<Rightarrow> mem \<Rightarrow> nat \<Rightarrow> tf_dir_entries \<Rightarrow> tf_dir_entries option" where
  "unpack_entries os reply i result =
     (if int i < count result then
        if i < length (entry result) \<and> 8 + sizeof_typefile * (i + 1) \<le> sizeof_packet then do {
          d \<leftarrow> unpack_dirent os reply (8 + sizeof_typefile * i);
          unpack_entries os reply (i + 1) (result\<lparr>entry := (entry result)[i := d]\<rparr>)
        }
        else None
      else Some result)"
  by pat_completeness auto
termination
  by (relation "measure (\<lambda>(os, reply, i, result). length (entry result) - i)") auto

declare unpack_entries.simps [simp del]

definition dirent_count :: "u16 \<Rightarrow> int" where
  "dirent_count len = c_int (((uint len - 8) mod 2 ^ 64) div 114)"

definition get_dirents ::
  "'w os \<Rightarrow> tf_handle \<Rightarrow> tf_dir_entries \<Rightarrow> 'w sys \<Rightarrow> (int \<times> tf_dir_entries \<times> tf_handle \<times> 'w sys) option" where
  "get_dirents os tf result s = do {
     (ret, reply, tf, s) \<leftarrow> tf_get_response os tf (os_junk os ''reply'' (world s)) s;
     (if ret = 0 then
        if reply_cmd reply = TF_MSG_HDD_DIRENT then do {
          result \<leftarrow> unpack_entries os reply 0 (result\<lparr>count := dirent_count (reply_length reply)\<rparr>);
          Some (ret, result, tf, s)
        }
        else if reply_cmd reply = TF_MSG_HDD_DIREND then do {
          (_, tf, s) \<leftarrow> tf_send_success os tf s;
          Some (TF_ERR_DONE, result, tf, s)
        }
        else Some (TF_ERR_UNEXPECTED, result, tf, s)
      else Some (ret, result, tf, s))
   }"

definition tf_cmd_dir_first ::
  "'w os \<Rightarrow> tf_handle \<Rightarrow> string \<Rightarrow> tf_dir_entries \<Rightarrow> 'w sys \<Rightarrow> (int \<times> tf_dir_entries \<times> tf_handle \<times> 'w sys) option" where
  "tf_cmd_dir_first os tf path result s = do {
     let req = tf_req_init (os_junk os ''req'' (world s)) TF_MSG_HDD_DIR;
     req \<leftarrow> tf_req_putfilename req path False;
     (req, s) \<leftarrow> tf_req_done os tf req s;
     let (ret, tf, s) = tf_send os tf req s;
     (if ret = 0 then get_dirents os tf result s else Some (ret, result, tf, s))
   }"

definition tf_cmd_dir_next ::
  "'w os \<Rightarrow> tf_handle \<Rightarrow> tf_dir_entries \<Rightarrow> 'w sys \<Rightarrow> (int \<times> tf_dir_entries \<times> tf_handle \<times> 'w sys) option" where
  "tf_cmd_dir_next os tf result s = do {
     (ret, tf, s) \<leftarrow> tf_send_success os tf s;
     (if ret = 0 then get_dirents os tf result s else Some (ret, result, tf, s))
   }"

definition tf_cmd_dir_cancel :: "'w os \<Rightarrow> tf_handle \<Rightarrow> 'w sys \<Rightarrow> (int \<times> tf_handle \<times> 'w sys) option" where
  "tf_cmd_dir_cancel os tf s = tf_cmd_cancel os tf s"

text \<open>The loops of \<^verbatim>\<open>tf_stat\<close>: the search in the entries at hand, and the pages of the listing. The
  outer loop ends only if the device ends the listing, so not returning is also \<open>None\<close>.\<close>

function find_entry :: "tf_dir_entries \<Rightarrow> string \<Rightarrow> nat \<Rightarrow> tf_dirent option" where
  "find_entry entries path i =
     (if int i < count entries then
        if d_name (entry entries ! i) = path then Some (entry entries ! i)
        else find_entry entries path (i + 1)
      else None)"
  by pat_completeness auto
termination
  by (relation "measure (\<lambda>(entries, path, i). nat (count entries) - i)") auto

declare find_entry.simps [simp del]

partial_function (option) stat_loop ::
  "'w os \<Rightarrow> tf_handle \<Rightarrow> string \<Rightarrow> tf_dir_entries \<Rightarrow> tf_dirent \<Rightarrow> 'w sys \<Rightarrow> (int \<times> tf_dirent \<times> tf_handle \<times> 'w sys) option" where
  [code]: "stat_loop os tf path entries dirent s =
     (case find_entry entries path 0 of
        Some d \<Rightarrow> Option.bind (tf_cmd_dir_cancel os tf s) (\<lambda>(_, tf, s). Some (0, d, tf, s))
      | None \<Rightarrow> Option.bind (tf_cmd_dir_next os tf entries s) (\<lambda>(ret, entries, tf, s).
          if ret = 0 then stat_loop os tf path entries dirent s else Some (1, dirent, tf, s)))"

text \<open>\<^verbatim>\<open>strrchr(path, '/')\<close> as an index.\<close>

fun last_slash :: "string \<Rightarrow> nat option" where
  "last_slash [] = None"
| "last_slash (c # cs) = (case last_slash cs of
      Some i \<Rightarrow> Some (Suc i) | None \<Rightarrow> if c = CHR ''/'' then Some 0 else None)"

text \<open>The argument \<open>entries\<close> is the initial contents of the automatic variable.\<close>

definition tf_stat ::
  "'w os \<Rightarrow> tf_handle \<Rightarrow> string \<Rightarrow> tf_dir_entries \<Rightarrow> tf_dirent \<Rightarrow> 'w sys \<Rightarrow> (int \<times> tf_dirent \<times> tf_handle \<times> 'w sys) option" where
  "tf_stat os tf path entries dirent s =
     (if path = ''/'' then
        Some (0, \<lparr>d_stamp = 0, d_type = CHR ''d'', d_size = 0, d_name = ''/'', d_attrib = 0\<rparr>, tf, s)
      else case last_slash path of
        None \<Rightarrow> Some (1, dirent, tf, fprint stderr (''Directory '' @ [CHR 0x27] @ path @ [CHR 0x27] @ '' has no parent'' @ newline) s)
      | Some pt \<Rightarrow> do {
          let parent = (if pt = 0 then ''/'' else take pt path);
          let path = drop (pt + 1) path;
          (ret, entries, tf, s) \<leftarrow> tf_cmd_dir_first os tf parent entries s;
          (if ret \<noteq> 0
           then Some (1, dirent, tf, fprint stderr (''parent dir_first failed for '' @ [CHR 0x27] @ parent @ [CHR 0x27] @ newline) s)
           else stat_loop os tf path entries dirent s)
        })"

text \<open>
  Specification. A directory entry as the device stores it, its encoding in 114 bytes, and the
  entry that the library makes of it: of the 32 attribute bits it reads the upper 16.
\<close>

record typefile =
  t_stamp :: "u8 list"
  t_filetype :: u8
  t_size :: u64
  t_name :: string
  t_attrib :: u32

definition wf_typefile :: "typefile \<Rightarrow> bool" where
  "wf_typefile e \<longleftrightarrow> length (t_stamp e) = 5 \<and> length (t_name e) < NAME_SIZE \<and> CHR 0x00 \<notin> set (t_name e)"

definition enc_name :: "string \<Rightarrow> u8 list" where
  "enc_name name = map of_char name @ replicate (NAME_SIZE - length name) 0"

definition enc_typefile :: "typefile \<Rightarrow> u8 list" where
  "enc_typefile e = t_stamp e @ [t_filetype e] @ be64 (t_size e) @ enc_name (t_name e) @ [0] @ be32 (t_attrib e)"

definition dirent_of :: "'w os \<Rightarrow> typefile \<Rightarrow> tf_dirent" where
  "dirent_of os e = \<lparr>d_stamp = tfdt_to_time os (store (\<lambda>i. 0) 0 (t_stamp e)) 0,
     d_type = (if t_filetype e = TYPE_DIR then CHR ''d'' else CHR ''f''),
     d_size = t_size e, d_name = t_name e, d_attrib = drop_bit 16 (t_attrib e)\<rparr>"

section \<open>Unpacking an entry\<close>

lemma length_enc_typefile: "wf_typefile e \<Longrightarrow> length (enc_typefile e) = sizeof_typefile"
  by (simp add: wf_typefile_def enc_typefile_def enc_name_def)

lemma unat_of_char: "unat (of_char c :: u8) = of_char c"
proof -
  have "(of_char c :: u8) = of_nat (of_char c)" by (simp add: of_nat_of_char)
  then show ?thesis by (simp add: unat_of_nat)
qed

lemma of_char_eq_0: "(of_char c :: u8) = 0 \<longleftrightarrow> c = CHR 0x00"
proof
  assume "(of_char c :: u8) = 0"
  then have "(of_char c :: nat) = of_char (CHR 0x00)" using unat_of_char [of c] by simp
  then show "c = CHR 0x00" by (metis char_of_char)
qed simp

lemma c_string_enc: "CHR 0x00 \<notin> set name \<Longrightarrow> 0 < k \<Longrightarrow> c_string (map of_char name @ replicate k 0) = Some name"
proof (induction name)
  case Nil
  then show ?case by (cases k) auto
qed (auto simp: of_char_eq_0 unat_of_char)

lemma tfdt_to_time_cong:
  assumes "bytes_at m a 5 = bytes_at m' b 5"
  shows "tfdt_to_time os m a = tfdt_to_time os m' b"
proof -
  have "m (a + i) = m' (b + i)" if "i < 5" for i
    using that assms by (metis nth_bytes_at)
  from this [of 0] this [of 1] this [of 2] this [of 3] this [of 4]
  have b: "m a = m' b" "m (a + 1) = m' (b + 1)" "m (a + 2) = m' (b + 2)" "m (a + 3) = m' (b + 3)" "m (a + 4) = m' (b + 4)"
    by simp_all
  have "get_u16 m a = get_u16 m' b" using b(1,2) by (rule get_u16_cong)
  then show ?thesis
    unfolding tfdt_to_time_def b(3-5) by simp
qed

lemma get_u16_be32:
  assumes "bytes_at m a 4 = be32 v"
  shows "ucast (get_u16 m a) = drop_bit 16 v"
proof -
  have "bytes_at m a 2 = be16 (ucast (drop_bit 16 v))"
    using assms by (auto simp: bytes_at_fields be32_def be16_def bit_simps intro!: bit_word_eqI)
  then have "get_u16 m a = ucast (drop_bit 16 v)" by (rule get_u16_bytes_at)
  moreover have "n < 16" if "bit v (16 + n)" for n
    using bit_imp_le_length [OF that] by simp
  ultimately show ?thesis by (auto intro!: bit_word_eqI simp: bit_simps)
qed

lemma typefile_fields:
  assumes "wf_typefile e" and "bytes_at m a sizeof_typefile = enc_typefile e"
  shows "bytes_at m a 5 = t_stamp e" and "m (a + 5) = t_filetype e" and "bytes_at m (a + 6) 8 = be64 (t_size e)"
    and "bytes_at m (a + 14) NAME_SIZE = enc_name (t_name e)" and "bytes_at m (a + 110) 4 = be32 (t_attrib e)"
proof -
  have "bytes_at m a (5 + (1 + (8 + (NAME_SIZE + (1 + 4))))) = enc_typefile e"
    using assms(2) by simp
  then have "bytes_at m a 5 @ bytes_at m (a + 5) 1 @ bytes_at m (a + 6) 8 @ bytes_at m (a + 14) NAME_SIZE
      @ bytes_at m (a + 109) 1 @ bytes_at m (a + 110) 4
      = t_stamp e @ [t_filetype e] @ be64 (t_size e) @ enc_name (t_name e) @ [0] @ be32 (t_attrib e)"
    unfolding bytes_at_append enc_typefile_def by (simp add: ac_simps)
  moreover have "length (t_stamp e) = 5" "length (enc_name (t_name e)) = NAME_SIZE"
    using assms(1) by (simp_all add: wf_typefile_def enc_name_def)
  ultimately show "bytes_at m a 5 = t_stamp e" "m (a + 5) = t_filetype e" "bytes_at m (a + 6) 8 = be64 (t_size e)"
    "bytes_at m (a + 14) NAME_SIZE = enc_name (t_name e)" "bytes_at m (a + 110) 4 = be32 (t_attrib e)"
    by (auto simp: append_eq_append_conv bytes_at_Suc)
qed

lemma unpack_enc:
  assumes "wf_typefile e" and "bytes_at m a sizeof_typefile = enc_typefile e"
  shows "unpack_dirent os m a = Some (dirent_of os e)"
proof -
  note f = typefile_fields [OF assms]
  have "bytes_at (store (\<lambda>i. 0) 0 (t_stamp e)) 0 5 = t_stamp e"
    using assms(1) by (intro bytes_at_store_same) (simp add: wf_typefile_def)
  with f(1) have "tfdt_to_time os m a = tfdt_to_time os (store (\<lambda>i. 0) 0 (t_stamp e)) 0"
    by (intro tfdt_to_time_cong) simp
  moreover have "c_string (enc_name (t_name e)) = Some (t_name e)"
    using assms(1) unfolding enc_name_def by (intro c_string_enc) (auto simp: wf_typefile_def)
  moreover have "get_u64 m (a + 6) = t_size e" using f(3) by (rule field_u64.get_enc)
  moreover have "ucast (get_u16 m (a + 110)) = drop_bit 16 (t_attrib e)" using f(5) by (rule get_u16_be32)
  ultimately show ?thesis
    using f(2,4) by (simp add: unpack_dirent_def dirent_of_def)
qed

section \<open>Unpacking a page\<close>

lemma dirent_count_le:
  "uint len \<ge> 8 \<Longrightarrow> dirent_count len = (uint len - 8) div 114 \<and> 0 \<le> dirent_count len \<and> dirent_count len \<le> 574"
proof -
  assume ge: "uint len \<ge> 8"
  have lt: "uint len < 65536" using unsigned_less [of len, where ?'a = int] by simp
  have q: "0 \<le> (uint len - 8) div 114" "(uint len - 8) div 114 \<le> 574"
    using ge lt by (auto intro: pos_imp_zdiv_nonneg_iff [THEN iffD2])
  moreover have "(uint len - 8) mod 2 ^ 64 = uint len - 8" using ge lt by simp
  moreover have "signed_take_bit 31 ((uint len - 8) div 114) = (uint len - 8) div 114"
    using q by (intro signed_take_bit_int_eq_self) auto
  ultimately show ?thesis by (simp add: dirent_count_def c_int_def)
qed

text \<open>A page of entries \<open>es\<close> in an array of entries, from index \<open>i\<close> on.\<close>

lemma unpack_entries_page:
  assumes "bytes_at m (8 + sizeof_typefile * i) (sizeof_typefile * length es) = concat (map enc_typefile es)"
    and "\<forall>e \<in> set es. wf_typefile e" and "i + length es \<le> 574" and "length (entry r) = MAX_DIR_ENTRIES"
    and "count r = int (i + length es)"
  shows "unpack_entries os m i r = Some (r\<lparr>entry := take i (entry r) @ map (dirent_of os) es @ drop (i + length es) (entry r)\<rparr>)"
  using assms
proof (induction es arbitrary: i r)
  case Nil
  then show ?case by (subst unpack_entries.simps) simp
next
  case (Cons e es)
  let ?a = "8 + sizeof_typefile * i"
  let ?r = "r\<lparr>entry := (entry r)[i := dirent_of os e]\<rparr>"
  have split: "bytes_at m ?a (sizeof_typefile * length (e # es))
      = bytes_at m ?a sizeof_typefile @ bytes_at m (8 + sizeof_typefile * (i + 1)) (sizeof_typefile * length es)"
    using bytes_at_append [of m ?a sizeof_typefile "sizeof_typefile * length es"] by (simp add: algebra_simps)
  have "wf_typefile e" using Cons.prems(2) by simp
  with Cons.prems(1) split have here: "bytes_at m ?a sizeof_typefile = enc_typefile e"
    and rest: "bytes_at m (8 + sizeof_typefile * (i + 1)) (sizeof_typefile * length es) = concat (map enc_typefile es)"
    by (auto simp: length_enc_typefile append_eq_append_conv)
  have IH: "unpack_entries os m (i + 1) ?r
      = Some (?r\<lparr>entry := take (i + 1) (entry ?r) @ map (dirent_of os) es @ drop (i + 1 + length es) (entry ?r)\<rparr>)"
    using Cons.prems(2-5) by (intro Cons.IH rest) auto
  have list: "take (i + 1) (entry ?r) @ map (dirent_of os) es @ drop (i + 1 + length es) (entry ?r)
      = take i (entry r) @ map (dirent_of os) (e # es) @ drop (i + length (e # es)) (entry r)"
    using Cons.prems(3,4) by (simp add: take_Suc_conv_app_nth)
  have "int i < count r" "i < length (entry r) \<and> 8 + sizeof_typefile * (i + 1) \<le> sizeof_packet"
    using Cons.prems(3-5) by simp_all
  then have "unpack_entries os m i r = unpack_entries os m (i + 1) ?r"
    using unpack_enc [OF \<open>wf_typefile e\<close> here, of os] by (subst unpack_entries.simps) simp
  then show ?case unfolding IH list by simp
qed

text \<open>The entries of a page after it has been unpacked into the caller's array.\<close>

definition page_entries :: "'w os \<Rightarrow> typefile list \<Rightarrow> tf_dir_entries \<Rightarrow> tf_dir_entries" where
  "page_entries os es r = r\<lparr>count := int (length es), entry := map (dirent_of os) es @ drop (length es) (entry r)\<rparr>"

definition enc_page :: "typefile list \<Rightarrow> u8 list" where
  "enc_page es = concat (map enc_typefile es)"

definition wf_page :: "typefile list \<Rightarrow> bool" where
  "wf_page es \<longleftrightarrow> (\<forall>e \<in> set es. wf_typefile e) \<and> length es \<le> 574"

lemma length_enc_page: "wf_page es \<Longrightarrow> length (enc_page es) = sizeof_typefile * length es"
proof -
  have "\<forall>e \<in> set es. wf_typefile e \<Longrightarrow> length (concat (map enc_typefile es)) = sizeof_typefile * length es"
    by (induction es) (auto simp: length_enc_typefile)
  then show "wf_page es \<Longrightarrow> ?thesis" by (simp add: wf_page_def enc_page_def)
qed

lemma holds_reply_page:
  assumes "holds_reply m TF_MSG_HDD_DIRENT (enc_page es)" and "wf_page es" and "length (entry r) = MAX_DIR_ENTRIES"
  shows "unpack_entries os m 0 (r\<lparr>count := dirent_count (reply_length m)\<rparr>) = Some (page_entries os es r)"
proof -
  have len: "uint (reply_length m) = 8 + 114 * int (length es)"
    using holds_reply_length [OF assms(1)] length_enc_page [OF assms(2)]
    by (simp add: uint_nat)
  then have "dirent_count (reply_length m) = int (length es)"
    using dirent_count_le [of "reply_length m"] by simp
  moreover have "bytes_at m 8 (sizeof_typefile * length es) = concat (map enc_typefile es)"
    using assms(1) length_enc_page [OF assms(2)] by (simp add: holds_reply_def enc_page_def)
  ultimately show ?thesis
    using unpack_entries_page [of m 0 es "r\<lparr>count := int (length es)\<rparr>" os] assms(2,3)
    by (simp add: wf_page_def page_entries_def)
qed

section \<open>Pages of a listing\<close>

lemma get_dirents_page:
  assumes "dev tf = Some fd" and "receives os fd (timeout tf) s TF_MSG_HDD_DIRENT (enc_page es) s1"
    and "wf_page es" and "length (entry r) = MAX_DIR_ENTRIES"
  shows "\<exists>s'. get_dirents os tf r s = Some (0, page_entries os es r, tf\<lparr>error := 0\<rparr>, s') \<and> world s' = world s1"
proof -
  obtain m s' where g: "tf_get_response os tf (os_junk os ''reply'' (world s)) s = Some (0, m, tf\<lparr>error := 0\<rparr>, s')"
    and w: "world s' = world s1" and h: "holds_reply m TF_MSG_HDD_DIRENT (enc_page es)"
    using get_response_holds [OF assms(1,2)] by blast
  have "reply_cmd m = TF_MSG_HDD_DIRENT" using h by (simp add: holds_reply_def)
  with g w holds_reply_page [OF h assms(3,4), of os] show ?thesis
    by (simp add: get_dirents_def)
qed

lemma get_dirents_end:
  assumes "dev tf = Some fd" and "trace_level tf > 0 \<longrightarrow> tracefh tf \<noteq> None"
    and "receives os fd (timeout tf) s TF_MSG_HDD_DIREND q s1" and "takes os fd (timeout tf) (world s1) TF_MSG_SUCCESS [] W"
  shows "\<exists>s'. get_dirents os tf r s = Some (TF_ERR_DONE, r, tf\<lparr>error := 0\<rparr>, s') \<and> W s'"
proof -
  obtain m s2 where g: "tf_get_response os tf (os_junk os ''reply'' (world s)) s = Some (0, m, tf\<lparr>error := 0\<rparr>, s2)"
    and w: "world s2 = world s1" and h: "holds_reply m TF_MSG_HDD_DIREND q"
    using get_response_holds [OF assms(1,3)] by blast
  obtain s3 where "tf_send_success os (tf\<lparr>error := 0\<rparr>) s2 = Some (0, tf\<lparr>error := 0\<rparr>, s3)" "W s3"
    using send_success_sent [of "tf\<lparr>error := 0\<rparr>" fd os s2 W] assms(1,2,4) w by auto
  moreover have "reply_cmd m = TF_MSG_HDD_DIREND" using h by (simp add: holds_reply_def)
  ultimately show ?thesis using g by (simp add: get_dirents_def)
qed

lemma dir_first_reply:
  assumes "dev tf = Some fd" and "length path \<le> 65523"
    and "answers os fd (timeout tf) (timeout tf) (world s) TF_MSG_HDD_DIR (enc_filename 0 path False) cmd q W"
  shows "\<exists>s1 s2. tf_cmd_dir_first os tf path r s = get_dirents os (tf\<lparr>error := 0\<rparr>) r s1
    \<and> receives os fd (timeout tf) s1 cmd q s2 \<and> W (world s2)"
proof -
  have "8 + length (enc_filename 0 path False) \<le> 65535"
    using assms(2) enc_filename_le [of 0 path False] by simp
  then obtain req where req: "tf_req_putfilename (tf_req_init (os_junk os ''req'' (world s)) TF_MSG_HDD_DIR) path False = Some req"
    and b: "building req TF_MSG_HDD_DIR (enc_filename 0 path False)"
    using putfilename_init by blast
  from request_reply [OF assms(1) b assms(3)] req show ?thesis
    by (auto simp: tf_cmd_dir_first_def Let_def)
qed

lemma dir_next_reply:
  assumes "dev tf = Some fd" and "trace_level tf > 0 \<longrightarrow> tracefh tf \<noteq> None"
    and "answers os fd (timeout tf) (timeout tf) (world s) TF_MSG_SUCCESS [] cmd q W"
  shows "\<exists>s1 s2. tf_cmd_dir_next os tf r s = get_dirents os (tf\<lparr>error := 0\<rparr>) r s1
    \<and> receives os fd (timeout tf) s1 cmd q s2 \<and> W (world s2)"
  using send_success_reply [OF assms] by (auto simp: tf_cmd_dir_next_def)

text \<open>
  The device answers a request and the acknowledgements that follow with pages of entries, and
  behaves as \<open>K\<close> says for the next request.
\<close>

fun pages_then ::
  "'w os \<Rightarrow> int \<Rightarrow> int \<Rightarrow> 'w \<Rightarrow> u32 \<Rightarrow> u8 list \<Rightarrow> typefile list list \<Rightarrow> ('w \<Rightarrow> u32 \<Rightarrow> u8 list \<Rightarrow> bool) \<Rightarrow> bool" where
  "pages_then os fd t w c p [] K = K w c p"
| "pages_then os fd t w c p (es # pages) K =
     answers os fd t t w c p TF_MSG_HDD_DIRENT (enc_page es) (\<lambda>w1. pages_then os fd t w1 TF_MSG_SUCCESS [] pages K)"

text \<open>The end of a listing: DIREND, acknowledged with SUCCESS.\<close>

definition listing_ends :: "'w os \<Rightarrow> int \<Rightarrow> int \<Rightarrow> ('w \<Rightarrow> bool) \<Rightarrow> 'w \<Rightarrow> u32 \<Rightarrow> u8 list \<Rightarrow> bool" where
  "listing_ends os fd t W w c p \<longleftrightarrow>
     answers os fd t t w c p TF_MSG_HDD_DIREND [] (\<lambda>w1. takes os fd t w1 TF_MSG_SUCCESS [] (\<lambda>s. W (world s)))"

definition find_page :: "'w os \<Rightarrow> typefile list \<Rightarrow> string \<Rightarrow> tf_dirent option" where
  "find_page os es name = find (\<lambda>d. d_name d = name) (map (dirent_of os) es)"

lemma find_entry_drop:
  assumes "i + length ds = length xs" and "drop i xs = ds" and "count r = int (length xs)" and "entry r = xs @ ys"
  shows "find_entry r path i = find (\<lambda>d. d_name d = path) ds"
  using assms
proof (induction ds arbitrary: i)
  case Nil
  then show ?case by (subst find_entry.simps) simp
next
  case (Cons d ds)
  have i: "i < length xs" using Cons.prems(1) by simp
  then have "xs ! i = d" and "drop (i + 1) xs = ds"
    using Cons.prems(2) by (metis Cons_nth_drop_Suc list.inject, metis Cons_nth_drop_Suc Suc_eq_plus1 list.inject)
  with i Cons.IH [of "i + 1"] Cons.prems(1,3,4) show ?case
    by (subst find_entry.simps) (simp add: nth_append)
qed

lemma find_entry_page: "find_entry (page_entries os es r) path 0 = find_page os es path"
  unfolding find_page_def
  by (rule find_entry_drop [where xs = "map (dirent_of os) es"]) (simp_all add: page_entries_def)

lemma length_page_entries:
  "wf_page es \<Longrightarrow> length (entry r) = MAX_DIR_ENTRIES \<Longrightarrow> length (entry (page_entries os es r)) = MAX_DIR_ENTRIES"
  by (simp add: page_entries_def wf_page_def)

lemma stat_loop_finds:
  assumes "dev tf = Some fd" and "trace_level tf > 0 \<longrightarrow> tracefh tf \<noteq> None"
    and "find_page os (last (es # pages)) name = Some d" and "\<forall>es \<in> set (butlast (es # pages)). find_page os es name = None"
    and "\<forall>es \<in> set (es # pages). wf_page es" and "length (entry r) = MAX_DIR_ENTRIES"
    and "pages_then os fd (timeout tf) (world s) c p pages
      (\<lambda>w _ _. answers os fd (timeout tf) (timeout tf) w TF_MSG_CANCEL [] cmd q W)" and "pages \<noteq> [] \<longrightarrow> c = TF_MSG_SUCCESS \<and> p = []"
  shows "\<exists>tf' s'. stat_loop os tf name (page_entries os es r) dirent s = Some (0, d, tf', s') \<and> W (world s')"
  using assms
proof (induction pages arbitrary: tf es r s c p)
  case Nil
  from Nil.prems(7) have "answers os fd (timeout tf) (timeout tf) (world s) TF_MSG_CANCEL [] cmd q W" by simp
  from cmd_cancel.exchange [OF _ Nil.prems(1) this] Nil.prems(3) show ?case
    by (subst stat_loop.simps) (auto simp: find_entry_page tf_cmd_dir_cancel_def)
next
  case (Cons es1 pages)
  have none: "find_page os es name = None" using Cons.prems(4) by simp
  have ans: "answers os fd (timeout tf) (timeout tf) (world s) TF_MSG_SUCCESS [] TF_MSG_HDD_DIRENT (enc_page es1)
      (\<lambda>w1. pages_then os fd (timeout tf) w1 TF_MSG_SUCCESS [] pages
        (\<lambda>w _ _. answers os fd (timeout tf) (timeout tf) w TF_MSG_CANCEL [] cmd q W))"
    using Cons.prems(7,8) by simp
  let ?tf = "tf\<lparr>error := 0\<rparr>" and ?r = "page_entries os es r"
  obtain s1 s2 where n: "tf_cmd_dir_next os tf ?r s = get_dirents os ?tf ?r s1"
    and rec: "receives os fd (timeout tf) s1 TF_MSG_HDD_DIRENT (enc_page es1) s2"
    and k: "pages_then os fd (timeout tf) (world s2) TF_MSG_SUCCESS [] pages
        (\<lambda>w _ _. answers os fd (timeout tf) (timeout tf) w TF_MSG_CANCEL [] cmd q W)"
    using dir_next_reply [OF Cons.prems(1,2) ans] by blast
  have wf: "wf_page es1" "length (entry ?r) = MAX_DIR_ENTRIES"
    using Cons.prems(5,6) by (simp_all add: length_page_entries)
  obtain s3 where g: "get_dirents os ?tf ?r s1 = Some (0, page_entries os es1 ?r, ?tf, s3)" and w: "world s3 = world s2"
    using get_dirents_page [of ?tf fd os s1 es1 s2 ?r] Cons.prems(1) rec wf by auto
  have "\<exists>tf' s'. stat_loop os ?tf name (page_entries os es1 ?r) dirent s3 = Some (0, d, tf', s') \<and> W (world s')"
    using Cons.prems(1-5) wf(2) k w by (intro Cons.IH [where c = TF_MSG_SUCCESS and p = "[]"]) auto
  with none n g show ?case
    by (subst stat_loop.simps) (auto simp: find_entry_page)
qed

lemma stat_loop_missing:
  assumes "dev tf = Some fd" and "trace_level tf > 0 \<longrightarrow> tracefh tf \<noteq> None"
    and "\<forall>es \<in> set (es # pages). find_page os es name = None \<and> wf_page es" and "length (entry r) = MAX_DIR_ENTRIES"
    and "pages_then os fd (timeout tf) (world s) TF_MSG_SUCCESS [] pages (listing_ends os fd (timeout tf) W)"
  shows "\<exists>tf' s'. stat_loop os tf name (page_entries os es r) dirent s = Some (1, dirent, tf', s') \<and> W (world s')"
  using assms
proof (induction pages arbitrary: tf es r s)
  case Nil
  let ?r = "page_entries os es r"
  from Nil.prems(5) have ans: "answers os fd (timeout tf) (timeout tf) (world s) TF_MSG_SUCCESS [] TF_MSG_HDD_DIREND []
      (\<lambda>w1. takes os fd (timeout tf) w1 TF_MSG_SUCCESS [] (\<lambda>s. W (world s)))"
    by (simp add: listing_ends_def)
  obtain s1 s2 where n: "tf_cmd_dir_next os tf ?r s = get_dirents os (tf\<lparr>error := 0\<rparr>) ?r s1"
    and rec: "receives os fd (timeout tf) s1 TF_MSG_HDD_DIREND [] s2"
    and k: "takes os fd (timeout tf) (world s2) TF_MSG_SUCCESS [] (\<lambda>s. W (world s))"
    using dir_next_reply [OF Nil.prems(1,2) ans] by blast
  obtain s3 where "get_dirents os (tf\<lparr>error := 0\<rparr>) ?r s1 = Some (1, ?r, tf\<lparr>error := 0\<rparr>, s3)" "W (world s3)"
    using get_dirents_end [of "tf\<lparr>error := 0\<rparr>" fd os s1 "[]" s2 "\<lambda>s. W (world s)" ?r] Nil.prems(1,2) rec k by auto
  with Nil.prems(3) n show ?case
    by (subst stat_loop.simps) (auto simp: find_entry_page)
next
  case (Cons es1 pages)
  let ?tf = "tf\<lparr>error := 0\<rparr>" and ?r = "page_entries os es r"
  have ans: "answers os fd (timeout tf) (timeout tf) (world s) TF_MSG_SUCCESS [] TF_MSG_HDD_DIRENT (enc_page es1)
      (\<lambda>w1. pages_then os fd (timeout tf) w1 TF_MSG_SUCCESS [] pages (listing_ends os fd (timeout tf) W))"
    using Cons.prems(5) by simp
  obtain s1 s2 where n: "tf_cmd_dir_next os tf ?r s = get_dirents os ?tf ?r s1"
    and rec: "receives os fd (timeout tf) s1 TF_MSG_HDD_DIRENT (enc_page es1) s2"
    and k: "pages_then os fd (timeout tf) (world s2) TF_MSG_SUCCESS [] pages (listing_ends os fd (timeout tf) W)"
    using dir_next_reply [OF Cons.prems(1,2) ans] by blast
  have wf: "wf_page es1" "length (entry ?r) = MAX_DIR_ENTRIES"
    using Cons.prems(3,4) by (simp_all add: length_page_entries)
  obtain s3 where g: "get_dirents os ?tf ?r s1 = Some (0, page_entries os es1 ?r, ?tf, s3)" and w: "world s3 = world s2"
    using get_dirents_page [of ?tf fd os s1 es1 s2 ?r] Cons.prems(1) rec wf by auto
  have "\<exists>tf' s'. stat_loop os ?tf name (page_entries os es1 ?r) dirent s3 = Some (1, dirent, tf', s') \<and> W (world s')"
    using Cons.prems(1-4) wf(2) k w by (intro Cons.IH) auto
  with Cons.prems(3) n g show ?case
    by (subst stat_loop.simps) (auto simp: find_entry_page)
qed

section \<open>Properties\<close>

lemma last_slash_append: "CHR ''/'' \<notin> set name \<Longrightarrow> last_slash (par @ CHR ''/'' # name) = Some (length par)"
proof -
  assume "CHR ''/'' \<notin> set name"
  then have "last_slash name = None" by (induction name) auto
  then show ?thesis by (induction par) auto
qed

definition script_entry :: typefile where
  "script_entry = \<lparr>t_stamp = [0xD1, 0xE8, 12, 30, 0], t_filetype = TYPE_FILE, t_size = 4096, t_name = ''A.rec'', t_attrib = 0\<rparr>"

lemma script_entry_page: "wf_page [script_entry]" "length (enc_page [script_entry]) = 114" "t_name script_entry = ''A.rec''"
  by (simp_all add: wf_page_def wf_typefile_def script_entry_def enc_page_def enc_typefile_def enc_name_def)

abbreviation (input) script_entries :: tf_dir_entries where
  "script_entries \<equiv> \<lparr>count = 0, entry = replicate MAX_DIR_ENTRIES \<lparr>d_stamp = 0, d_type = CHR ''f'', d_size = 0, d_name = [], d_attrib = 0\<rparr>\<rparr>"



text \<open>C14. \<^verbatim>\<open>tf_stat\<close> finds an entry of the parent directory on whatever page it is: the parent is
  listed, pages without the name are acknowledged, and on the first page that has it the entry
  is returned with result 0 and the listing is cancelled.\<close>

theorem stat_finds:
  assumes "dev tf = Some fd" and "trace_level tf > 0 \<longrightarrow> tracefh tf \<noteq> None"
    and "CHR ''/'' \<notin> set name" and "name \<noteq> []" and "length par \<le> 65523"
    and "find_page os (last (es # pages)) name = Some d" and "\<forall>es \<in> set (butlast (es # pages)). find_page os es name = None"
    and "\<forall>es \<in> set (es # pages). wf_page es" and "length (entry r) = MAX_DIR_ENTRIES"
    and "pages_then os fd (timeout tf) (world s) TF_MSG_HDD_DIR (enc_filename 0 (if par = [] then ''/'' else par) False) (es # pages)
      (\<lambda>w _ _. answers os fd (timeout tf) (timeout tf) w TF_MSG_CANCEL [] cmd q W)"
  shows "\<exists>tf' s'. tf_stat os tf (par @ ''/'' @ name) r dirent s = Some (0, d, tf', s') \<and> W (world s')"
proof -
  let ?par = "if par = [] then ''/'' else par" and ?tf = "tf\<lparr>error := 0\<rparr>"
  have len: "length ?par \<le> 65523" using assms(5) by auto
  obtain s1 s2 where f: "tf_cmd_dir_first os tf ?par r s = get_dirents os ?tf r s1"
    and rec: "receives os fd (timeout tf) s1 TF_MSG_HDD_DIRENT (enc_page es) s2"
    and k: "pages_then os fd (timeout tf) (world s2) TF_MSG_SUCCESS [] pages
      (\<lambda>w _ _. answers os fd (timeout tf) (timeout tf) w TF_MSG_CANCEL [] cmd q W)"
    using dir_first_reply [OF assms(1) len assms(10) [unfolded pages_then.simps]] by blast
  obtain s3 where g: "get_dirents os ?tf r s1 = Some (0, page_entries os es r, ?tf, s3)" and w: "world s3 = world s2"
    using get_dirents_page [of ?tf fd os s1 es s2 r] assms(1,8,9) rec by auto
  have "\<exists>tf' s'. stat_loop os ?tf name (page_entries os es r) dirent s3 = Some (0, d, tf', s') \<and> W (world s')"
    by (rule stat_loop_finds) (use assms k w in auto)
  with f g last_slash_append [OF assms(3), of par] assms(4) show ?thesis
    by (auto simp: tf_stat_def Let_def split: if_splits)
qed

theorem stat_finds_witness:
  "\<exists>tf' s'. tf_stat script_os script_handle ''/DataFiles/A.rec'' script_entries
      \<lparr>d_stamp = 0, d_type = CHR ''f'', d_size = 0, d_name = [], d_attrib = 0\<rparr>
      (script_sys [wire TF_MSG_HDD_DIRENT (enc_page []), wire TF_MSG_HDD_DIRENT (enc_page [script_entry]), wire TF_MSG_SUCCESS []])
      = Some (0, dirent_of script_os script_entry, tf', s') \<and> inbox (world s') = []"
proof -
  let ?s = "script_sys [wire TF_MSG_HDD_DIRENT (enc_page []), wire TF_MSG_HDD_DIRENT (enc_page [script_entry]), wire TF_MSG_SUCCESS []]"
  let ?t = "timeout script_handle"
  have pages: "pages_then script_os 3 ?t (world ?s) TF_MSG_HDD_DIR
      (enc_filename 0 (if ''/DataFiles'' = [] then ''/'' else ''/DataFiles'') False) [[], [script_entry]]
      (\<lambda>w _ _. answers script_os 3 ?t ?t w TF_MSG_CANCEL [] TF_MSG_SUCCESS [] (\<lambda>w. inbox w = []))"
    unfolding pages_then.simps
    by (rule script_answers [where ps = "[wire TF_MSG_HDD_DIRENT (enc_page [script_entry]), wire TF_MSG_SUCCESS []]"],
        simp add: enc_filename_def, simp add: enc_page_def, simp add: script_sys_def,
        rule script_answers [where ps = "[wire TF_MSG_SUCCESS []]"], simp, simp add: script_entry_page, simp add: script_sys_def,
        rule script_answers [where ps = "[]"], simp, simp, simp, simp)
  have "find_page script_os (last [[], [script_entry]]) ''A.rec'' = Some (dirent_of script_os script_entry)"
    by (simp add: find_page_def dirent_of_def script_entry_page)
  from stat_finds [OF script_handle_simps(1) _ _ _ _ this _ _ _ pages, of script_entries
      \<open>\<lparr>d_stamp = 0, d_type = CHR ''f'', d_size = 0, d_name = [], d_attrib = 0\<rparr>\<close>] show ?thesis
    using script_entry_page by (simp add: find_page_def wf_page_def)
qed

text \<open>C21. When the device lists the parent without the name and ends the listing, \<^verbatim>\<open>tf_stat\<close>
  returns, with 1; the caller's entry is unchanged.\<close>

theorem stat_missing:
  assumes "dev tf = Some fd" and "trace_level tf > 0 \<longrightarrow> tracefh tf \<noteq> None"
    and "CHR ''/'' \<notin> set name" and "name \<noteq> []" and "length par \<le> 65523"
    and "\<forall>es \<in> set (es # pages). find_page os es name = None \<and> wf_page es" and "length (entry r) = MAX_DIR_ENTRIES"
    and "pages_then os fd (timeout tf) (world s) TF_MSG_HDD_DIR (enc_filename 0 (if par = [] then ''/'' else par) False) (es # pages)
      (listing_ends os fd (timeout tf) W)"
  shows "\<exists>tf' s'. tf_stat os tf (par @ ''/'' @ name) r dirent s = Some (1, dirent, tf', s') \<and> W (world s')"
proof -
  let ?par = "if par = [] then ''/'' else par" and ?tf = "tf\<lparr>error := 0\<rparr>"
  have len: "length ?par \<le> 65523" using assms(5) by auto
  obtain s1 s2 where f: "tf_cmd_dir_first os tf ?par r s = get_dirents os ?tf r s1"
    and rec: "receives os fd (timeout tf) s1 TF_MSG_HDD_DIRENT (enc_page es) s2"
    and k: "pages_then os fd (timeout tf) (world s2) TF_MSG_SUCCESS [] pages (listing_ends os fd (timeout tf) W)"
    using dir_first_reply [OF assms(1) len assms(8) [unfolded pages_then.simps]] by blast
  obtain s3 where g: "get_dirents os ?tf r s1 = Some (0, page_entries os es r, ?tf, s3)" and w: "world s3 = world s2"
    using get_dirents_page [of ?tf fd os s1 es s2 r] assms(1,6,7) rec by auto
  have "\<exists>tf' s'. stat_loop os ?tf name (page_entries os es r) dirent s3 = Some (1, dirent, tf', s') \<and> W (world s')"
    by (rule stat_loop_missing) (use assms k w in auto)
  with f g last_slash_append [OF assms(3), of par] assms(4) show ?thesis
    by (auto simp: tf_stat_def Let_def split: if_splits)
qed

theorem stat_missing_witness:
  "\<exists>tf' s'. tf_stat script_os script_handle ''/B.rec'' script_entries
      \<lparr>d_stamp = 0, d_type = CHR ''f'', d_size = 0, d_name = [], d_attrib = 0\<rparr>
      (script_sys [wire TF_MSG_HDD_DIRENT (enc_page [script_entry]), wire TF_MSG_HDD_DIREND []])
      = Some (1, \<lparr>d_stamp = 0, d_type = CHR ''f'', d_size = 0, d_name = [], d_attrib = 0\<rparr>, tf', s') \<and> inbox (world s') = []"
proof -
  let ?s = "script_sys [wire TF_MSG_HDD_DIRENT (enc_page [script_entry]), wire TF_MSG_HDD_DIREND []]"
  have pages: "pages_then script_os 3 (timeout script_handle) (world ?s) TF_MSG_HDD_DIR
      (enc_filename 0 (if [] = ([] :: string) then ''/'' else []) False) [[script_entry]]
      (listing_ends script_os 3 (timeout script_handle) (\<lambda>w. inbox w = []))"
    unfolding pages_then.simps listing_ends_def
    by (rule script_answers [where ps = "[wire TF_MSG_HDD_DIREND []]"],
        simp add: enc_filename_def, simp add: script_entry_page, simp add: script_sys_def,
        rule script_answers [where ps = "[]"], simp, simp, simp, rule script_takes, simp, simp)
  have "\<forall>es \<in> set [[script_entry]]. find_page script_os es ''B.rec'' = None \<and> wf_page es"
    using script_entry_page by (simp add: find_page_def dirent_of_def)
  from stat_missing [OF script_handle_simps(1) _ _ _ _ this _ pages, of script_entries
      \<open>\<lparr>d_stamp = 0, d_type = CHR ''f'', d_size = 0, d_name = [], d_attrib = 0\<rparr>\<close>] show ?thesis by simp
qed

lemma c_string_None: "c_string bs = None \<longleftrightarrow> (\<forall>b \<in> set bs. b \<noteq> 0)"
  by (induction bs) auto

lemma unpack_dirent_None: "unpack_dirent os m a = None \<longleftrightarrow> (\<forall>i < NAME_SIZE. m (a + 14 + i) \<noteq> 0)"
proof -
  have "unpack_dirent os m a = None \<longleftrightarrow> (\<forall>b \<in> set (bytes_at m (a + 14) NAME_SIZE). b \<noteq> 0)"
    by (simp add: unpack_dirent_def c_string_None [symmetric] bind_eq_None_conv)
  also have "\<dots> \<longleftrightarrow> (\<forall>i < NAME_SIZE. m (a + 14 + i) \<noteq> 0)"
    by (auto simp: set_conv_nth)
  finally show ?thesis .
qed

lemma unpack_entries_None:
  "length (entry r) = MAX_DIR_ENTRIES \<Longrightarrow> count r \<le> 574 \<Longrightarrow>
     unpack_entries os m i r = None \<longleftrightarrow>
       (\<exists>j. i \<le> j \<and> int j < count r \<and> unpack_dirent os m (8 + sizeof_typefile * j) = None)"
proof (induction os m i r rule: unpack_entries.induct)
  case (1 os m i r)
  show ?case
  proof (cases "int i < count r")
    case True
    then have fits: "i < length (entry r) \<and> 8 + sizeof_typefile * (i + 1) \<le> sizeof_packet"
      using 1(2,3) by simp
    show ?thesis
    proof (cases "unpack_dirent os m (8 + sizeof_typefile * i)")
      case None
      with True fits show ?thesis by (subst unpack_entries.simps) auto
    next
      case (Some d)
      with True fits have "unpack_entries os m i r = unpack_entries os m (i + 1) (r\<lparr>entry := (entry r)[i := d]\<rparr>)"
        by (subst unpack_entries.simps) simp
      also have "\<dots> = None \<longleftrightarrow> (\<exists>j. i + 1 \<le> j \<and> int j < count r \<and> unpack_dirent os m (8 + sizeof_typefile * j) = None)"
        using "1.IH" [OF True fits Some] 1(2,3) by simp
      also have "\<dots> \<longleftrightarrow> (\<exists>j. i \<le> j \<and> int j < count r \<and> unpack_dirent os m (8 + sizeof_typefile * j) = None)"
        using Some by (metis Suc_eq_plus1 Suc_leD le_SucE le_antisym not_less_eq_eq option.distinct(1))
      finally show ?thesis .
    qed
  next
    case False
    then show ?thesis by (subst unpack_entries.simps) auto
  qed
qed

text \<open>C22. Unpacking a DIRENT reply never leaves the packet buffer or the caller's array, for every
  length field of at least the header size: the only undefined case is an entry whose name of 95
  bytes has no terminator, where the \<^verbatim>\<open>strcpy\<close> overruns it.\<close>

theorem dirents_in_bounds:
  assumes "8 \<le> uint len" and "length (entry r) = MAX_DIR_ENTRIES"
  shows "unpack_entries os m 0 (r\<lparr>count := dirent_count len\<rparr>) = None \<longleftrightarrow>
    (\<exists>j. int j < (uint len - 8) div 114 \<and> (\<forall>i < NAME_SIZE. m (8 + 114 * j + 14 + i) \<noteq> 0))"
  using unpack_entries_None [of "r\<lparr>count := dirent_count len\<rparr>" os m 0] dirent_count_le [OF assms(1)] assms(2)
  by (simp add: unpack_dirent_None)

theorem dirents_in_bounds_witness:
  "8 \<le> uint (122 :: u16) \<and> unpack_entries script_os (\<lambda>i. 65) 0 (script_entries\<lparr>count := dirent_count 122\<rparr>) = None"
proof -
  have len: "8 \<le> uint (122 :: u16)" "length (entry script_entries) = MAX_DIR_ENTRIES" by simp_all
  have "int 0 < (uint (122 :: u16) - 8) div 114" by simp
  then show ?thesis
    using dirents_in_bounds [OF len, of script_os "\<lambda>i. 65"] len(1) by auto
qed

section \<open>The type of a listing\<close>










end
