(* ===== verification/Tf_Transfer.thy ===== *)
theory Tf_Transfer
  imports Tf_Dir
begin

text \<open>
  File transfers of \<^verbatim>\<open>tf_io.c\<close>: \<^verbatim>\<open>tf_cmd_put\<close>, \<^verbatim>\<open>tf_cmd_put_data\<close>, \<^verbatim>\<open>tf_cmd_put_done\<close>,
  \<^verbatim>\<open>tf_cmd_put_cancel\<close>, \<^verbatim>\<open>tf_cmd_get\<close>, \<^verbatim>\<open>tf_cmd_get_next\<close> and \<^verbatim>\<open>tf_cmd_get_cancel\<close>. The handle's
  transfer buffer holds the last received packet; the data pointer of a \<^verbatim>\<open>tf_buffer\<close> is an
  offset into it.
\<close>

section \<open>Definitions\<close>

abbreviation (input) DIR_PUT :: u8 where "DIR_PUT \<equiv> 0"
abbreviation (input) DIR_GET :: u8 where "DIR_GET \<equiv> 1"

text \<open>The structure that describes the file to be stored, as far as \<^verbatim>\<open>tf_cmd_put\<close> fills it in.\<close>

definition put_typefile :: "'w os \<Rightarrow> mem \<Rightarrow> string \<Rightarrow> u64 \<Rightarrow> int \<Rightarrow> mem option" where
  "put_typefile os typefile path sz stamp = do {
     typefile \<leftarrow> time_to_tfdt os stamp typefile 0;
     let typefile = typefile(5 := TYPE_FILE);
     let typefile = store typefile 6 (rev (be64 sz));
     let typefile = store typefile 14 (map of_char (take (NAME_SIZE - 1) path) @ [0]);
     let typefile = typefile(109 := 0);
     Some (set_host_u32 typefile 110 0)
   }"

definition tf_cmd_put ::
  "'w os \<Rightarrow> tf_handle \<Rightarrow> string \<Rightarrow> u64 \<Rightarrow> int \<Rightarrow> u64 \<Rightarrow> 'w sys \<Rightarrow> (int \<times> tf_handle \<times> 'w sys) option" where
  "tf_cmd_put os tf path sz stamp offset s = do {
     let req = tf_req_init (os_junk os ''req'' (world s)) TF_MSG_HDD_FILE_SEND;
     req \<leftarrow> tf_req_put8 req DIR_PUT;
     req \<leftarrow> tf_req_putfilename req path True;
     req \<leftarrow> tf_req_put64 req offset;
     (req, s) \<leftarrow> tf_req_done os tf req s;
     let (ret, tf, s) = tf_send os tf req s;
     (if ret = 0 then do {
        (ret, reply, tf, s) \<leftarrow> tf_get_response os tf (os_junk os ''reply'' (world s)) s;
        (if ret = 0 then
           if reply_cmd reply = TF_MSG_SUCCESS then do {
             typefile \<leftarrow> put_typefile os (os_junk os ''typefile'' (world s)) path sz stamp;
             let req = tf_req_init req TF_MSG_HDD_FILE_START;
             req \<leftarrow> tf_req_putdata req (bytes_at typefile 0 sizeof_typefile);
             (req, s) \<leftarrow> tf_req_done os tf req s;
             let (ret, tf, s) = tf_send os tf req s;
             (if ret = 0 then do {
                (ret, reply, tf, s) \<leftarrow> tf_get_response os tf reply s;
                Some (if ret = 0 \<and> reply_cmd reply \<noteq> TF_MSG_SUCCESS then TF_ERR_UNEXPECTED else ret, tf, s)
              }
              else Some (ret, tf, s))
           }
           else if reply_cmd reply = TF_MSG_FAIL then Some (fail_code reply, tf, s)
           else Some (TF_ERR_UNEXPECTED, tf, s)
         else Some (ret, tf, s))
      }
      else Some (ret, tf, s))
   }"

definition tf_cmd_put_data ::
  "'w os \<Rightarrow> tf_handle \<Rightarrow> u64 \<Rightarrow> u8 list \<Rightarrow> 'w sys \<Rightarrow> (int \<times> tf_handle \<times> 'w sys) option" where
  "tf_cmd_put_data os tf offset buffer s = do {
     let req = tf_req_init (os_junk os ''req'' (world s)) TF_MSG_HDD_FILE_DATA;
     req \<leftarrow> tf_req_put64 req offset;
     req \<leftarrow> tf_req_putdata req buffer;
     (req, s) \<leftarrow> tf_req_done os tf req s;
     let (ret, tf, s) = tf_send os tf req s;
     (if ret = 0 then do {
        let t = timeout tf;
        let tf = tf\<lparr>timeout := t * 2\<rparr>;
        (ret, reply, tf, s) \<leftarrow> tf_get_response os tf (os_junk os ''reply'' (world s)) s;
        let tf = tf\<lparr>timeout := t\<rparr>;
        Some (if ret = 0 \<and> reply_cmd reply \<noteq> TF_MSG_SUCCESS then TF_ERR_UNEXPECTED else ret, tf, s)
      }
      else Some (ret, tf, s))
   }"

definition tf_cmd_put_done :: "'w os \<Rightarrow> tf_handle \<Rightarrow> 'w sys \<Rightarrow> (int \<times> tf_handle \<times> 'w sys) option" where
  "tf_cmd_put_done os tf s = do {
     let req = tf_req_init (os_junk os ''req'' (world s)) TF_MSG_HDD_FILE_END;
     (req, s) \<leftarrow> tf_req_done os tf req s;
     let (ret, tf, s) = tf_send os tf req s;
     (if ret = 0 then do {
        (ret, reply, tf, s) \<leftarrow> tf_get_response os tf (os_junk os ''reply'' (world s)) s;
        let ret = (if ret = 0 \<and> reply_cmd reply \<noteq> TF_MSG_SUCCESS then TF_ERR_UNEXPECTED else ret);
        (if ret \<noteq> 0 then do {
           (_, tf, s) \<leftarrow> tf_cmd_cancel os tf s;
           Some (ret, tf, s)
         }
         else Some (ret, tf, s))
      }
      else Some (ret, tf, s))
   }"

definition tf_cmd_put_cancel :: "'w os \<Rightarrow> tf_handle \<Rightarrow> 'w sys \<Rightarrow> (int \<times> tf_handle \<times> 'w sys) option" where
  "tf_cmd_put_cancel os tf s = do {
     (_, tf, s) \<leftarrow> tf_cmd_cancel os tf s;
     let s = sleep os 1 s;
     tf_cmd_cancel os tf s
   }"

definition tf_cmd_get ::
  "'w os \<Rightarrow> tf_handle \<Rightarrow> string \<Rightarrow> u64 \<Rightarrow> tf_dirent \<Rightarrow> 'w sys \<Rightarrow> (int \<times> tf_dirent \<times> tf_handle \<times> 'w sys) option" where
  "tf_cmd_get os tf path offset dirent s = do {
     let req = tf_req_init (os_junk os ''req'' (world s)) TF_MSG_HDD_FILE_SEND;
     req \<leftarrow> tf_req_put8 req DIR_GET;
     req \<leftarrow> tf_req_putfilename req path True;
     req \<leftarrow> tf_req_put64 req offset;
     (req, s) \<leftarrow> tf_req_done os tf req s;
     let (ret, tf, s) = tf_send os tf req s;
     (if ret = 0 then do {
        (ret, reply, tf, s) \<leftarrow> tf_get_response os tf (os_junk os ''reply'' (world s)) s;
        (if ret = 0 then
           if reply_cmd reply = TF_MSG_HDD_FILE_START then do {
             dirent \<leftarrow> unpack_dirent os reply 8;
             Some (ret, dirent, tf, s)
           }
           else if reply_cmd reply = TF_MSG_FAIL then Some (fail_code reply, dirent, tf, s)
           else Some (TF_ERR_UNEXPECTED, dirent, tf, s)
         else Some (ret, dirent, tf, s))
      }
      else Some (ret, dirent, tf, s))
   }"

record tf_buffer =
  b_offset :: u64
  b_size :: nat
  b_data :: nat

text \<open>\<^verbatim>\<open>tf_get_response\<close> on the transfer buffer of the handle; a null buffer is only harmless when
  there is no device.\<close>

definition buf_response :: "'w os \<Rightarrow> tf_handle \<Rightarrow> 'w sys \<Rightarrow> (int \<times> mem \<times> tf_handle \<times> 'w sys) option" where
  "buf_response os tf s =
     (case buf tf of
        None \<Rightarrow> if dev tf = None then tf_get_response os tf (\<lambda>i. 0) s else None
      | Some reply \<Rightarrow> do {
          (ret, reply, tf, s) \<leftarrow> tf_get_response os tf reply s;
          Some (ret, reply, tf\<lparr>buf := Some reply\<rparr>, s)
        })"

text \<open>The part of \<^verbatim>\<open>tf_cmd_get_next\<close> that handles a received packet.\<close>

definition handle_next ::
  "'w os \<Rightarrow> mem \<Rightarrow> tf_buffer \<Rightarrow> tf_handle \<Rightarrow> 'w sys \<Rightarrow> (int \<times> tf_buffer \<times> tf_handle \<times> 'w sys) option" where
  "handle_next os reply b tf s =
     (if reply_cmd reply = TF_MSG_HDD_FILE_END then do {
        (_, tf, s) \<leftarrow> tf_send_success os tf s;
        Some (TF_ERR_DONE, b, tf, s)
      }
      else if reply_cmd reply = TF_MSG_HDD_FILE_DATA then do {
        (r, tf, s) \<leftarrow> tf_send_success os tf s;
        let tf = (if r = 0 then tf\<lparr>pending := 1\<rparr> else tf);
        let off = get_u64 reply 8;
        let len = reply_length reply - 16;
        Some (0, \<lparr>b_offset = off, b_size = unat len, b_data = 16\<rparr>, tf, s)
      }
      else if reply_cmd reply = TF_MSG_FAIL then Some (TF_ERR_IO, b, tf, s)
      else Some (TF_ERR_UNEXPECTED, b, tf, s))"

definition tf_cmd_get_next ::
  "'w os \<Rightarrow> tf_handle \<Rightarrow> tf_buffer \<Rightarrow> 'w sys \<Rightarrow> (int \<times> tf_buffer \<times> tf_handle \<times> 'w sys) option" where
  "tf_cmd_get_next os tf b s = do {
     (ret, tf, s) \<leftarrow> (if pending tf = 0 then tf_send_success os tf s else Some (0, tf, s));
     let tf = tf\<lparr>pending := 0\<rparr>;
     (ret, b, tf, s) \<leftarrow>
       (if ret = 0 then do {
          (ret, reply, tf, s) \<leftarrow> buf_response os tf s;
          (if ret = 0 then handle_next os reply b tf s else Some (ret, b, tf, s))
        }
        else Some (ret, b, tf, s));
     Some (ret, b, tf\<lparr>error := ret\<rparr>, s)
   }"

text \<open>The \<^verbatim>\<open>for\<close> loop of \<^verbatim>\<open>tf_cmd_get_cancel\<close>, with \<open>n\<close> attempts left.\<close>

fun get_cancel_loop :: "'w os \<Rightarrow> nat \<Rightarrow> int \<Rightarrow> tf_handle \<Rightarrow> 'w sys \<Rightarrow> (int \<times> tf_handle \<times> 'w sys) option" where
  "get_cancel_loop os 0 ret tf s = Some (ret, tf, s)"
| "get_cancel_loop os (Suc n) ret tf s = do {
     (_, tf, s) \<leftarrow> tf_send_fail os tf TF_ERR_CRC s;
     (ret, tf, s) \<leftarrow> tf_cmd_cancel os tf s;
     (if ret = 0 then Some (ret, tf, s)
      else do {
        let s = sleep os 2 s;
        (ret, reply, tf, s) \<leftarrow> tf_get_response os tf (os_junk os ''reply'' (world s)) s;
        (if ret = 0 then Some (ret, tf, s) else get_cancel_loop os n ret tf s)
      })
   }"

definition tf_cmd_get_cancel :: "'w os \<Rightarrow> tf_handle \<Rightarrow> 'w sys \<Rightarrow> (int \<times> tf_handle \<times> 'w sys) option" where
  "tf_cmd_get_cancel os tf s = do {
     (tf, s) \<leftarrow>
       (if pending tf \<noteq> 0 then do {
          (_, _, tf, s) \<leftarrow> tf_get_response os (tf\<lparr>pending := 0\<rparr>) (os_junk os ''reply'' (world s)) s;
          Some (tf, s)
        }
        else Some (tf, s));
     get_cancel_loop os 5 0 tf s
   }"

section \<open>Receiving a file\<close>

text \<open>
  \<open>delivers\<close>: the next read in world \<open>w\<close> gives a packet. The packet that \<^verbatim>\<open>tf_cmd_get_next\<close> waits for
  is the answer to an acknowledgement, which is already on its way when \<^verbatim>\<open>pending\<close> is set.
\<close>

definition delivers :: "'w os \<Rightarrow> int \<Rightarrow> int \<Rightarrow> 'w \<Rightarrow> u32 \<Rightarrow> u8 list \<Rightarrow> ('w \<Rightarrow> bool) \<Rightarrow> bool" where
  "delivers os fd t w cmd q W \<longleftrightarrow> (\<forall>s. world s = w \<longrightarrow> (\<exists>s1. receives os fd t s cmd q s1 \<and> W (world s1)))"

definition next_packet :: "int \<Rightarrow> 'w os \<Rightarrow> int \<Rightarrow> int \<Rightarrow> 'w \<Rightarrow> u32 \<Rightarrow> u8 list \<Rightarrow> ('w \<Rightarrow> bool) \<Rightarrow> bool" where
  "next_packet pend os fd t w cmd q W =
     (if pend = 0 then answers os fd t t w TF_MSG_SUCCESS [] cmd q W else delivers os fd t w cmd q W)"

text \<open>A handle that \<^verbatim>\<open>topfield_open\<close> has filled in.\<close>

definition open_handle :: "tf_handle \<Rightarrow> int \<Rightarrow> bool" where
  "open_handle tf fd \<longleftrightarrow> dev tf = Some fd \<and> buf tf \<noteq> None \<and> (trace_level tf > 0 \<longrightarrow> tracefh tf \<noteq> None)"

lemma buf_response_holds:
  assumes "open_handle tf fd" and "receives os fd (timeout tf) s cmd q s1"
  shows "\<exists>m s'. buf_response os tf s = Some (0, m, tf\<lparr>error := 0, buf := Some m\<rparr>, s') \<and> world s' = world s1 \<and> holds_reply m cmd q"
proof -
  obtain b0 where b: "buf tf = Some b0" and d: "dev tf = Some fd"
    using assms(1) by (auto simp: open_handle_def)
  from get_response_holds [OF d assms(2), of b0] show ?thesis
    by (auto simp: buf_response_def b)
qed

lemma get_next_packet:
  assumes "open_handle tf fd" and "next_packet (pending tf) os fd (timeout tf) (world s) cmd q W"
  shows "\<exists>m s1. tf_cmd_get_next os tf b s = do {
      (ret, b, tf, s) \<leftarrow> handle_next os m b (tf\<lparr>pending := 0, error := 0, buf := Some m\<rparr>) s1;
      Some (ret, b, tf\<lparr>error := ret\<rparr>, s)
    } \<and> holds_reply m cmd q \<and> W (world s1)"
proof (cases "pending tf = 0")
  case True
  have d: "dev tf = Some fd" "trace_level tf > 0 \<longrightarrow> tracefh tf \<noteq> None"
    using assms(1) by (simp_all add: open_handle_def)
  from send_success_reply [OF d, of os "timeout tf" s cmd q W] assms(2) True
  obtain s1 s2 where a: "tf_send_success os tf s = Some (0, tf\<lparr>error := 0\<rparr>, s1)"
    and r: "receives os fd (timeout tf) s1 cmd q s2" "W (world s2)"
    by (auto simp: next_packet_def)
  have o: "open_handle (tf\<lparr>error := 0, pending := 0\<rparr>) fd" using assms(1) by (simp add: open_handle_def)
  obtain m s' where "buf_response os (tf\<lparr>error := 0, pending := 0\<rparr>) s1
      = Some (0, m, tf\<lparr>error := 0, pending := 0\<rparr>\<lparr>error := 0, buf := Some m\<rparr>, s')"
    and "world s' = world s2" "holds_reply m cmd q"
    using buf_response_holds [OF o, of os s1 cmd q s2] r by auto
  with r a True show ?thesis
    by (intro exI [of _ m] exI [of _ s']) (simp add: tf_cmd_get_next_def)
next
  case False
  from False assms(2) have del: "delivers os fd (timeout tf) (world s) cmd q W" by (simp add: next_packet_def)
  then obtain s2 where r: "receives os fd (timeout tf) s cmd q s2" "W (world s2)"
    unfolding delivers_def by blast
  have o: "open_handle (tf\<lparr>pending := 0\<rparr>) fd" using assms(1) by (simp add: open_handle_def)
  obtain m s' where "buf_response os (tf\<lparr>pending := 0\<rparr>) s
      = Some (0, m, tf\<lparr>pending := 0\<rparr>\<lparr>error := 0, buf := Some m\<rparr>, s')"
    and "world s' = world s2" "holds_reply m cmd q"
    using buf_response_holds [OF o, of os s cmd q s2] r by auto
  with r False show ?thesis
    by (intro exI [of _ m] exI [of _ s']) (simp add: tf_cmd_get_next_def)
qed

lemma holds_reply_data:
  assumes "holds_reply m cmd (be64 off @ data)"
  shows "get_u64 m 8 = off" and "unat (reply_length m - 16) = length data" and "bytes_at m 16 (length data) = data"
proof -
  have "bytes_at m 8 (8 + length data) = be64 off @ data" using assms by (simp add: holds_reply_def)
  then have "bytes_at m 8 8 = be64 off" and d: "bytes_at m 16 (length data) = data"
    unfolding bytes_at_append by simp_all
  then show "get_u64 m 8 = off" "bytes_at m 16 (length data) = data"
    by (auto intro: field_u64.get_enc)
  have "unat (reply_length m) = 16 + length data" using holds_reply_length [OF assms] by simp
  then show "unat (reply_length m - 16) = length data"
    by (simp add: unat_sub word_le_nat_alt)
qed

lemma get_next_data:
  assumes "open_handle tf fd"
    and "next_packet (pending tf) os fd (timeout tf) (world s) TF_MSG_HDD_FILE_DATA (be64 off @ data)
           (\<lambda>w. takes os fd (timeout tf) w TF_MSG_SUCCESS [] (\<lambda>s. W (world s)))"
  shows "\<exists>tf' s' m. tf_cmd_get_next os tf b s = Some (0, \<lparr>b_offset = off, b_size = length data, b_data = 16\<rparr>, tf', s')
    \<and> tf' = tf\<lparr>buf := Some m, pending := 1, error := 0\<rparr> \<and> bytes_at m 16 (length data) = data \<and> W (world s')"
proof -
  obtain m s1 where g: "tf_cmd_get_next os tf b s = do {
      (ret, b, tf, s) \<leftarrow> handle_next os m b (tf\<lparr>pending := 0, error := 0, buf := Some m\<rparr>) s1;
      Some (ret, b, tf\<lparr>error := ret\<rparr>, s)
    }" and h: "holds_reply m TF_MSG_HDD_FILE_DATA (be64 off @ data)"
    and t: "takes os fd (timeout tf) (world s1) TF_MSG_SUCCESS [] (\<lambda>s. W (world s))"
    using get_next_packet [OF assms] by blast
  let ?tf = "tf\<lparr>pending := 0, error := 0, buf := Some m\<rparr>"
  obtain s2 where a: "tf_send_success os ?tf s1 = Some (0, ?tf\<lparr>error := 0\<rparr>, s2)" and W: "W (world s2)"
    using send_success_sent [of ?tf fd os s1 "\<lambda>s. W (world s)"] assms(1) t by (auto simp: open_handle_def)
  have "reply_cmd m = TF_MSG_HDD_FILE_DATA" using h by (simp add: holds_reply_def)
  with g a W holds_reply_data [OF h] show ?thesis
    by (intro exI [of _ "tf\<lparr>buf := Some m, pending := 1, error := 0\<rparr>"] exI [of _ s2] exI [of _ m]) (simp add: handle_next_def)
qed

lemma get_next_end:
  assumes "open_handle tf fd"
    and "next_packet (pending tf) os fd (timeout tf) (world s) TF_MSG_HDD_FILE_END q
           (\<lambda>w. takes os fd (timeout tf) w TF_MSG_SUCCESS [] (\<lambda>s. W (world s)))"
  shows "\<exists>s' m. tf_cmd_get_next os tf b s = Some (TF_ERR_DONE, b, tf\<lparr>pending := 0, buf := Some m, error := TF_ERR_DONE\<rparr>, s')
    \<and> W (world s')"
proof -
  obtain m s1 where g: "tf_cmd_get_next os tf b s = do {
      (ret, b, tf, s) \<leftarrow> handle_next os m b (tf\<lparr>pending := 0, error := 0, buf := Some m\<rparr>) s1;
      Some (ret, b, tf\<lparr>error := ret\<rparr>, s)
    }" and h: "holds_reply m TF_MSG_HDD_FILE_END q"
    and t: "takes os fd (timeout tf) (world s1) TF_MSG_SUCCESS [] (\<lambda>s. W (world s))"
    using get_next_packet [OF assms] by blast
  let ?tf = "tf\<lparr>pending := 0, error := 0, buf := Some m\<rparr>"
  obtain s2 where a: "tf_send_success os ?tf s1 = Some (0, ?tf\<lparr>error := 0\<rparr>, s2)" and W: "W (world s2)"
    using send_success_sent [of ?tf fd os s1 "\<lambda>s. W (world s)"] assms(1) t by (auto simp: open_handle_def)
  have "reply_cmd m = TF_MSG_HDD_FILE_END" using h by (simp add: holds_reply_def)
  with g a W show ?thesis
    by (auto simp: handle_next_def)
qed

text \<open>
  A client that receives a file: it calls \<^verbatim>\<open>tf_cmd_get_next\<close> until it gives a result other than 0,
  at most \<open>n\<close> times, and copies each block out of the transfer buffer. The device sends the
  blocks \<open>cs\<close>, each with its offset, and then ends the file.
\<close>

definition buf_bytes :: "tf_handle \<Rightarrow> tf_buffer \<Rightarrow> u8 list" where
  "buf_bytes tf b = (case buf tf of None \<Rightarrow> [] | Some m \<Rightarrow> bytes_at m (b_data b) (b_size b))"

fun fetch_file ::
  "nat \<Rightarrow> 'w os \<Rightarrow> tf_handle \<Rightarrow> tf_buffer \<Rightarrow> 'w sys \<Rightarrow> (int \<times> (u64 \<times> u8 list) list \<times> tf_handle \<times> 'w sys) option" where
  "fetch_file 0 os tf b s = None"
| "fetch_file (Suc n) os tf b s = do {
     (ret, b, tf, s) \<leftarrow> tf_cmd_get_next os tf b s;
     (if ret = 0 then do {
        (r, cs, tf', s) \<leftarrow> fetch_file n os tf b s;
        Some (r, (b_offset b, buf_bytes tf b) # cs, tf', s)
      }
      else Some (ret, [], tf, s))
   }"

fun sends_blocks ::
  "int \<Rightarrow> 'w os \<Rightarrow> int \<Rightarrow> int \<Rightarrow> 'w \<Rightarrow> (u64 \<times> u8 list) list \<Rightarrow> ('w \<Rightarrow> bool) \<Rightarrow> bool" where
  "sends_blocks pend os fd t w [] W =
     next_packet pend os fd t w TF_MSG_HDD_FILE_END [] (\<lambda>w. takes os fd t w TF_MSG_SUCCESS [] (\<lambda>s. W (world s)))"
| "sends_blocks pend os fd t w ((off, data) # cs) W =
     next_packet pend os fd t w TF_MSG_HDD_FILE_DATA (be64 off @ data)
       (\<lambda>w. takes os fd t w TF_MSG_SUCCESS [] (\<lambda>s. sends_blocks 1 os fd t (world s) cs W))"

lemma fetch_file_blocks:
  assumes "open_handle tf fd" and "sends_blocks (pending tf) os fd (timeout tf) (world s) cs W" and "length cs < n"
  shows "\<exists>tf' s'. fetch_file n os tf b s = Some (TF_ERR_DONE, cs, tf', s') \<and> W (world s') \<and> pending tf' = 0 \<and> error tf' = TF_ERR_DONE"
  using assms
proof (induction cs arbitrary: n tf b s)
  case Nil
  then obtain k where n: "n = Suc k" by (cases n) auto
  from get_next_end [OF Nil.prems(1), of os s "[]" W b] Nil.prems(2) show ?case
    by (auto simp: n)
next
  case (Cons c cs)
  obtain off data where c: "c = (off, data)" by fastforce
  obtain k where n: "n = Suc k" and k: "length cs < k" using Cons.prems(3) by (cases n) auto
  obtain tf' s' m where g: "tf_cmd_get_next os tf b s = Some (0, \<lparr>b_offset = off, b_size = length data, b_data = 16\<rparr>, tf', s')"
    and tf': "tf' = tf\<lparr>buf := Some m, pending := 1, error := 0\<rparr>" and m: "bytes_at m 16 (length data) = data"
    and rest: "sends_blocks 1 os fd (timeout tf) (world s') cs W"
    using get_next_data [OF Cons.prems(1), of os s off data "\<lambda>w. sends_blocks 1 os fd (timeout tf) w cs W" b] Cons.prems(2)
    by (auto simp: c)
  have "\<exists>tf'' s''. fetch_file k os tf' \<lparr>b_offset = off, b_size = length data, b_data = 16\<rparr> s'
      = Some (TF_ERR_DONE, cs, tf'', s'') \<and> W (world s'') \<and> pending tf'' = 0 \<and> error tf'' = TF_ERR_DONE"
    using Cons.prems(1) rest k by (intro Cons.IH) (simp_all add: tf' open_handle_def)
  with g m show ?case by (auto simp: n c tf' buf_bytes_def)
qed

section \<open>Properties\<close>

text \<open>A block of a file: \<^verbatim>\<open>tf_cmd_get_next\<close> gives the offset and length of the block, its data
  pointer leads to exactly its bytes in the transfer buffer, the packet has been acknowledged
  and the next one is pending, with the session otherwise unchanged.\<close>

theorem get_next_block:
  assumes "open_handle tf fd"
    and "next_packet (pending tf) os fd (timeout tf) (world s) TF_MSG_HDD_FILE_DATA (be64 off @ data)
           (\<lambda>w. takes os fd (timeout tf) w TF_MSG_SUCCESS [] (\<lambda>s. W (world s)))"
  shows "\<exists>b' tf' s'. tf_cmd_get_next os tf b s = Some (0, b', tf', s') \<and> b_offset b' = off \<and> b_size b' = length data
    \<and> buf_bytes tf' b' = data \<and> pending tf' = 1 \<and> error tf' = 0 \<and> same_session tf tf' \<and> W (world s')"
proof -
  obtain tf' s' m where g: "tf_cmd_get_next os tf b s = Some (0, \<lparr>b_offset = off, b_size = length data, b_data = 16\<rparr>, tf', s')"
    and tf': "tf' = tf\<lparr>buf := Some m, pending := 1, error := 0\<rparr>" and m: "bytes_at m 16 (length data) = data" "W (world s')"
    using get_next_data [OF assms] by blast
  have "same_session tf tf'" using assms(1) by (simp add: tf' same_session_def open_handle_def)
  with g m tf' show ?thesis by (auto simp: buf_bytes_def)
qed

lemma script_open_handle: "open_handle script_handle 3"
  by (simp add: open_handle_def)

theorem get_next_block_witness:
  "\<exists>b' tf' s'. tf_cmd_get_next script_os script_handle \<lparr>b_offset = 0, b_size = 0, b_data = 0\<rparr>
      (script_sys [wire TF_MSG_HDD_FILE_DATA (be64 4096 @ [1, 2, 3])]) = Some (0, b', tf', s')
    \<and> b_offset b' = 4096 \<and> buf_bytes tf' b' = [1, 2, 3] \<and> pending tf' = 1
    \<and> outbox (world s') = [wire TF_MSG_SUCCESS [], wire TF_MSG_SUCCESS []]"
proof -
  have "next_packet (pending script_handle) script_os 3 (timeout script_handle)
      (world (script_sys [wire TF_MSG_HDD_FILE_DATA (be64 4096 @ [1, 2, 3])])) TF_MSG_HDD_FILE_DATA (be64 4096 @ [1, 2, 3])
      (\<lambda>w. takes script_os 3 (timeout script_handle) w TF_MSG_SUCCESS []
        (\<lambda>s. (\<lambda>w. outbox w = [wire TF_MSG_SUCCESS [], wire TF_MSG_SUCCESS []]) (world s)))"
    unfolding next_packet_def script_handle_simps if_True
    by (simp only: simp_thms if_True) (rule script_answers [where ps = "[]"], simp, simp, simp add: script_sys_def,
        rule script_takes, simp, simp add: script_sys_def)
  from get_next_block [OF script_open_handle this] show ?thesis by blast
qed

text \<open>C6. Receiving a whole file: for every sequence of blocks that the device sends, of any length,
  a client that calls \<^verbatim>\<open>tf_cmd_get_next\<close> until it stops gets exactly these blocks with their
  offsets, in order, and the final result is \<^verbatim>\<open>TF_ERR_DONE\<close> with nothing pending.\<close>

theorem fetch_file_complete:
  assumes "open_handle tf fd" and "sends_blocks (pending tf) os fd (timeout tf) (world s) cs W" and "length cs < n"
  shows "\<exists>tf' s'. fetch_file n os tf b s = Some (TF_ERR_DONE, cs, tf', s') \<and> W (world s') \<and> pending tf' = 0"
  using fetch_file_blocks [OF assms, of b] by blast

lemma script_delivers:
  assumes "length q < 16300" and "inbox w = wire cmd q # ps" and "W (w\<lparr>inbox := ps\<rparr>)"
  shows "delivers script_os fd t w cmd q W"
  unfolding delivers_def
proof (intro allI impI)
  fix s :: "script sys" assume w: "world s = w"
  with assms(3) show "\<exists>s1. receives script_os fd t s cmd q s1 \<and> W (world s1)"
    using script_receives_next [OF assms(1), of s cmd ps fd t] assms(2)
    by (intro exI [of _ "s\<lparr>world := (world s)\<lparr>inbox := ps\<rparr>\<rparr>"]) simp
qed

theorem fetch_file_complete_witness:
  "\<exists>tf' s'. fetch_file 3 script_os script_handle \<lparr>b_offset = 0, b_size = 0, b_data = 0\<rparr>
      (script_sys [wire TF_MSG_HDD_FILE_DATA (be64 0 @ [1, 2, 3]), wire TF_MSG_HDD_FILE_DATA (be64 3 @ [4]), wire TF_MSG_HDD_FILE_END []])
      = Some (TF_ERR_DONE, [(0, [1, 2, 3]), (3, [4])], tf', s') \<and> length (outbox (world s')) = 4"
proof -
  let ?s = "script_sys [wire TF_MSG_HDD_FILE_DATA (be64 0 @ [1, 2, 3]), wire TF_MSG_HDD_FILE_DATA (be64 3 @ [4]), wire TF_MSG_HDD_FILE_END []]"
  have "sends_blocks (pending script_handle) script_os 3 (timeout script_handle) (world ?s) [(0, [1, 2, 3]), (3, [4])]
      (\<lambda>w. length (outbox w) = 4)"
    unfolding sends_blocks.simps next_packet_def script_handle_simps
    by (simp only: simp_thms if_True if_False one_neq_zero)
      (rule script_answers [where ps = "[wire TF_MSG_HDD_FILE_DATA (be64 3 @ [4]), wire TF_MSG_HDD_FILE_END []]"],
        simp, simp, simp add: script_sys_def,
        rule script_takes, simp,
        rule script_delivers [where ps = "[wire TF_MSG_HDD_FILE_END []]"], simp, simp,
        rule script_takes, simp,
        rule script_delivers [where ps = "[]"], simp, simp,
        rule script_takes, simp, simp add: script_sys_def)
  from fetch_file_complete [OF script_open_handle this, of 3 \<open>\<lparr>b_offset = 0, b_size = 0, b_data = 0\<rparr>\<close>] show ?thesis by auto
qed

section \<open>Requests of a transfer\<close>

definition enc_file_send :: "u8 \<Rightarrow> string \<Rightarrow> u64 \<Rightarrow> u8 list" where
  "enc_file_send dir path offset = [dir] @ enc_filename 1 path True @ be64 offset"

lemma file_send_request:
  assumes "8 + length (enc_file_send dir path offset) \<le> 65535"
  shows "\<exists>r1 r2 r3. tf_req_put8 (tf_req_init junk c) dir = Some r1 \<and> tf_req_putfilename r1 path True = Some r2
    \<and> tf_req_put64 r2 offset = Some r3 \<and> building r3 c (enc_file_send dir path offset)"
proof -
  obtain r1 where r1: "tf_req_put8 (tf_req_init junk c) dir = Some r1" and b1: "building r1 c [dir]"
    using put8.put_building [OF building_init, of dir junk c] by auto
  obtain r2 where r2: "tf_req_putfilename r1 path True = Some r2" and b2: "building r2 c ([dir] @ enc_filename 1 path True)"
    using putfilename_building [OF b1, of path True] assms by (auto simp: enc_file_send_def)
  obtain r3 where "tf_req_put64 r2 offset = Some r3" and "building r3 c (([dir] @ enc_filename 1 path True) @ be64 offset)"
    using put64.put_building [OF b2, of offset] assms by (auto simp: enc_file_send_def)
  with r1 r2 show ?thesis by (auto simp: enc_file_send_def)
qed

lemma length_enc_file_send_le: "length (enc_file_send dir path offset) \<le> length path + 13"
  using enc_filename_le [of 1 path True] by (simp add: enc_file_send_def)

text \<open>The description of a file to be stored, on the wire. The size is in host order, and what
  follows the name's terminator is left over from the stack.\<close>

definition tfdt_bytes :: "tm \<Rightarrow> u8 list" where
  "tfdt_bytes tm = be16 (word_of_int (date_mjd (tm_year tm) (tm_mon tm) (tm_mday tm)))
     @ [word_of_int (tm_hour tm), word_of_int (tm_min tm), word_of_int (tm_sec tm)]"

definition start_record :: "tm \<Rightarrow> string \<Rightarrow> u64 \<Rightarrow> u8 list \<Rightarrow> bool" where
  "start_record tm path sz tb \<longleftrightarrow> (\<exists>rest. length rest = 94 - length (take 94 path)
     \<and> tb = tfdt_bytes tm @ [TYPE_FILE] @ rev (be64 sz) @ (map of_char (take 94 path) @ [0]) @ rest @ [0] @ [0, 0, 0, 0])"

lemma time_to_tfdt_store: "os_localtime os t = Some tm \<Longrightarrow> time_to_tfdt os t dt a = Some (store dt a (tfdt_bytes tm))"
  by (auto simp: time_to_tfdt_def tfdt_bytes_def put_u16_store be16_def store_Cons fun_eq_iff)

text \<open>The same record with the bytes behind the name, and what the code puts there: nothing, so that
  they are those of the automatic variable.\<close>

definition start_bytes :: "tm \<Rightarrow> string \<Rightarrow> u64 \<Rightarrow> u8 list \<Rightarrow> u8 list" where
  "start_bytes tm path sz rest =
     tfdt_bytes tm @ [TYPE_FILE] @ rev (be64 sz) @ (map of_char (take 94 path) @ [0]) @ rest @ [0] @ [0, 0, 0, 0]"

definition behind_name :: "mem \<Rightarrow> string \<Rightarrow> u8 list" where
  "behind_name junk path = bytes_at junk (15 + length (take 94 path)) (94 - length (take 94 path))"

lemma start_bytes_record: "start_record tm path sz (start_bytes tm path sz (behind_name junk path))"
  by (auto simp: start_record_def start_bytes_def behind_name_def)

lemma typefile_slices:
  "k \<le> 95 \<Longrightarrow> bytes_at m 0 sizeof_typefile = bytes_at m 0 5 @ [m 5] @ bytes_at m 6 8 @ bytes_at m 14 k
     @ bytes_at m (14 + k) (95 - k) @ [m 109] @ bytes_at m 110 4"
  using bytes_at_append [of m 0 5 109] bytes_at_append [of m 5 1 108] bytes_at_append [of m 6 8 100]
    bytes_at_append [of m 14 k "100 - k"] bytes_at_append [of m "14 + k" "95 - k" 5] bytes_at_append [of m 109 1 4]
  by (simp add: bytes_at_Suc)

lemma put_typefile_fields:
  fixes junk path sz
  defines "name \<equiv> map of_char (take 94 path) @ [0] :: u8 list"
  assumes "os_localtime os stamp = Some tm"
  shows "\<exists>m. put_typefile os junk path sz stamp = Some m \<and> bytes_at m 0 5 = tfdt_bytes tm \<and> m 5 = TYPE_FILE
    \<and> bytes_at m 6 8 = rev (be64 sz) \<and> bytes_at m 14 (length name) = name
    \<and> bytes_at m (14 + length name) (95 - length name) = behind_name junk path \<and> m 109 = 0 \<and> bytes_at m 110 4 = [0, 0, 0, 0]"
proof (intro exI conjI)
  let ?m1 = "(store junk 0 (tfdt_bytes tm))(5 := TYPE_FILE)"
  let ?m2 = "store ?m1 6 (rev (be64 sz))"
  let ?m = "set_host_u32 ((store ?m2 14 name)(109 := 0)) 110 0"
  have k: "length name \<le> 95" by (simp add: name_def)
  have len: "length (tfdt_bytes tm) = 5" by (simp add: tfdt_bytes_def)
  note other = set_host_u32_other store_other
  show "put_typefile os junk path sz stamp = Some ?m"
    using assms by (simp add: put_typefile_def time_to_tfdt_store name_def)
  have "bytes_at ?m 0 5 = bytes_at (store junk 0 (tfdt_bytes tm)) 0 5" by (rule bytes_at_cong) (simp add: other)
  then show "bytes_at ?m 0 5 = tfdt_bytes tm" by (simp add: bytes_at_store_same len)
  show "?m 5 = TYPE_FILE" "?m 109 = 0" by (simp_all add: other)
  have "bytes_at ?m 6 8 = bytes_at ?m2 6 8" by (rule bytes_at_cong) (simp add: other)
  then show "bytes_at ?m 6 8 = rev (be64 sz)" by (simp add: bytes_at_store_same)
  have "bytes_at ?m 14 (length name) = bytes_at (store ?m2 14 name) 14 (length name)"
    using k by (intro bytes_at_cong) (simp add: set_host_u32_other)
  then show "bytes_at ?m 14 (length name) = name" by (simp only: bytes_at_store_same)
  have "bytes_at ?m (14 + length name) (95 - length name) = bytes_at junk (14 + length name) (95 - length name)"
    using k by (intro bytes_at_cong) (simp add: other len)
  then show "bytes_at ?m (14 + length name) (95 - length name) = behind_name junk path"
    by (simp add: behind_name_def name_def)
  show "bytes_at ?m 110 4 = [0, 0, 0, 0]" by (simp add: set_host_u32_def be32_def bytes_at_store_same)
qed

lemma put_typefile_record:
  assumes "os_localtime os stamp = Some tm"
  shows "\<exists>m. put_typefile os junk path sz stamp = Some m
    \<and> bytes_at m 0 sizeof_typefile = start_bytes tm path sz (behind_name junk path)"
  using put_typefile_fields [OF assms, of junk path sz] typefile_slices [of "length (map of_char (take 94 path) @ [0] :: u8 list)"]
  by (auto simp: start_bytes_def)

lemma length_start_record: "start_record tm path sz tb \<Longrightarrow> length tb = sizeof_typefile"
  by (auto simp: start_record_def tfdt_bytes_def)

lemma file_start_request:
  assumes "start_record tm path sz tb"
  shows "\<exists>req. tf_req_putdata (tf_req_init junk TF_MSG_HDD_FILE_START) tb = Some req \<and> building req TF_MSG_HDD_FILE_START tb"
  using putdata.put_building [OF building_init, of tb junk TF_MSG_HDD_FILE_START] length_start_record [OF assms] by simp

lemma put_data_request:
  assumes "16 + length data \<le> 65535"
  shows "\<exists>r1 r2. tf_req_put64 (tf_req_init junk c) offset = Some r1 \<and> tf_req_putdata r1 data = Some r2
    \<and> building r2 c (be64 offset @ data)"
proof -
  obtain r1 where r1: "tf_req_put64 (tf_req_init junk c) offset = Some r1" and b1: "building r1 c (be64 offset)"
    using put64.put_building [OF building_init, of offset junk c] by auto
  from putdata.put_building [OF b1, of data] assms r1 show ?thesis by auto
qed

lemma put_exchange_exact:
  assumes "dev tf = Some fd" and "length path \<le> 65000" and "os_localtime os stamp = Some tm"
    and "answers os fd (timeout tf) (timeout tf) (world s) TF_MSG_HDD_FILE_SEND (enc_file_send DIR_PUT path offset) TF_MSG_SUCCESS q1
      (\<lambda>w1. answers os fd (timeout tf) (timeout tf) w1 TF_MSG_HDD_FILE_START
        (start_bytes tm path sz (behind_name (os_junk os ''typefile'' w1) path)) cmd2 q2 (W w1))"
  shows "\<exists>s' w1. tf_cmd_put os tf path sz stamp offset s
      = Some (if cmd2 = TF_MSG_SUCCESS then 0 else TF_ERR_UNEXPECTED, tf\<lparr>error := 0\<rparr>, s') \<and> W w1 (world s')"
proof -
  let ?tf = "tf\<lparr>error := 0\<rparr>"
  have "8 + length (enc_file_send DIR_PUT path offset) \<le> 65535"
    using assms(2) length_enc_file_send_le [of DIR_PUT path offset] by simp
  then obtain r1 r2 r3 where r: "tf_req_put8 (tf_req_init (os_junk os ''req'' (world s)) TF_MSG_HDD_FILE_SEND) DIR_PUT = Some r1"
      "tf_req_putfilename r1 path True = Some r2" "tf_req_put64 r2 offset = Some r3"
    and b: "building r3 TF_MSG_HDD_FILE_SEND (enc_file_send DIR_PUT path offset)"
    using file_send_request by blast
  obtain req' s0 s1 s2 where d: "tf_req_done os tf r3 s = Some (req', s0)"
    and t: "tf_send os tf req' s0 = (0, ?tf, s1)"
    and rec: "receives os fd (timeout tf) s1 TF_MSG_SUCCESS q1 s2"
    and k: "answers os fd (timeout tf) (timeout tf) (world s2) TF_MSG_HDD_FILE_START
        (start_bytes tm path sz (behind_name (os_junk os ''typefile'' (world s2)) path)) cmd2 q2 (W (world s2))"
    using request_reply [OF assms(1) b assms(4)] by blast
  obtain m s3 where g: "tf_get_response os ?tf (os_junk os ''reply'' (world s1)) s1 = Some (0, m, ?tf, s3)"
    and w: "world s3 = world s2" and h: "holds_reply m TF_MSG_SUCCESS q1"
    using get_response_holds [of ?tf fd os s1 TF_MSG_SUCCESS q1 s2 "os_junk os ''reply'' (world s1)"] assms(1) rec by auto
  obtain tfm where tb: "put_typefile os (os_junk os ''typefile'' (world s3)) path sz stamp = Some tfm"
    and rb: "bytes_at tfm 0 sizeof_typefile = start_bytes tm path sz (behind_name (os_junk os ''typefile'' (world s3)) path)"
    using put_typefile_record [OF assms(3)] by blast
  then have sr: "start_record tm path sz (bytes_at tfm 0 sizeof_typefile)" by (simp only: start_bytes_record)
  obtain r4 where r4: "tf_req_putdata (tf_req_init req' TF_MSG_HDD_FILE_START) (bytes_at tfm 0 sizeof_typefile) = Some r4"
    and b4: "building r4 TF_MSG_HDD_FILE_START (bytes_at tfm 0 sizeof_typefile)"
    using file_start_request [OF sr] by blast
  have ans2: "answers os fd (timeout ?tf) (timeout ?tf) (world s3) TF_MSG_HDD_FILE_START (bytes_at tfm 0 sizeof_typefile) cmd2 q2 (W (world s2))"
    using k by (simp add: rb w)
  have dtf: "dev ?tf = Some fd" using assms(1) by simp
  obtain req2 s4 s5 s6 where d2: "tf_req_done os ?tf r4 s3 = Some (req2, s4)"
    and t2: "tf_send os ?tf req2 s4 = (0, ?tf, s5)"
    and rec2: "receives os fd (timeout ?tf) s5 cmd2 q2 s6" and W: "W (world s2) (world s6)"
    using request_reply [OF dtf b4 ans2] by auto
  obtain m2 s7 where g2: "tf_get_response os ?tf m s5 = Some (0, m2, ?tf, s7)"
    and w2: "world s7 = world s6" and h2: "holds_reply m2 cmd2 q2"
    using get_response_holds [OF dtf rec2, of m] by auto
  have c: "reply_cmd m = TF_MSG_SUCCESS" "reply_cmd m2 = cmd2"
    using h h2 by (simp_all add: holds_reply_def)
  show ?thesis
    using r d t g tb r4 d2 t2 g2 c W w2
    by (intro exI [of _ s7] exI [of _ "world s2"]) (simp add: tf_cmd_put_def)
qed

lemma put_exchange:
  assumes "dev tf = Some fd" and "length path \<le> 65000" and "os_localtime os stamp = Some tm"
    and "answers os fd (timeout tf) (timeout tf) (world s) TF_MSG_HDD_FILE_SEND (enc_file_send DIR_PUT path offset) TF_MSG_SUCCESS q1
      (\<lambda>w1. \<forall>tb. start_record tm path sz tb \<longrightarrow>
        answers os fd (timeout tf) (timeout tf) w1 TF_MSG_HDD_FILE_START tb cmd2 q2 (W tb))"
  shows "\<exists>s' tb. tf_cmd_put os tf path sz stamp offset s
      = Some (if cmd2 = TF_MSG_SUCCESS then 0 else TF_ERR_UNEXPECTED, tf\<lparr>error := 0\<rparr>, s')
    \<and> start_record tm path sz tb \<and> W tb (world s')"
proof -
  let ?tb = "\<lambda>w1. start_bytes tm path sz (behind_name (os_junk os ''typefile'' w1) path)"
  have "answers os fd (timeout tf) (timeout tf) (world s) TF_MSG_HDD_FILE_SEND (enc_file_send DIR_PUT path offset) TF_MSG_SUCCESS q1
      (\<lambda>w1. answers os fd (timeout tf) (timeout tf) w1 TF_MSG_HDD_FILE_START (?tb w1) cmd2 q2 (W (?tb w1)))"
    by (rule answers_mono [OF assms(4)]) (simp add: start_bytes_record)
  from put_exchange_exact [OF assms(1-3) this] show ?thesis using start_bytes_record by blast
qed


text \<open>Starting to store a file: the request names the file and offset, and after a SUCCESS the
  description of the file follows, with the date converted, the name cut to 94 characters and
  the size in host order; the second reply decides the result.\<close>

theorem put_start:
  assumes "dev tf = Some fd" and "length path \<le> 65000" and "os_localtime os stamp = Some tm"
    and "answers os fd (timeout tf) (timeout tf) (world s) TF_MSG_HDD_FILE_SEND (enc_file_send DIR_PUT path offset) TF_MSG_SUCCESS q1
      (\<lambda>w1. \<forall>tb. start_record tm path sz tb \<longrightarrow>
        answers os fd (timeout tf) (timeout tf) w1 TF_MSG_HDD_FILE_START tb cmd2 q2 W)"
  shows "\<exists>s'. tf_cmd_put os tf path sz stamp offset s
      = Some (if cmd2 = TF_MSG_SUCCESS then 0 else TF_ERR_UNEXPECTED, tf\<lparr>error := 0\<rparr>, s') \<and> W (world s')"
  using put_exchange [of tf fd path os stamp tm s offset q1 sz cmd2 q2 "\<lambda>tb. W"] assms by auto

text \<open>C24. What starts the storing of a file is exactly the date, the type, the size in host order, the
  name cut to 94 characters with its end, and then, up to the last five bytes of the record,
  whatever the stack held there: the bytes behind the name are sent to the device uninitialised.
  The second reply decides the result.\<close>

theorem put_sends_stack:
  assumes "dev tf = Some fd" and "length path \<le> 65000" and "os_localtime os stamp = Some tm"
    and "answers os fd (timeout tf) (timeout tf) (world s) TF_MSG_HDD_FILE_SEND (enc_file_send DIR_PUT path offset) TF_MSG_SUCCESS q1
      (\<lambda>w1. answers os fd (timeout tf) (timeout tf) w1 TF_MSG_HDD_FILE_START
        (start_bytes tm path sz (behind_name (os_junk os ''typefile'' w1) path)) cmd2 q2 W)"
  shows "\<exists>s'. tf_cmd_put os tf path sz stamp offset s
      = Some (if cmd2 = TF_MSG_SUCCESS then 0 else TF_ERR_UNEXPECTED, tf\<lparr>error := 0\<rparr>, s') \<and> W (world s')"
  using put_exchange_exact [OF assms] by blast

theorem put_sends_stack_witness:
  "\<exists>s'. tf_cmd_put script_os script_handle ''/A.rec'' 4096 106001 0 (script_sys [wire TF_MSG_SUCCESS [], wire TF_MSG_SUCCESS []])
      = Some (0, script_handle\<lparr>error := 0\<rparr>, s')
    \<and> outbox (world s') = [wire TF_MSG_HDD_FILE_SEND (enc_file_send DIR_PUT ''/A.rec'' 0), wire TF_MSG_HDD_FILE_START
      (start_bytes \<lparr>tm_sec = 0, tm_min = 0, tm_hour = 0, tm_mday = 1, tm_mon = 0, tm_year = 106, tm_wday = 0, tm_yday = 0, tm_isdst = 0\<rparr>
        ''/A.rec'' 4096 (replicate 88 0xEE))]"
proof -
  let ?s = "script_sys [wire TF_MSG_SUCCESS [], wire TF_MSG_SUCCESS []]" and ?t = "timeout script_handle"
  let ?tm = "\<lparr>tm_sec = 0, tm_min = 0, tm_hour = 0, tm_mday = 1, tm_mon = 0, tm_year = 106,
       tm_wday = 0, tm_yday = 0, tm_isdst = 0\<rparr> :: tm"
  let ?start = "start_bytes ?tm ''/A.rec'' 4096 (replicate 88 0xEE)"
  let ?W = "\<lambda>w. outbox w = [wire TF_MSG_HDD_FILE_SEND (enc_file_send DIR_PUT ''/A.rec'' 0), wire TF_MSG_HDD_FILE_START ?start]"
  have local: "os_localtime script_os 106001 = Some ?tm" by (simp add: script_os_def)
  have ee: "bytes_at (\<lambda>i. 0xEE) a n = replicate n 0xEE" for a n
    by (simp add: bytes_at_def map_replicate_const)
  have junk: "behind_name (os_junk script_os ''typefile'' w1) ''/A.rec'' = replicate 88 0xEE" for w1
    using ee [of "15 + 6" "94 - 6"] by (simp add: behind_name_def script_os_def)
  have len: "length ?start = 114" by (simp add: start_bytes_def tfdt_bytes_def)
  have "answers script_os 3 ?t ?t (world ?s) TF_MSG_HDD_FILE_SEND (enc_file_send DIR_PUT ''/A.rec'' 0) TF_MSG_SUCCESS []
      (\<lambda>w1. answers script_os 3 ?t ?t w1 TF_MSG_HDD_FILE_START
        (start_bytes ?tm ''/A.rec'' 4096 (behind_name (os_junk script_os ''typefile'' w1) ''/A.rec'')) TF_MSG_SUCCESS [] ?W)"
    unfolding junk
    by (rule script_answers [where ps = "[wire TF_MSG_SUCCESS []]"], simp add: enc_file_send_def enc_filename_def, simp,
        simp add: script_sys_def, rule script_answers [where ps = "[]"], simp add: len, simp, simp,
        simp add: script_sys_def len enc_file_send_def enc_filename_def)
  from put_sends_stack [OF script_handle_simps(1) _ local this] show ?thesis by simp
qed

lemma put_data_exchange:
  assumes "dev tf = Some fd" and "16 + length data \<le> 65535"
    and "answers os fd (timeout tf) (timeout tf * 2) (world s) TF_MSG_HDD_FILE_DATA (be64 offset @ data) cmd q W"
  shows "\<exists>s'. tf_cmd_put_data os tf offset data s
      = Some (if cmd = TF_MSG_SUCCESS then 0 else TF_ERR_UNEXPECTED, tf\<lparr>error := 0\<rparr>, s') \<and> W (world s')"
proof -
  let ?tf = "tf\<lparr>error := 0, timeout := timeout tf * 2\<rparr>"
  obtain r1 r2 where r: "tf_req_put64 (tf_req_init (os_junk os ''req'' (world s)) TF_MSG_HDD_FILE_DATA) offset = Some r1"
      "tf_req_putdata r1 data = Some r2" and b: "building r2 TF_MSG_HDD_FILE_DATA (be64 offset @ data)"
    using put_data_request [OF assms(2)] by blast
  obtain req' s0 s1 s2 where d: "tf_req_done os tf r2 s = Some (req', s0)"
    and t: "tf_send os tf req' s0 = (0, tf\<lparr>error := 0\<rparr>, s1)"
    and rec: "receives os fd (timeout tf * 2) s1 cmd q s2" and W: "W (world s2)"
    using request_reply [OF assms(1) b assms(3)] by blast
  obtain m s3 where g: "tf_get_response os ?tf (os_junk os ''reply'' (world s1)) s1 = Some (0, m, ?tf, s3)"
    and w: "world s3 = world s2" and h: "holds_reply m cmd q"
    using get_response_holds [of ?tf fd os s1 cmd q s2 "os_junk os ''reply'' (world s1)"] assms(1) rec by auto
  have "reply_cmd m = cmd" using h by (simp add: holds_reply_def)
  moreover have "tf\<lparr>error := 0, timeout := timeout tf * 2\<rparr> = tf\<lparr>timeout := timeout tf * 2, error := 0\<rparr>" by simp
  ultimately show ?thesis
    using r d t g W w by (simp add: tf_cmd_put_data_def)
qed

lemma put_done_exchange:
  assumes "dev tf = Some fd"
    and "answers os fd (timeout tf) (timeout tf) (world s) TF_MSG_HDD_FILE_END [] cmd q
      (\<lambda>w. if cmd = TF_MSG_SUCCESS then W w else answers os fd (timeout tf) (timeout tf) w TF_MSG_CANCEL [] c2 q2 W)"
  shows "\<exists>tf' s'. tf_cmd_put_done os tf s = Some (if cmd = TF_MSG_SUCCESS then 0 else TF_ERR_UNEXPECTED, tf', s') \<and> W (world s')
    \<and> (cmd = TF_MSG_SUCCESS \<longrightarrow> tf' = tf\<lparr>error := 0\<rparr>)"
proof -
  let ?tf = "tf\<lparr>error := 0\<rparr>"
  obtain req' s0 s1 s2 where d: "tf_req_done os tf (tf_req_init (os_junk os ''req'' (world s)) TF_MSG_HDD_FILE_END) s = Some (req', s0)"
    and t: "tf_send os tf req' s0 = (0, ?tf, s1)"
    and rec: "receives os fd (timeout tf) s1 cmd q s2"
    and k: "if cmd = TF_MSG_SUCCESS then W (world s2) else answers os fd (timeout tf) (timeout tf) (world s2) TF_MSG_CANCEL [] c2 q2 W"
    using request_reply [OF assms(1) building_init assms(2)] by blast
  obtain m s3 where g: "tf_get_response os ?tf (os_junk os ''reply'' (world s1)) s1 = Some (0, m, ?tf, s3)"
    and w: "world s3 = world s2" and h: "holds_reply m cmd q"
    using get_response_holds [of ?tf fd os s1 cmd q s2 "os_junk os ''reply'' (world s1)"] assms(1) rec by auto
  have c: "reply_cmd m = cmd" using h by (simp add: holds_reply_def)
  show ?thesis
  proof (cases "cmd = TF_MSG_SUCCESS")
    case True
    with d t g c k w show ?thesis by (simp add: tf_cmd_put_done_def)
  next
    case False
    have dtf: "dev ?tf = Some fd" using assms(1) by simp
    from False k w have ans: "answers os fd (timeout ?tf) (timeout ?tf) (world s3) TF_MSG_CANCEL [] c2 q2 W" by simp
    obtain s4 where "tf_cmd_cancel os ?tf s3 = Some (cmd_result c2 q2, ?tf\<lparr>error := cmd_result c2 q2\<rparr>, s4)" "W (world s4)"
      using cmd_cancel.exchange [OF _ dtf ans] by auto
    with False d t g c show ?thesis by (auto simp: tf_cmd_put_done_def)
  qed
qed

text \<open>Closing a stored file: a SUCCESS gives 0; any other reply gives \<^verbatim>\<open>TF_ERR_UNEXPECTED\<close> after
  one more exchange that cancels the transfer, whose outcome does not change the result.\<close>

theorem put_done_outcome:
  assumes "dev tf = Some fd"
    and "answers os fd (timeout tf) (timeout tf) (world s) TF_MSG_HDD_FILE_END [] cmd q
      (\<lambda>w. if cmd = TF_MSG_SUCCESS then W w else answers os fd (timeout tf) (timeout tf) w TF_MSG_CANCEL [] c2 q2 W)"
  shows "\<exists>tf' s'. tf_cmd_put_done os tf s = Some (if cmd = TF_MSG_SUCCESS then 0 else TF_ERR_UNEXPECTED, tf', s') \<and> W (world s')"
  using put_done_exchange [OF assms] by blast

theorem put_done_outcome_witness:
  "\<exists>tf' s'. tf_cmd_put_done script_os script_handle (script_sys [wire TF_MSG_FAIL [], wire TF_MSG_SUCCESS []])
      = Some (TF_ERR_UNEXPECTED, tf', s') \<and> outbox (world s') = [wire TF_MSG_HDD_FILE_END [], wire TF_MSG_CANCEL []]"
proof -
  let ?s = "script_sys [wire TF_MSG_FAIL [], wire TF_MSG_SUCCESS []]"
  let ?W = "\<lambda>w. outbox w = [wire TF_MSG_HDD_FILE_END [], wire TF_MSG_CANCEL []]"
  have "answers script_os 3 (timeout script_handle) (timeout script_handle) (world ?s) TF_MSG_HDD_FILE_END [] TF_MSG_FAIL []
      (\<lambda>w. if TF_MSG_FAIL = TF_MSG_SUCCESS then ?W w
        else answers script_os 3 (timeout script_handle) (timeout script_handle) w TF_MSG_CANCEL [] TF_MSG_SUCCESS [] ?W)"
    by (rule script_answers [where ps = "[wire TF_MSG_SUCCESS []]"], simp, simp, simp add: script_sys_def, subst if_not_P, simp,
        rule script_answers [where ps = "[]"], simp, simp, simp add: script_sys_def, simp add: script_sys_def)
  from put_done_outcome [OF script_handle_simps(1) this] show ?thesis by simp
qed

theorem put_start_witness:
  "\<exists>s'. tf_cmd_put script_os script_handle ''/A.rec'' 4096 106001 0 (script_sys [wire TF_MSG_SUCCESS [], wire TF_MSG_SUCCESS []])
      = Some (0, script_handle\<lparr>error := 0\<rparr>, s') \<and> inbox (world s') = [] \<and> length (outbox (world s')) = 2"
proof -
  let ?s = "script_sys [wire TF_MSG_SUCCESS [], wire TF_MSG_SUCCESS []]" and ?t = "timeout script_handle"
  let ?tm = "\<lparr>tm_sec = 0, tm_min = 0, tm_hour = 0, tm_mday = 1, tm_mon = 0, tm_year = 106,
       tm_wday = 0, tm_yday = 0, tm_isdst = 0\<rparr> :: tm"
  have local: "os_localtime script_os 106001 = Some ?tm" by (simp add: script_os_def)
  have "answers script_os 3 ?t ?t (world ?s) TF_MSG_HDD_FILE_SEND (enc_file_send DIR_PUT ''/A.rec'' 0) TF_MSG_SUCCESS []
      (\<lambda>w1. \<forall>tb. start_record ?tm ''/A.rec'' 4096 tb \<longrightarrow>
        answers script_os 3 ?t ?t w1 TF_MSG_HDD_FILE_START tb TF_MSG_SUCCESS [] (\<lambda>w. inbox w = [] \<and> length (outbox w) = 2))"
    by (rule script_answers [where ps = "[wire TF_MSG_SUCCESS []]"], simp add: enc_file_send_def enc_filename_def, simp,
        simp add: script_sys_def, intro allI impI,
        rule script_answers [where ps = "[]"], simp add: length_start_record, simp, simp, simp add: script_sys_def)
  from put_start [OF script_handle_simps(1) _ local this] show ?thesis by simp
qed

lemma get_exchange:
  assumes "dev tf = Some fd" and "length path \<le> 65000"
    and "answers os fd (timeout tf) (timeout tf) (world s) TF_MSG_HDD_FILE_SEND (enc_file_send DIR_GET path offset) cmd q W"
  shows "\<exists>m s'. tf_cmd_get os tf path offset dirent s =
      (if cmd = TF_MSG_HDD_FILE_START then do {
         dirent \<leftarrow> unpack_dirent os m 8;
         Some (0, dirent, tf\<lparr>error := 0\<rparr>, s')
       }
       else Some (if cmd = TF_MSG_FAIL then sint (- fail_reason q) else TF_ERR_UNEXPECTED, dirent, tf\<lparr>error := 0\<rparr>, s'))
    \<and> holds_reply m cmd q \<and> W (world s')"
proof -
  let ?tf = "tf\<lparr>error := 0\<rparr>"
  have "8 + length (enc_file_send DIR_GET path offset) \<le> 65535"
    using assms(2) length_enc_file_send_le [of DIR_GET path offset] by simp
  then obtain r1 r2 r3 where r: "tf_req_put8 (tf_req_init (os_junk os ''req'' (world s)) TF_MSG_HDD_FILE_SEND) DIR_GET = Some r1"
      "tf_req_putfilename r1 path True = Some r2" "tf_req_put64 r2 offset = Some r3"
    and b: "building r3 TF_MSG_HDD_FILE_SEND (enc_file_send DIR_GET path offset)"
    using file_send_request by blast
  obtain req' s0 s1 s2 where d: "tf_req_done os tf r3 s = Some (req', s0)"
    and t: "tf_send os tf req' s0 = (0, ?tf, s1)"
    and rec: "receives os fd (timeout tf) s1 cmd q s2" and W: "W (world s2)"
    using request_reply [OF assms(1) b assms(3)] by blast
  obtain m s3 where g: "tf_get_response os ?tf (os_junk os ''reply'' (world s1)) s1 = Some (0, m, ?tf, s3)"
    and w: "world s3 = world s2" and h: "holds_reply m cmd q"
    using get_response_holds [of ?tf fd os s1 cmd q s2 "os_junk os ''reply'' (world s1)"] assms(1) rec by auto
  have "reply_cmd m = cmd" and "cmd = TF_MSG_FAIL \<Longrightarrow> fail_code m = sint (- fail_reason q)"
    using h by (auto simp: holds_reply_def intro: fail_code_reason)
  with r d t g h W w show ?thesis
    by (intro exI [of _ m] exI [of _ s3]) (simp add: tf_cmd_get_def)
qed

text \<open>Starting to receive a file: a FILE_START gives 0 and the decoded description of the file, a
  FAIL the negated reason, anything else \<^verbatim>\<open>TF_ERR_UNEXPECTED\<close>; none of these results is stored in
  the handle.\<close>

theorem get_start:
  assumes "dev tf = Some fd" and "length path \<le> 65000" and "cmd = TF_MSG_HDD_FILE_START \<longrightarrow> q = enc_typefile e \<and> wf_typefile e"
    and "answers os fd (timeout tf) (timeout tf) (world s) TF_MSG_HDD_FILE_SEND (enc_file_send DIR_GET path offset) cmd q W"
  shows "\<exists>s'. tf_cmd_get os tf path offset dirent s
      = Some (if cmd = TF_MSG_HDD_FILE_START then 0 else if cmd = TF_MSG_FAIL then sint (- fail_reason q) else TF_ERR_UNEXPECTED,
              if cmd = TF_MSG_HDD_FILE_START then dirent_of os e else dirent, tf\<lparr>error := 0\<rparr>, s') \<and> W (world s')"
proof -
  obtain m s' where g: "tf_cmd_get os tf path offset dirent s =
      (if cmd = TF_MSG_HDD_FILE_START then do {
         dirent \<leftarrow> unpack_dirent os m 8;
         Some (0, dirent, tf\<lparr>error := 0\<rparr>, s')
       }
       else Some (if cmd = TF_MSG_FAIL then sint (- fail_reason q) else TF_ERR_UNEXPECTED, dirent, tf\<lparr>error := 0\<rparr>, s'))"
    and h: "holds_reply m cmd q" and W: "W (world s')"
    using get_exchange [OF assms(1,2,4)] by blast
  have "unpack_dirent os m 8 = Some (dirent_of os e)" if "cmd = TF_MSG_HDD_FILE_START"
  proof -
    from that assms(3) have q: "q = enc_typefile e" and wf: "wf_typefile e" by simp_all
    have "bytes_at m 8 sizeof_typefile = enc_typefile e"
      using h length_enc_typefile [OF wf] by (simp add: holds_reply_def q)
    with wf show ?thesis by (rule unpack_enc)
  qed
  with g W show ?thesis by simp
qed

theorem get_start_witness:
  "\<exists>s'. tf_cmd_get script_os script_handle ''/A.rec'' 0 \<lparr>d_stamp = 0, d_type = CHR ''f'', d_size = 0, d_name = [], d_attrib = 0\<rparr>
      (script_sys [wire TF_MSG_HDD_FILE_START (enc_typefile script_entry)])
      = Some (0, dirent_of script_os script_entry, script_handle\<lparr>error := 0\<rparr>, s') \<and> inbox (world s') = []"
proof -
  have len: "length (enc_typefile script_entry) = 114"
    using script_entry_page by (simp add: enc_page_def)
  have ans: "answers script_os 3 (timeout script_handle) (timeout script_handle)
      (world (script_sys [wire TF_MSG_HDD_FILE_START (enc_typefile script_entry)]))
      TF_MSG_HDD_FILE_SEND (enc_file_send DIR_GET ''/A.rec'' 0) TF_MSG_HDD_FILE_START (enc_typefile script_entry) (\<lambda>w. inbox w = [])"
    by (rule script_answers [where ps = "[]"]) (simp_all add: script_sys_def enc_file_send_def enc_filename_def len)
  have "TF_MSG_HDD_FILE_START = TF_MSG_HDD_FILE_START \<longrightarrow> enc_typefile script_entry = enc_typefile script_entry \<and> wf_typefile script_entry"
    using script_entry_page by (simp add: wf_page_def)
  from get_start [OF script_handle_simps(1) _ this ans] show ?thesis by simp
qed

lemma get_cancel_loop_contract:
  "get_cancel_loop os n ret tf s = Some (ret', tf', s') \<Longrightarrow>
     same_session tf tf' \<and> pending tf' = pending tf \<and> (0 < n \<longrightarrow> error tf' = ret')"
proof (induction n arbitrary: ret tf s)
  case (Suc n)
  obtain r1 tf1 s1 where f: "tf_send_fail os tf TF_ERR_CRC s = Some (r1, tf1, s1)"
    using Suc.prems by (auto simp: Option.bind_eq_Some_conv)
  then have 1: "same_session tf tf1" "pending tf1 = pending tf"
    using send_fail.keeps_session by (auto simp: tf_send_fail_def Option.bind_eq_Some_conv dest!: tf_send_error)
  obtain r2 tf2 s2 where c: "tf_cmd_cancel os tf1 s1 = Some (r2, tf2, s2)"
    using Suc.prems f by (auto simp: Option.bind_eq_Some_conv)
  have 2: "same_session tf tf2" "error tf2 = r2"
    using cmd_cancel.keeps_after [OF 1(1) c] cmd_cancel.stores_error [OF c] by auto
  have p2: "pending tf2 = pending tf"
    using cmd_cancel.keeps_transfer [OF c] 1(2) by simp
  show ?case
  proof (cases "r2 = 0")
    case True
    with Suc.prems f c 2 p2 show ?thesis by simp
  next
    case False
    then obtain r3 m tf3 s3 where g: "tf_get_response os tf2 (os_junk os ''reply'' (world (sleep os 2 s2))) (sleep os 2 s2) = Some (r3, m, tf3, s3)"
      using Suc.prems f c by (auto simp: Option.bind_eq_Some_conv Let_def)
    then have tf3: "tf3 = tf2\<lparr>error := r3\<rparr>" by (auto dest: get_response_error)
    have 3: "same_session tf tf3" "pending tf3 = pending tf" "error tf3 = r3"
      using 2(1) p2 by (auto simp: tf3 same_session_def)
    show ?thesis
    proof (cases "r3 = 0")
      case True
      with Suc.prems f c g False 3 show ?thesis by simp
    next
      case r3: False
      with Suc.prems f c g False have l: "get_cancel_loop os n r3 tf3 s3 = Some (ret', tf', s')" by simp
      from Suc.IH [OF l] 3 same_session_trans show ?thesis
        using l by (cases n) auto
    qed
  qed
qed simp

text \<open>Cancelling a transfer returns after at most five attempts; nothing is pending afterwards, the
  session is kept and the handle's error is the result.\<close>

theorem get_cancel_contract:
  assumes "tf_cmd_get_cancel os tf s = Some (ret, tf', s')"
  shows "pending tf' = 0 \<and> same_session tf tf' \<and> error tf' = ret"
proof (cases "pending tf = 0")
  case True
  with assms have "get_cancel_loop os 5 0 tf s = Some (ret, tf', s')" by (simp add: tf_cmd_get_cancel_def)
  from get_cancel_loop_contract [OF this] True show ?thesis by simp
next
  case False
  with assms obtain r m tf1 s1 where
      g: "tf_get_response os (tf\<lparr>pending := 0\<rparr>) (os_junk os ''reply'' (world s)) s = Some (r, m, tf1, s1)"
    and l: "get_cancel_loop os 5 0 tf1 s1 = Some (ret, tf', s')"
    by (auto simp: tf_cmd_get_cancel_def Option.bind_eq_Some_conv split: prod.splits)
  have "tf1 = tf\<lparr>pending := 0, error := r\<rparr>" using get_response_error [OF g] by simp
  with get_cancel_loop_contract [OF l] show ?thesis by (auto simp: same_session_def)
qed

text \<open>Cancelling while a packet is pending: that packet is read and discarded, a FAIL with the
  32 bit reason -1 and a CANCEL are sent, and when the device accepts the first attempt the
  result is 0.\<close>

theorem get_cancel_pending:
  assumes "dev tf = Some fd" and "pending tf \<noteq> 0"
    and "delivers os fd (timeout tf) (world s) cmd0 q0
      (\<lambda>w. takes os fd (timeout tf) w TF_MSG_FAIL (be32 (-1))
        (\<lambda>s. answers os fd (timeout tf) (timeout tf) (world s) TF_MSG_CANCEL [] TF_MSG_SUCCESS q W))"
  shows "\<exists>s'. tf_cmd_get_cancel os tf s = Some (0, tf\<lparr>pending := 0, error := 0\<rparr>, s') \<and> W (world s')"
proof -
  let ?tf = "tf\<lparr>pending := 0, error := 0\<rparr>"
  obtain s1 where r: "receives os fd (timeout tf) s cmd0 q0 s1"
    and k: "takes os fd (timeout tf) (world s1) TF_MSG_FAIL (be32 (-1))
        (\<lambda>s. answers os fd (timeout tf) (timeout tf) (world s) TF_MSG_CANCEL [] TF_MSG_SUCCESS q W)"
    using assms(3) unfolding delivers_def by blast
  obtain m s2 where g: "tf_get_response os (tf\<lparr>pending := 0\<rparr>) (os_junk os ''reply'' (world s)) s = Some (0, m, ?tf, s2)"
    and w: "world s2 = world s1"
    using get_response_holds [of "tf\<lparr>pending := 0\<rparr>" fd os s cmd0 q0 s1 "os_junk os ''reply'' (world s)"] assms(1) r by auto
  have dtf: "dev ?tf = Some fd" using assms(1) by simp
  obtain s3 where f: "tf_send_fail os ?tf TF_ERR_CRC s2 = Some (0, ?tf, s3)"
    and ans: "answers os fd (timeout tf) (timeout tf) (world s3) TF_MSG_CANCEL [] TF_MSG_SUCCESS q W"
    using send_fail_sent [of ?tf fd os s2 TF_ERR_CRC] assms(1) k w by auto
  have res: "cmd_result TF_MSG_SUCCESS q = 0" by (simp add: cmd_result_def)
  obtain s4 where "tf_cmd_cancel os ?tf s3 = Some (0, ?tf, s4)" "W (world s4)"
    using cmd_cancel.exchange [of ?tf fd os s3 TF_MSG_SUCCESS q W] dtf ans res by auto
  with g f assms(2) show ?thesis
    by (simp add: tf_cmd_get_cancel_def eval_nat_numeral)
qed

theorem get_cancel_pending_witness:
  "\<exists>s'. tf_cmd_get_cancel script_os (script_handle\<lparr>pending := 1\<rparr>)
      (script_sys [wire TF_MSG_HDD_FILE_DATA (be64 0), wire TF_MSG_SUCCESS []])
      = Some (0, script_handle\<lparr>pending := 1, pending := 0, error := 0\<rparr>, s')
    \<and> outbox (world s') = [wire TF_MSG_FAIL [0xFF, 0xFF, 0xFF, 0xFF], wire TF_MSG_CANCEL []]"
proof -
  let ?tf = "script_handle\<lparr>pending := 1\<rparr>"
  have "be32 0xFFFFFFFF = [0xFF, 0xFF, 0xFF, 0xFF]" by (simp add: be32_def)
  moreover have "(-1 :: u32) = 0xFFFFFFFF" by simp
  ultimately have b: "be32 (-1) = [0xFF, 0xFF, 0xFF, 0xFF]" by (simp only:)
  have d: "dev ?tf = Some 3" "pending ?tf \<noteq> 0" by simp_all
  have "delivers script_os 3 (timeout ?tf) (world (script_sys [wire TF_MSG_HDD_FILE_DATA (be64 0), wire TF_MSG_SUCCESS []]))
      TF_MSG_HDD_FILE_DATA (be64 0)
      (\<lambda>w. takes script_os 3 (timeout ?tf) w TF_MSG_FAIL (be32 (-1))
        (\<lambda>s. answers script_os 3 (timeout ?tf) (timeout ?tf) (world s) TF_MSG_CANCEL [] TF_MSG_SUCCESS []
          (\<lambda>w. outbox w = [wire TF_MSG_FAIL (be32 (-1)), wire TF_MSG_CANCEL []])))"
    by (rule script_delivers [where ps = "[wire TF_MSG_SUCCESS []]"], simp, simp add: script_sys_def,
        rule script_takes, simp, rule script_answers [where ps = "[]"], simp, simp, simp add: script_sys_def, simp add: script_sys_def)
  from get_cancel_pending [OF d this] show ?thesis unfolding b by simp
qed

theorem get_cancel_contract_witness:
  "\<exists>ret tf' s'. tf_cmd_get_cancel script_os script_handle (script_sys [wire TF_MSG_SUCCESS []]) = Some (ret, tf', s')
    \<and> pending tf' = 0 \<and> error tf' = ret"
proof -
  let ?s = "script_sys [wire TF_MSG_SUCCESS []]"
  have k: "takes script_os 3 (timeout script_handle) (world ?s) TF_MSG_FAIL (be32 (-1))
      (\<lambda>s. answers script_os 3 (timeout script_handle) (timeout script_handle) (world s) TF_MSG_CANCEL [] TF_MSG_SUCCESS [] (\<lambda>w. True))"
    by (rule script_takes, simp, rule script_answers [where ps = "[]"], simp, simp, simp add: script_sys_def, simp)
  obtain s1 where f: "tf_send_fail script_os script_handle TF_ERR_CRC ?s = Some (0, script_handle\<lparr>error := 0\<rparr>, s1)"
    and a: "answers script_os 3 (timeout script_handle) (timeout script_handle) (world s1) TF_MSG_CANCEL [] TF_MSG_SUCCESS [] (\<lambda>w. True)"
    using send_fail_sent [of script_handle 3 script_os ?s TF_ERR_CRC] k by auto
  have "\<exists>s2. tf_cmd_cancel script_os (script_handle\<lparr>error := 0\<rparr>) s1 = Some (0, script_handle\<lparr>error := 0\<rparr>, s2)"
    using cmd_cancel.exchange [of "script_handle\<lparr>error := 0\<rparr>" 3 script_os s1 TF_MSG_SUCCESS "[]"] a by (auto simp: cmd_result_def)
  with f obtain ret tf' s' where "tf_cmd_get_cancel script_os script_handle ?s = Some (ret, tf', s')"
    by (auto simp: tf_cmd_get_cancel_def eval_nat_numeral)
  with get_cancel_contract [OF this] show ?thesis by blast
qed

end
