(* ===== verification/Posix.thy ===== *)
theory Posix
  imports Tf_Handle
begin

text \<open>
  The system calls that opening and locking use, as the fields of a record over an arbitrary
  world, the parts of the C library that read numbers from text, and the documented behaviour
  of the calls as predicates: what they do to the open descriptors, and how often a process
  waits or sends signals. A scripted kernel with one lock file serves the witnesses.
\<close>

section \<open>The calls\<close>

abbreviation (input) O_RDONLY :: int where "O_RDONLY \<equiv> 0"
abbreviation (input) O_WRONLY :: int where "O_WRONLY \<equiv> 1"
abbreviation (input) O_RDWR :: int where "O_RDWR \<equiv> 2"
abbreviation (input) O_CREAT :: int where "O_CREAT \<equiv> 0x40"
abbreviation (input) LOCK_EX :: int where "LOCK_EX \<equiv> 2"
abbreviation (input) LOCK_NB :: int where "LOCK_NB \<equiv> 4"
abbreviation (input) SIGHUP :: int where "SIGHUP \<equiv> 1"
abbreviation (input) EAGAIN :: int where "EAGAIN \<equiv> 11"
abbreviation (input) EACCES :: int where "EACCES \<equiv> 13"
abbreviation (input) F_GETFD :: int where "F_GETFD \<equiv> 1"
abbreviation (input) F_SETFD :: int where "F_SETFD \<equiv> 2"
abbreviation (input) F_SETLK :: int where "F_SETLK \<equiv> 6"
abbreviation (input) F_WRLCK :: int where "F_WRLCK \<equiv> 1"
abbreviation (input) SEEK_SET :: int where "SEEK_SET \<equiv> 0"
abbreviation (input) FD_CLOEXEC :: int where "FD_CLOEXEC \<equiv> 1"

record flock =
  l_type :: int
  l_start :: int
  l_whence :: int
  l_len :: int

datatype usb_request = USBDEVFS_RESET | USBDEVFS_CLAIMINTERFACE | USBDEVFS_SETINTERFACE | USBDEVFS_RELEASEINTERFACE

record 'w posix =
  px_open :: "string \<Rightarrow> int \<Rightarrow> int \<Rightarrow> 'w \<Rightarrow> int \<times> 'w"
  px_close :: "int \<Rightarrow> 'w \<Rightarrow> int \<times> 'w"
  px_read :: "int \<Rightarrow> nat \<Rightarrow> 'w \<Rightarrow> string option \<times> 'w"
  px_write :: "int \<Rightarrow> string \<Rightarrow> 'w \<Rightarrow> int \<times> 'w"
  px_ftruncate :: "int \<Rightarrow> int \<Rightarrow> 'w \<Rightarrow> int \<times> 'w"
  px_flock :: "int \<Rightarrow> int \<Rightarrow> 'w \<Rightarrow> int \<times> 'w"
  px_setlk :: "int \<Rightarrow> int \<Rightarrow> flock \<Rightarrow> 'w \<Rightarrow> int \<times> 'w"
  px_fcntl :: "int \<Rightarrow> int \<Rightarrow> int \<Rightarrow> 'w \<Rightarrow> int \<times> 'w"
  px_ioctl :: "int \<Rightarrow> usb_request \<Rightarrow> int list \<Rightarrow> 'w \<Rightarrow> int \<times> 'w"
  px_kill :: "int \<Rightarrow> int \<Rightarrow> 'w \<Rightarrow> int \<times> 'w"
  px_sleep :: "nat \<Rightarrow> 'w \<Rightarrow> 'w"
  px_fopen :: "string \<Rightarrow> 'w \<Rightarrow> (int \<times> string) option \<times> 'w"
  px_fclose :: "int \<Rightarrow> 'w \<Rightarrow> int \<times> 'w"
  px_malloc :: "nat \<Rightarrow> 'w \<Rightarrow> mem option \<times> 'w"
  px_getpid :: "'w \<Rightarrow> int"
  px_errno :: "'w \<Rightarrow> int"
  px_strerror :: "int \<Rightarrow> string"

text \<open>\<open>px_setlk\<close> is \<^verbatim>\<open>fcntl\<close> with a \<^verbatim>\<open>struct flock\<close>; \<open>px_fopen\<close> opens for reading and gives the
  descriptor of the stream with the text that reading it will deliver; the list argument of
  \<open>px_ioctl\<close> holds the numbers in the structure it points to. A call runs on the world of the
  system.\<close>

definition sys_call :: "('w \<Rightarrow> 'a \<times> 'w) \<Rightarrow> 'w sys \<Rightarrow> 'a \<times> 'w sys" where
  "sys_call f s = (let (r, w) = f (world s) in (r, s\<lparr>world := w\<rparr>))"

lemma sys_call_world: "sys_call f s = (r, s') \<Longrightarrow> f (world s) = (r, world s')"
  by (auto simp: sys_call_def split: prod.splits)

section \<open>Numbers in text\<close>

definition is_space :: "char \<Rightarrow> bool" where
  "is_space c \<longleftrightarrow> c = CHR '' '' \<or> (let n = of_char c :: nat in 9 \<le> n \<and> n \<le> 13)"

definition digit_of :: "nat \<Rightarrow> char \<Rightarrow> nat option" where
  "digit_of base c =
     (let n = of_char c :: nat;
          d = (if 48 \<le> n \<and> n \<le> 57 then n - 48 else if 65 \<le> n \<and> n \<le> 90 then n - 55
               else if 97 \<le> n \<and> n \<le> 122 then n - 87 else base)
      in if d < base then Some d else None)"

text \<open>The longest run of digits, as a number, and what follows.\<close>

fun read_digits :: "nat \<Rightarrow> nat \<Rightarrow> string \<Rightarrow> nat \<times> string" where
  "read_digits base acc [] = (acc, [])"
| "read_digits base acc (c # cs) =
     (case digit_of base c of None \<Rightarrow> (acc, c # cs) | Some d \<Rightarrow> read_digits base (base * acc + d) cs)"

definition read_sign :: "string \<Rightarrow> int \<times> string" where
  "read_sign cs = (case cs of c # rest \<Rightarrow> if c = CHR ''-'' then (-1, rest) else if c = CHR ''+'' then (1, rest) else (1, cs)
     | [] \<Rightarrow> (1, cs))"

text \<open>\<^verbatim>\<open>atoi\<close>; its arguments here have at most nine characters, so that the result fits an \<^verbatim>\<open>int\<close>.\<close>

definition c_atoi :: "string \<Rightarrow> int" where
  "c_atoi cs = (let (sg, rest) = read_sign (dropWhile is_space cs) in sg * int (fst (read_digits 10 0 rest)))"

section \<open>Reading back what was printed\<close>

lemma digit_of_digit_char: "d < 10 \<Longrightarrow> digit_of 10 (digit_char up d) = Some d"
  by (simp add: digit_of_def digit_char_def)

lemma read_digits_map:
  "\<forall>d\<in>set ds. d < 10 \<Longrightarrow> (case rest of [] \<Rightarrow> True | c # cs \<Rightarrow> digit_of 10 c = None) \<Longrightarrow>
     read_digits 10 acc (map (digit_char up) ds @ rest) = (foldl (\<lambda>n d. 10 * n + d) acc ds, rest)"
proof (induction ds arbitrary: acc)
  case Nil
  then show ?case by (cases rest) auto
qed (simp add: digit_of_digit_char)

lemma foldl_radix_digits: "2 \<le> b \<Longrightarrow> foldl (\<lambda>n d. b * n + d) 0 (radix_digits b n) = n"
proof (induction b n rule: radix_digits.induct)
  case (1 b n)
  then show ?case by (subst radix_digits.simps) simp
qed

lemma radix_digits_less: "2 \<le> b \<Longrightarrow> d \<in> set (radix_digits b n) \<Longrightarrow> d < b"
proof (induction b n rule: radix_digits.induct)
  case (1 b n)
  then show ?case by (subst (asm) (2) radix_digits.simps) (auto split: if_splits)
qed

lemma radix_digits_Cons: "\<exists>d ds. radix_digits b n = d # ds"
  by (cases "radix_digits b n") (subst (asm) radix_digits.simps, auto split: if_splits)

lemma length_radix_digits: "2 \<le> b \<Longrightarrow> n < b ^ Suc k \<Longrightarrow> length (radix_digits b n) \<le> Suc k"
proof (induction b n arbitrary: k rule: radix_digits.induct)
  case (1 b n)
  show ?case
  proof (cases "b < 2 \<or> n < b")
    case False
    with 1 obtain j where j: "k = Suc j" by (cases k) auto
    with 1 False have "n div b < b ^ Suc j" by (simp add: less_mult_imp_div_less mult.commute)
    with "1.IH" [OF False _ this] 1 False j show ?thesis by (subst radix_digits.simps) simp
  qed (subst radix_digits.simps, simp)
qed

lemma fmt_int_nonneg: "0 \<le> i \<Longrightarrow> fmt_int i = map (digit_char False) (radix_digits 10 (nat i))"
  by (simp add: fmt_int_def)

lemma digit_char_plain: "d < 10 \<Longrightarrow> \<not> is_space (digit_char up d) \<and> digit_char up d \<noteq> CHR ''-'' \<and> digit_char up d \<noteq> CHR ''+''"
proof -
  assume "d < 10"
  then have "of_char (digit_char up d) = 48 + d" by (simp add: digit_char_def)
  with \<open>d < 10\<close> show ?thesis by (auto simp: is_space_def Let_def)
qed

lemma read_sign_fmt_int:
  assumes "0 \<le> i"
  shows "dropWhile is_space (fmt_int i @ rest) = fmt_int i @ rest" and "read_sign (fmt_int i @ rest) = (1, fmt_int i @ rest)"
proof -
  obtain d ds where r: "radix_digits 10 (nat i) = d # ds" using radix_digits_Cons by blast
  then have "d < 10" using radix_digits_less [of 10 d "nat i"] by simp
  from digit_char_plain [OF this] r assms
  show "dropWhile is_space (fmt_int i @ rest) = fmt_int i @ rest" "read_sign (fmt_int i @ rest) = (1, fmt_int i @ rest)"
    by (simp_all add: fmt_int_nonneg read_sign_def)
qed

lemma read_digits_fmt_int:
  assumes "0 \<le> i" and "case rest of [] \<Rightarrow> True | c # cs \<Rightarrow> digit_of 10 c = None"
  shows "read_digits 10 0 (fmt_int i @ rest) = (nat i, rest)"
  unfolding fmt_int_nonneg [OF assms(1)]
  by (subst read_digits_map [OF _ assms(2)]) (auto dest: radix_digits_less [rotated] simp: foldl_radix_digits)

lemma length_fmt_int: "0 \<le> i \<Longrightarrow> i < 10 ^ Suc k \<Longrightarrow> length (fmt_int i) \<le> Suc k"
  using length_radix_digits [of 10 "nat i" k] by (simp add: fmt_int_nonneg nat_less_iff)

lemma newline_no_digit: "newline = [CHR 0x0A]" "digit_of 10 (CHR 0x0A) = None"
  by (simp_all add: newline_def digit_of_def)

text \<open>A process number with a newline, as the lock files hold it, is read back from the first nine
  characters whatever follows.\<close>

definition pid_line :: "int \<Rightarrow> string" where
  "pid_line pid = fmt_int pid @ newline"

lemma length_pid_line: "0 \<le> pid \<Longrightarrow> pid < 100000000 \<Longrightarrow> length (pid_line pid) \<le> 9"
  using length_fmt_int [of pid 7] by (simp add: pid_line_def newline_def)

locale pid_record =
  fixes render :: "int \<Rightarrow> string" and parse :: "string \<Rightarrow> int" and valid :: "int \<Rightarrow> bool" and sz :: nat
  assumes fits: "valid pid \<Longrightarrow> length (render pid) \<le> sz"
    and parse_render: "valid pid \<Longrightarrow> parse (render pid @ rest) = pid"
begin

lemma parse_first: "valid pid \<Longrightarrow> parse (take sz (render pid @ rest)) = pid"
  using fits [of pid] parse_render [of pid "take (sz - length (render pid)) rest"] by simp

lemma render_inj: "valid p \<Longrightarrow> valid q \<Longrightarrow> render p @ x = render q @ y \<Longrightarrow> p = q"
  by (metis parse_render)

end

interpretation pids: pid_record pid_line c_atoi "\<lambda>p. 0 \<le> p \<and> p < 100000000" 9
proof
  show "0 \<le> pid \<and> pid < 100000000 \<Longrightarrow> length (pid_line pid) \<le> 9" for pid
    by (simp add: length_pid_line)
  show "0 \<le> pid \<and> pid < 100000000 \<Longrightarrow> c_atoi (pid_line pid @ rest) = pid" for pid rest
    by (simp add: c_atoi_def pid_line_def read_sign_fmt_int read_digits_fmt_int newline_no_digit)
qed

section \<open>What the calls do to the process\<close>

text \<open>
  Documented behaviour, over an observation \<open>fds\<close> of the open descriptors: opening gives a new
  one, closing removes it, and nothing else changes the set.
\<close>

definition opens_fds :: "'w posix \<Rightarrow> ('w \<Rightarrow> int set) \<Rightarrow> bool" where
  "opens_fds os fds \<longleftrightarrow>
     (\<forall>p f m w r w'. px_open os p f m w = (r, w') \<longrightarrow>
        (if r < 0 then fds w' = fds w else r \<notin> fds w \<and> fds w' = insert r (fds w))) \<and>
     (\<forall>p w r w'. px_fopen os p w = (r, w') \<longrightarrow>
        (case r of None \<Rightarrow> fds w' = fds w | Some (fd, text) \<Rightarrow> fd \<notin> fds w \<and> fds w' = insert fd (fds w))) \<and>
     (\<forall>w. \<forall>fd\<in>fds w. 0 \<le> fd)"

definition closes_fds :: "'w posix \<Rightarrow> ('w \<Rightarrow> int set) \<Rightarrow> bool" where
  "closes_fds os fds \<longleftrightarrow>
     (\<forall>fd w. fds (snd (px_close os fd w)) = fds w - {fd}) \<and>
     (\<forall>fd w. fds (snd (px_fclose os fd w)) = fds w - {fd})"

text \<open>The calls that leave some observation of the world alone.\<close>

definition keeps_files :: "'w posix \<Rightarrow> ('w \<Rightarrow> 'v) \<Rightarrow> bool" where
  "keeps_files os v \<longleftrightarrow>
     (\<forall>fd n w. v (snd (px_read os fd n w)) = v w) \<and>
     (\<forall>fd bs w. v (snd (px_write os fd bs w)) = v w) \<and>
     (\<forall>fd n w. v (snd (px_ftruncate os fd n w)) = v w) \<and>
     (\<forall>fd opn w. v (snd (px_flock os fd opn w)) = v w) \<and>
     (\<forall>fd cmd l w. v (snd (px_setlk os fd cmd l w)) = v w) \<and>
     (\<forall>fd cmd a w. v (snd (px_fcntl os fd cmd a w)) = v w) \<and>
     (\<forall>fd rq l w. v (snd (px_ioctl os fd rq l w)) = v w) \<and>
     (\<forall>n w. v (snd (px_malloc os n w)) = v w)"

definition keeps_opens :: "'w posix \<Rightarrow> ('w \<Rightarrow> 'v) \<Rightarrow> bool" where
  "keeps_opens os v \<longleftrightarrow>
     (\<forall>p f m w. v (snd (px_open os p f m w)) = v w) \<and>
     (\<forall>p w. v (snd (px_fopen os p w)) = v w) \<and>
     (\<forall>fd w. v (snd (px_close os fd w)) = v w) \<and>
     (\<forall>fd w. v (snd (px_fclose os fd w)) = v w)"

definition fd_table :: "'w posix \<Rightarrow> ('w \<Rightarrow> int set) \<Rightarrow> bool" where
  "fd_table os fds \<longleftrightarrow> opens_fds os fds \<and> closes_fds os fds \<and> keeps_files os fds
     \<and> (\<forall>pid sg w. fds (snd (px_kill os pid sg w)) = fds w) \<and> (\<forall>n w. fds (px_sleep os n w) = fds w)"

lemma sys_call_snd: "sys_call f s = (r, s') \<Longrightarrow> world s' = snd (f (world s))"
  by (auto simp: sys_call_def split: prod.splits)

lemma world_sys_call [simp]: "world (snd (sys_call f s)) = snd (f (world s))"
  by (simp add: sys_call_def split: prod.splits)

lemma keeps_files_calls:
  assumes "keeps_files os v"
  shows "sys_call (px_read os fd n) s = (q, s') \<Longrightarrow> v (world s') = v (world s)"
    and "sys_call (px_write os fd bs) s = (r, s') \<Longrightarrow> v (world s') = v (world s)"
    and "sys_call (px_ftruncate os fd i) s = (r, s') \<Longrightarrow> v (world s') = v (world s)"
    and "sys_call (px_flock os fd opn) s = (r, s') \<Longrightarrow> v (world s') = v (world s)"
    and "sys_call (px_setlk os fd cmd l) s = (r, s') \<Longrightarrow> v (world s') = v (world s)"
    and "sys_call (px_fcntl os fd cmd a) s = (r, s') \<Longrightarrow> v (world s') = v (world s)"
    and "sys_call (px_ioctl os fd rq ls) s = (r, s') \<Longrightarrow> v (world s') = v (world s)"
    and "sys_call (px_malloc os n) s = (b, s') \<Longrightarrow> v (world s') = v (world s)"
  using assms by (simp_all add: keeps_files_def sys_call_snd)

lemma keeps_opens_calls:
  assumes "keeps_opens os v"
  shows "sys_call (px_open os p f m) s = (r, s') \<Longrightarrow> v (world s') = v (world s)"
    and "sys_call (px_fopen os p) s = (b, s') \<Longrightarrow> v (world s') = v (world s)"
    and "sys_call (px_close os fd) s = (r, s') \<Longrightarrow> v (world s') = v (world s)"
    and "sys_call (px_fclose os fd) s = (r, s') \<Longrightarrow> v (world s') = v (world s)"
  using assms by (simp_all add: keeps_opens_def sys_call_snd)

lemma fd_table_opens:
  assumes "fd_table os fds"
  shows "sys_call (px_open os p f m) s = (r, s') \<Longrightarrow> r < 0 \<Longrightarrow> fds (world s') = fds (world s)"
    and "sys_call (px_open os p f m) s = (r, s') \<Longrightarrow> \<not> r < 0 \<Longrightarrow> r \<notin> fds (world s) \<and> fds (world s') = insert r (fds (world s))"
    and "sys_call (px_fopen os p) s = (None, s') \<Longrightarrow> fds (world s') = fds (world s)"
    and "sys_call (px_fopen os p) s = (Some (fd, text), s') \<Longrightarrow> fd \<notin> fds (world s) \<and> fds (world s') = insert fd (fds (world s))"
    and "fd \<in> fds w \<Longrightarrow> 0 \<le> fd"
proof -
  have o: "\<And>p f m w r w'. px_open os p f m w = (r, w') \<Longrightarrow>
      if r < 0 then fds w' = fds w else r \<notin> fds w \<and> fds w' = insert r (fds w)"
    and f: "\<And>p w r w'. px_fopen os p w = (r, w') \<Longrightarrow>
      case r of None \<Rightarrow> fds w' = fds w | Some (fd, text) \<Rightarrow> fd \<notin> fds w \<and> fds w' = insert fd (fds w)"
    and n: "\<And>w fd. fd \<in> fds w \<Longrightarrow> 0 \<le> fd"
    using assms unfolding fd_table_def opens_fds_def by blast+
  show "sys_call (px_open os p f m) s = (r, s') \<Longrightarrow> r < 0 \<Longrightarrow> fds (world s') = fds (world s)"
    and "sys_call (px_open os p f m) s = (r, s') \<Longrightarrow> \<not> r < 0 \<Longrightarrow> r \<notin> fds (world s) \<and> fds (world s') = insert r (fds (world s))"
    and "sys_call (px_fopen os p) s = (None, s') \<Longrightarrow> fds (world s') = fds (world s)"
    and "sys_call (px_fopen os p) s = (Some (fd, text), s') \<Longrightarrow> fd \<notin> fds (world s) \<and> fds (world s') = insert fd (fds (world s))"
    using o [OF sys_call_world] f [OF sys_call_world] by fastforce+
  show "fd \<in> fds w \<Longrightarrow> 0 \<le> fd" by (rule n)
qed

lemma fd_table_calls:
  assumes "fd_table os fds"
  shows "sys_call (px_close os fd) s = (r, s') \<Longrightarrow> fds (world s') = fds (world s) - {fd}"
    and "sys_call (px_fclose os fd) s = (r, s') \<Longrightarrow> fds (world s') = fds (world s) - {fd}"
    and "sys_call (px_kill os pid sg) s = (r, s') \<Longrightarrow> fds (world s') = fds (world s)"
    and "fds (px_sleep os n w) = fds w"
    and "keeps_files os fds"
  using assms by (simp_all add: fd_table_def closes_fds_def sys_call_snd)

text \<open>Waiting: \<open>naps\<close> counts the seconds slept.\<close>

definition counts_naps :: "'w posix \<Rightarrow> ('w \<Rightarrow> nat) \<Rightarrow> bool" where
  "counts_naps os naps \<longleftrightarrow> keeps_files os naps \<and> keeps_opens os naps
     \<and> (\<forall>pid sg w. naps (snd (px_kill os pid sg w)) = naps w) \<and> (\<forall>n w. naps (px_sleep os n w) = naps w + n)"

text \<open>Signals: \<open>sent\<close> lists the signals that this process has sent.\<close>

definition logs_signals :: "'w posix \<Rightarrow> ('w \<Rightarrow> (int \<times> int) list) \<Rightarrow> bool" where
  "logs_signals os sent \<longleftrightarrow> keeps_files os sent \<and> keeps_opens os sent
     \<and> (\<forall>pid sg w. sent (snd (px_kill os pid sg w)) = sent w @ [(pid, sg)]) \<and> (\<forall>n w. sent (px_sleep os n w) = sent w)"

section \<open>A scripted kernel\<close>

text \<open>
  For the witnesses: process 77 and one lock file that every path leads to, with its text and
  the process that holds its lock; a holder that gets a signal exits. Every USB request succeeds,
  and reading \<^verbatim>\<open>/proc/bus/usb/devices\<close> gives a fixed text.
\<close>

record kworld =
  k_fds :: "nat list"
  k_pos :: "int \<Rightarrow> nat"
  k_text :: string
  k_owner :: "int option"
  k_locked :: "int set"
  k_naps :: nat
  k_sent :: "(int \<times> int) list"
  k_devices :: string

definition k_fresh :: "kworld \<Rightarrow> nat" where
  "k_fresh w = Suc (foldr max (k_fds w) 0)"

lemma foldr_max_ge: "x \<in> set xs \<Longrightarrow> (x :: nat) \<le> foldr max xs 0"
  by (induction xs) auto

lemma k_fresh_new: "k_fresh w \<notin> set (k_fds w)"
  using foldr_max_ge [of "k_fresh w" "k_fds w"] by (auto simp: k_fresh_def)

definition k_new :: "kworld \<Rightarrow> kworld" where
  "k_new w = w\<lparr>k_fds := k_fresh w # k_fds w, k_pos := (k_pos w)(int (k_fresh w) := 0),
     k_locked := k_locked w - {int (k_fresh w)}\<rparr>"

definition k_shut :: "int \<Rightarrow> kworld \<Rightarrow> int \<times> kworld" where
  "k_shut fd w = (if 0 \<le> fd \<and> nat fd \<in> set (k_fds w)
     then (0, w\<lparr>k_fds := removeAll (nat fd) (k_fds w), k_owner := (if k_owner w = Some 77 then None else k_owner w),
       k_locked := k_locked w - {fd}\<rparr>)
     else (-1, w))"

definition k_lock :: "kworld \<Rightarrow> int \<times> kworld" where
  "k_lock w = (if k_owner w \<in> {None, Some 77} then (0, w\<lparr>k_owner := Some 77\<rparr>) else (-1, w))"

definition k_flock :: "int \<Rightarrow> kworld \<Rightarrow> int \<times> kworld" where
  "k_flock fd w = (if k_owner w \<in> {None, Some 77} \<and> fd \<in> int ` set (k_fds w) then (0, w\<lparr>k_owner := Some 77, k_locked := insert fd (k_locked w)\<rparr>) else (-1, w))"

definition overwrite :: "string \<Rightarrow> nat \<Rightarrow> string \<Rightarrow> string" where
  "overwrite text p bs = take p (text @ replicate (p - length text) (CHR 0x00)) @ bs @ drop (p + length bs) text"

definition kernel :: "kworld posix" where
  "kernel = \<lparr>px_open = (\<lambda>p f m w. (int (k_fresh w), k_new w)),
     px_close = k_shut,
     px_read = (\<lambda>fd n w. (Some (take n (drop (k_pos w fd) (k_text w))), w)),
     px_write = (\<lambda>fd bs w. (int (length bs), w\<lparr>k_text := overwrite (k_text w) (k_pos w fd) bs\<rparr>)),
     px_ftruncate = (\<lambda>fd n w. (0, w\<lparr>k_text := take (nat n) (k_text w)\<rparr>)),
     px_flock = (\<lambda>fd opn w. k_flock fd w),
     px_setlk = (\<lambda>fd cmd l w. k_lock w),
     px_fcntl = (\<lambda>fd cmd a w. (0, w)),
     px_ioctl = (\<lambda>fd rq l w. (0, w)),
     px_kill = (\<lambda>pid sg w. (0, w\<lparr>k_sent := k_sent w @ [(pid, sg)], k_owner := (if k_owner w = Some pid then None else k_owner w)\<rparr>)),
     px_sleep = (\<lambda>n w. w\<lparr>k_naps := k_naps w + n\<rparr>),
     px_fopen = (\<lambda>p w. (Some (int (k_fresh w), k_devices w), k_new w)),
     px_fclose = k_shut,
     px_malloc = (\<lambda>n w. (Some (\<lambda>i. 0), w)),
     px_getpid = (\<lambda>w. 77), px_errno = (\<lambda>w. EAGAIN), px_strerror = (\<lambda>e. ''error'')\<rparr>"

lemma kernel_simps:
  "px_open kernel p f m w = (int (k_fresh w), k_new w)" "px_close kernel fd w = k_shut fd w"
  "px_read kernel fd n w = (Some (take n (drop (k_pos w fd) (k_text w))), w)"
  "px_write kernel fd bs w = (int (length bs), w\<lparr>k_text := overwrite (k_text w) (k_pos w fd) bs\<rparr>)"
  "px_ftruncate kernel fd i w = (0, w\<lparr>k_text := take (nat i) (k_text w)\<rparr>)"
  "px_flock kernel fd opn w = k_flock fd w" "px_setlk kernel fd cmd l w = k_lock w" "px_fcntl kernel fd cmd a w = (0, w)"
  "px_ioctl kernel fd rq ls w = (0, w)"
  "px_kill kernel pid sg w = (0, w\<lparr>k_sent := k_sent w @ [(pid, sg)], k_owner := (if k_owner w = Some pid then None else k_owner w)\<rparr>)"
  "px_sleep kernel n w = w\<lparr>k_naps := k_naps w + n\<rparr>"
  "px_fopen kernel p w = (Some (int (k_fresh w), k_devices w), k_new w)" "px_fclose kernel fd w = k_shut fd w"
  "px_malloc kernel n w = (Some (\<lambda>i. 0), w)" "px_getpid kernel w = 77" "px_errno kernel w = EAGAIN"
  by (simp_all add: kernel_def)

definition k_sys :: "int option \<Rightarrow> string \<Rightarrow> string \<Rightarrow> kworld sys" where
  "k_sys holder text devices = \<lparr>world = \<lparr>k_fds = [2, 1, 0], k_pos = (\<lambda>fd. 0), k_text = text, k_owner = holder, k_locked = {},
     k_naps = 0, k_sent = [], k_devices = devices\<rparr>, printed = []\<rparr>"

definition k_open_fds :: "kworld \<Rightarrow> int set" where
  "k_open_fds w = int ` set (k_fds w)"

lemma k_open_new: "int (k_fresh w) \<notin> k_open_fds w" "k_open_fds (k_new w) = insert (int (k_fresh w)) (k_open_fds w)"
  using k_fresh_new [of w] by (auto simp: k_open_fds_def k_new_def)

lemma k_open_shut: "k_open_fds (snd (k_shut fd w)) = k_open_fds w - {fd}"
  by (auto simp: k_open_fds_def k_shut_def image_iff)

lemma kernel_fd_table: "fd_table kernel k_open_fds"
proof -
  have "k_open_fds (snd (k_lock w)) = k_open_fds w" "k_open_fds (snd (k_flock fd w)) = k_open_fds w" for fd w
    by (simp_all add: k_lock_def k_flock_def k_open_fds_def)
  then show ?thesis
    unfolding fd_table_def opens_fds_def closes_fds_def keeps_files_def
    by (auto simp: kernel_def k_open_shut k_open_new) (auto simp: k_open_fds_def)
qed

lemma kernel_naps: "counts_naps kernel k_naps"
  by (simp add: counts_naps_def keeps_files_def keeps_opens_def kernel_def k_lock_def k_flock_def k_shut_def k_new_def)

lemma kernel_signals: "logs_signals kernel k_sent"
  by (simp add: logs_signals_def keeps_files_def keeps_opens_def kernel_def k_lock_def k_flock_def k_shut_def k_new_def)

end
