(* ===== verification/Daemon.thy ===== *)
theory Daemon
  imports Posix
begin

text \<open>
  The lock file of a daemon, \<^verbatim>\<open>daemon.c\<close>: a record lock on the file, taken with a bounded number
  of tries, and the number of the holder's process as the file's text.
\<close>

section \<open>Definitions\<close>

definition lock_reg :: "'w posix \<Rightarrow> int \<Rightarrow> int \<Rightarrow> int \<Rightarrow> int \<Rightarrow> int \<Rightarrow> int \<Rightarrow> 'w sys \<Rightarrow> int \<times> 'w sys" where
  "lock_reg os fd cmd ty offset whence len s =
     sys_call (px_setlk os fd cmd \<lparr>l_type = ty, l_start = offset, l_whence = whence, l_len = len\<rparr>) s"

definition daemon_release_lock :: "'w posix \<Rightarrow> int \<Rightarrow> 'w sys \<Rightarrow> int \<times> 'w sys" where
  "daemon_release_lock os fd s = sys_call (px_close os fd) s"

text \<open>Closing where the code ignores the result.\<close>

definition close_fd :: "'w posix \<Rightarrow> int \<Rightarrow> 'w sys \<Rightarrow> 'w sys" where
  "close_fd os fd s = snd (sys_call (px_close os fd) s)"

definition px_nap :: "'w posix \<Rightarrow> nat \<Rightarrow> 'w sys \<Rightarrow> 'w sys" where
  "px_nap os n s = s\<lparr>world := px_sleep os n (world s)\<rparr>"

text \<open>The \<^verbatim>\<open>while\<close> loop over the tries: 0 when the lock is held, and otherwise the result of the
  function that contains it.\<close>

function acquire_loop :: "'w posix \<Rightarrow> int \<Rightarrow> int \<Rightarrow> int \<Rightarrow> 'w sys \<Rightarrow> int \<times> 'w sys" where
  "acquire_loop os fd block_seconds tries s =
     (let (r, s) = lock_reg os fd F_SETLK F_WRLCK 0 SEEK_SET 0 s
      in if r < 0 then
           if px_errno os (world s) \<noteq> EACCES \<and> px_errno os (world s) \<noteq> EAGAIN then (-2, close_fd os fd s)
           else if tries \<ge> block_seconds then (-1, close_fd os fd s)
           else acquire_loop os fd block_seconds (tries + 1) (px_nap os 1 s)
         else (0, s))"
  by pat_completeness auto
termination
  by (relation "measure (\<lambda>(os, fd, block_seconds, tries, s). nat (block_seconds - tries))") auto

declare acquire_loop.simps [simp del]

text \<open>The process number goes through a buffer of ten characters; more is undefined.\<close>

definition daemon_acquire_lock :: "'w posix \<Rightarrow> string \<Rightarrow> int \<Rightarrow> 'w sys \<Rightarrow> (int \<times> 'w sys) option" where
  "daemon_acquire_lock os pidfile block_seconds s =
     (let (fd, s) = sys_call (px_open os pidfile (O_WRONLY OR O_CREAT) 420) s
      in if fd < 0 then Some (-2, s)
         else let (r, s) = acquire_loop os fd block_seconds 0 s
           in if r \<noteq> 0 then Some (r, s)
              else let (r, s) = sys_call (px_ftruncate os fd 0) s
                in if r < 0 then Some (-2, close_fd os fd s)
                   else let buf = pid_line (px_getpid os (world s))
                     in if length buf + 1 > 10 then None
                        else let (n, s) = sys_call (px_write os fd buf) s
                          in if n \<noteq> int (length buf) then Some (-2, close_fd os fd s)
                             else let (val, s) = sys_call (px_fcntl os fd F_GETFD 0) s;
                                      s = (if val < 0 then s else snd (sys_call (px_fcntl os fd F_SETFD (val OR FD_CLOEXEC)) s))
                                  in Some (fd, s))"

text \<open>Reading the number of the holder: open, read up to nine characters, parse, close; 0 when any of it
  fails.\<close>

definition read_pid :: "'w posix \<Rightarrow> string \<Rightarrow> 'w sys \<Rightarrow> int \<times> 'w sys" where
  "read_pid os path s =
     (let (fd, s) = sys_call (px_open os path O_RDONLY 0) s
      in if fd \<ge> 0 then
           let (got, s) = sys_call (px_read os fd 9) s;
               pid = (case got of None \<Rightarrow> 0 | Some bs \<Rightarrow> if length bs > 0 then c_atoi bs else 0)
           in (pid, close_fd os fd s)
         else (0, s))"

text \<open>\<open>savefd\<close> is what the pointer leads to, or \<open>None\<close> for a null pointer.\<close>

definition daemon_lock_pid :: "'w posix \<Rightarrow> string \<Rightarrow> int option \<Rightarrow> 'w sys \<Rightarrow> (int \<times> int option \<times> 'w sys) option" where
  "daemon_lock_pid os pidfile savefd s = do {
     (fd, s) \<leftarrow> daemon_acquire_lock os pidfile 0 s;
     (if fd \<ge> 0 then Some (0, map_option (\<lambda>_. fd) savefd, s)
      else if fd = -1 then
        let (pid, s) = read_pid os pidfile s
        in Some (if pid \<noteq> 0 then pid else 1, savefd, s)
      else Some (-1, savefd, s))
   }"

section \<open>What record locks promise\<close>

text \<open>
  Documented behaviour, over observations of the lock file \<open>path\<close>: \<open>pos w fd\<close> is the offset of a
  descriptor that is open on it, \<open>held w\<close> whether this process has the lock, and \<open>text w\<close> its
  contents. A successful \<^verbatim>\<open>F_SETLK\<close> gives the lock, closing a descriptor on the file gives it
  up, and nobody else changes the text while it is held.
\<close>

abbreviation (input) whole_file :: flock where
  "whole_file \<equiv> \<lparr>l_type = F_WRLCK, l_start = 0, l_whence = SEEK_SET, l_len = 0\<rparr>"

definition lock_kernel ::
  "'w posix \<Rightarrow> string \<Rightarrow> ('w \<Rightarrow> int \<Rightarrow> nat option) \<Rightarrow> ('w \<Rightarrow> bool) \<Rightarrow> ('w \<Rightarrow> string) \<Rightarrow> bool" where
  "lock_kernel os path pos held text \<longleftrightarrow>
     (\<forall>f m w r w'. px_open os path f m w = (r, w') \<longrightarrow> (held w' \<longleftrightarrow> held w) \<and> (0 \<le> r \<longrightarrow> pos w' r = Some 0)) \<and>
     (\<forall>fd w r w'. px_setlk os fd F_SETLK whole_file w = (r, w') \<longrightarrow>
        pos w' = pos w \<and> (if 0 \<le> r then held w' else held w' = held w)) \<and>
     (\<forall>n w. pos (px_sleep os n w) = pos w \<and> (held (px_sleep os n w) \<longleftrightarrow> held w)) \<and>
     (\<forall>fd w r w'. held w \<longrightarrow> px_ftruncate os fd 0 w = (r, w') \<longrightarrow> held w' \<and> pos w' = pos w \<and> (0 \<le> r \<longrightarrow> text w' = [])) \<and>
     (\<forall>fd bs p w w'. held w \<longrightarrow> pos w fd = Some p \<longrightarrow> px_write os fd bs w = (int (length bs), w') \<longrightarrow>
        text w' = overwrite (text w) p bs) \<and>
     (\<forall>fd bs w. held (snd (px_write os fd bs w)) = held w \<and> (\<forall>fd'. (pos (snd (px_write os fd bs w)) fd' = None) = (pos w fd' = None))) \<and>
     (\<forall>fd n w fd'. (pos (snd (px_read os fd n w)) fd' = None) = (pos w fd' = None)) \<and>
     (\<forall>fd cmd a w. held w \<longrightarrow> held (snd (px_fcntl os fd cmd a w)) \<and> text (snd (px_fcntl os fd cmd a w)) = text w) \<and>
     (\<forall>fd w. pos w fd \<noteq> None \<longrightarrow> \<not> held (snd (px_close os fd w)))"

lemma lock_kernel_calls:
  assumes "lock_kernel os path pos held text"
  shows "sys_call (px_open os path f m) s = (r, s') \<Longrightarrow> held (world s') = held (world s)"
    and "sys_call (px_open os path f m) s = (r, s') \<Longrightarrow> 0 \<le> r \<Longrightarrow> pos (world s') r = Some 0"
    and "sys_call (px_setlk os fd F_SETLK whole_file) s = (r, s') \<Longrightarrow> pos (world s') = pos (world s)"
    and "sys_call (px_setlk os fd F_SETLK whole_file) s = (r, s') \<Longrightarrow> 0 \<le> r \<Longrightarrow> held (world s')"
    and "sys_call (px_setlk os fd F_SETLK whole_file) s = (r, s') \<Longrightarrow> r < 0 \<Longrightarrow> held (world s') = held (world s)"
    and "sys_call (px_ftruncate os fd 0) s = (r, s') \<Longrightarrow> held (world s) \<Longrightarrow> held (world s') \<and> pos (world s') = pos (world s)"
    and "sys_call (px_ftruncate os fd 0) s = (r, s') \<Longrightarrow> held (world s) \<Longrightarrow> 0 \<le> r \<Longrightarrow> text (world s') = []"
    and "sys_call (px_write os fd bs) s = (int (length bs), s') \<Longrightarrow> held (world s) \<Longrightarrow> pos (world s) fd = Some p \<Longrightarrow>
      text (world s') = overwrite (text (world s)) p bs"
    and "pos (px_sleep os n w) = pos w" "held (px_sleep os n w) = held w"
  using assms unfolding lock_kernel_def by (metis sys_call_world not_le)+

lemma lock_kernel_keeps:
  assumes "lock_kernel os path pos held text"
  shows "sys_call (px_write os fd bs) s = (n, s') \<Longrightarrow> held (world s') = held (world s)"
    and "sys_call (px_write os fd bs) s = (n, s') \<Longrightarrow> (pos (world s') fd' = None) = (pos (world s) fd' = None)"
    and "sys_call (px_read os fd k) s = (got, s') \<Longrightarrow> (pos (world s') fd' = None) = (pos (world s) fd' = None)"
    and "sys_call (px_fcntl os fd cmd a) s = (n, s') \<Longrightarrow> held (world s) \<Longrightarrow> held (world s') \<and> text (world s') = text (world s)"
    and "pos (world s) fd \<noteq> None \<Longrightarrow> \<not> held (world (close_fd os fd s))"
  using assms by (simp_all add: lock_kernel_def close_fd_def sys_call_snd)

section \<open>Taking the lock\<close>

lemma close_fd_fds: "fd_table os fds \<Longrightarrow> fds (world (close_fd os fd s)) = fds (world s) - {fd}"
  by (simp add: close_fd_def fd_table_def closes_fds_def)

lemma close_fd_keeps: "keeps_opens os v \<Longrightarrow> v (world (close_fd os fd s)) = v (world s)"
  by (simp add: close_fd_def keeps_opens_def)

lemma px_nap_world [simp]: "world (px_nap os n s) = px_sleep os n (world s)"
  by (simp add: px_nap_def)

lemma acquire_loop_unfold:
  assumes "sys_call (px_setlk os fd F_SETLK whole_file) s = (r, s1)"
  shows "acquire_loop os fd b tries s =
    (if r < 0 then
       if px_errno os (world s1) \<noteq> EACCES \<and> px_errno os (world s1) \<noteq> EAGAIN then (-2, close_fd os fd s1)
       else if tries \<ge> b then (-1, close_fd os fd s1)
       else acquire_loop os fd b (tries + 1) (px_nap os 1 s1)
     else (0, s1))"
  by (subst acquire_loop.simps) (simp add: lock_reg_def assms)

lemma acquire_loop_waits:
  assumes "counts_naps os naps" and "acquire_loop os fd b tries s = (r, s')"
  shows "naps (world s') \<le> naps (world s) + nat (b - tries)"
  using assms(2)
proof (induction "nat (b - tries)" arbitrary: tries s rule: less_induct)
  case less
  obtain q s1 where lk: "sys_call (px_setlk os fd F_SETLK whole_file) s = (q, s1)" by fastforce
  have eq: "naps (world s1) = naps (world s)" and cl: "naps (world (close_fd os fd s1)) = naps (world s1)"
    and sl: "naps (px_sleep os 1 w) = naps w + 1" for w
    using assms(1) keeps_files_calls(5) [OF _ lk, of naps] close_fd_keeps [of os naps] by (simp_all add: counts_naps_def)
  show ?case
  proof (cases "q < 0 \<and> \<not> (px_errno os (world s1) \<noteq> EACCES \<and> px_errno os (world s1) \<noteq> EAGAIN) \<and> \<not> tries \<ge> b")
    case True
    with less.prems have rec: "acquire_loop os fd b (tries + 1) (px_nap os 1 s1) = (r, s')"
      unfolding acquire_loop_unfold [OF lk] by simp
    have lt: "nat (b - (tries + 1)) < nat (b - tries)" using True by simp
    have "nat (b - tries) = nat (b - (tries + 1)) + 1" using True by linarith
    with less.hyps [OF lt rec] eq sl [of "world s1"] show ?thesis by simp
  next
    case False
    with less.prems have "s' = s1 \<or> s' = close_fd os fd s1"
      unfolding acquire_loop_unfold [OF lk] by (auto split: if_splits)
    with eq cl show ?thesis by auto
  qed
qed

lemma acquire_loop_result:
  assumes "fd_table os fds" and "lock_kernel os path pos held text"
    and "pos (world s) fd \<noteq> None" and "acquire_loop os fd b tries s = (r, s')"
  shows "(r = 0 \<longrightarrow> held (world s') \<and> fds (world s') = fds (world s) \<and> pos (world s') = pos (world s))
    \<and> (r \<noteq> 0 \<longrightarrow> r \<in> {-1, -2} \<and> \<not> held (world s') \<and> fds (world s') = fds (world s) - {fd})"
  using assms(3,4)
proof (induction "nat (b - tries)" arbitrary: tries s rule: less_induct)
  case less
  obtain q s1 where lk: "sys_call (px_setlk os fd F_SETLK whole_file) s = (q, s1)" by fastforce
  note k = lock_kernel_calls [OF assms(2)] and keep = keeps_files_calls [OF fd_table_calls(5) [OF assms(1)]]
  have s1: "fds (world s1) = fds (world s)" "pos (world s1) = pos (world s)" "0 \<le> q \<Longrightarrow> held (world s1)"
    using keep(5) [OF lk] k(3,4) [OF lk] by simp_all
  have cl: "\<not> held (world (close_fd os fd s1))" "fds (world (close_fd os fd s1)) = fds (world s) - {fd}"
    using lock_kernel_keeps(5) [OF assms(2), of s1 fd] less.prems(1) s1 by (simp_all add: close_fd_fds [OF assms(1)])
  show ?case
  proof (cases "q < 0 \<and> \<not> (px_errno os (world s1) \<noteq> EACCES \<and> px_errno os (world s1) \<noteq> EAGAIN) \<and> \<not> tries \<ge> b")
    case True
    let ?s = "px_nap os 1 s1"
    have rec: "acquire_loop os fd b (tries + 1) ?s = (r, s')"
      using True less.prems(2) unfolding acquire_loop_unfold [OF lk] by (auto simp del: One_nat_def split: if_splits)
    have "nat (b - (tries + 1)) < nat (b - tries)" using True by simp
    moreover have "pos (world ?s) fd \<noteq> None" "pos (world ?s) = pos (world s)" "fds (world ?s) = fds (world s)"
      using less.prems(1) s1 fd_table_calls(4) [OF assms(1)] by (simp_all add: k(9))
    ultimately show ?thesis using less.hyps [OF _ _ rec] by simp
  next
    case False
    with less.prems(2) have "q < 0 \<and> r \<in> {-1, -2} \<and> s' = close_fd os fd s1 \<or> \<not> q < 0 \<and> r = 0 \<and> s' = s1"
      unfolding acquire_loop_unfold [OF lk] by (auto split: if_splits)
    then show ?thesis
    proof (elim disjE conjE)
      assume r: "r \<in> {-1, -2}" and s': "s' = close_fd os fd s1"
      have "r \<noteq> 0" using r by auto
      with r cl show ?thesis unfolding s' by (intro conjI impI) (simp_all only: not_False_eq_True)
    next
      assume "\<not> q < 0" "r = 0" "s' = s1"
      with s1 show ?thesis by simp
    qed
  qed
qed

text \<open>After the lock: the file is emptied and gets the process number.\<close>

lemma acquire_lock_failed:
  assumes "fd_table os fds" and "lock_kernel os path pos held text"
    and "fds (world x) = insert fd (fds (world s))" and "pos (world x) fd \<noteq> None" and "fd \<notin> fds (world s)"
  shows "\<not> held (world (close_fd os fd x)) \<and> fds (world (close_fd os fd x)) = fds (world s)"
  using assms(3-5) lock_kernel_keeps(5) [OF assms(2)] by (auto simp: close_fd_fds [OF assms(1)])

text \<open>With the lock held, the number is written and the descriptor marked for closing on \<^verbatim>\<open>exec\<close>.\<close>

lemma acquire_lock_write:
  assumes os: "fd_table os fds" "lock_kernel os path pos held text"
    and s2: "held (world s2)" "pos (world s2) fd = Some 0" "fds (world s2) = insert fd F" "fd \<notin> F"
    and me: "0 \<le> me" "me < 100000000" "\<And>w. px_getpid os w = me"
    and op: "sys_call (px_open os path (O_WRONLY OR O_CREAT) 420) s = (fd, s1)" "0 \<le> fd"
    and loop: "acquire_loop os fd b 0 s1 = (0, s2)" and F: "fds (world s) = F"
  shows "\<exists>r s'. daemon_acquire_lock os path b s = Some (r, s')
    \<and> (0 \<le> r \<longrightarrow> held (world s') \<and> text (world s') = pid_line me \<and> r \<notin> F \<and> fds (world s') = insert r F)
    \<and> (r < 0 \<longrightarrow> r \<in> {-1, -2} \<and> \<not> held (world s') \<and> fds (world s') = F)"
proof -
  note k = lock_kernel_calls [OF os(2)] and kk = lock_kernel_keeps [OF os(2)]
    and keep = keeps_files_calls [OF fd_table_calls(5) [OF os(1)]]
  obtain t s3 where tr: "sys_call (px_ftruncate os fd 0) s2 = (t, s3)" by fastforce
  have s3: "held (world s3)" "pos (world s3) fd = Some 0" "fds (world s3) = insert fd F" "0 \<le> t \<Longrightarrow> text (world s3) = []"
    using k(6,7) [OF tr s2(1)] keep(3) [OF tr] s2 by auto
  have len: "length (pid_line me) \<le> 9" using me(1,2) by (rule length_pid_line)
  obtain n s4 where wr: "sys_call (px_write os fd (pid_line me)) s3 = (n, s4)" by fastforce
  have s4: "held (world s4)" "pos (world s4) fd \<noteq> None" "fds (world s4) = insert fd F"
    using kk(1,2) [OF wr] keep(2) [OF wr] s3 by auto
  obtain v s5 where gf: "sys_call (px_fcntl os fd F_GETFD 0) s4 = (v, s5)" by fastforce
  obtain q s6 where sf: "sys_call (px_fcntl os fd F_SETFD (v OR FD_CLOEXEC)) s5 = (q, s6)" by fastforce
  have fin: "held (world s5)" "held (world s6)" "text (world s5) = text (world s4)" "text (world s6) = text (world s4)"
    "fds (world s5) = insert fd F" "fds (world s6) = insert fd F"
    using kk(4) [OF gf] kk(4) [OF sf] keep(6) [OF gf] keep(6) [OF sf] s4 by auto
  have run: "daemon_acquire_lock os path b s = Some
      (if t < 0 then (-2, close_fd os fd s3) else if n \<noteq> int (length (pid_line me)) then (-2, close_fd os fd s4)
       else (fd, if v < 0 then s5 else s6))"
    using op loop tr wr gf sf len me(3) by (simp add: daemon_acquire_lock_def Let_def)
  show ?thesis
  proof (cases "t < 0 \<or> n \<noteq> int (length (pid_line me))")
    case True
    with run acquire_lock_failed [OF os, of s3 fd s] acquire_lock_failed [OF os, of s4 fd s] s2(4) s3 s4 F show ?thesis
      by (auto split: if_splits)
  next
    case False
    then have "text (world s4) = overwrite (text (world s3)) 0 (pid_line me)" and "text (world s3) = []"
      using k(8) [of fd "pid_line me" s3 s4 0] wr s3 by auto
    then have "text (world s4) = pid_line me" by (simp add: overwrite_def)
    with False run fin s2(4) op(2) show ?thesis by auto
  qed
qed

lemma acquire_lock_result:
  assumes "fd_table os fds" and "lock_kernel os path pos held text" and "\<not> held (world s)"
    and "0 \<le> me" and "me < 100000000" and "\<And>w. px_getpid os w = me"
  shows "\<exists>r s'. daemon_acquire_lock os path b s = Some (r, s')
    \<and> (0 \<le> r \<longrightarrow> held (world s') \<and> text (world s') = pid_line me \<and> r \<notin> fds (world s) \<and> fds (world s') = insert r (fds (world s)))
    \<and> (r < 0 \<longrightarrow> r \<in> {-1, -2} \<and> \<not> held (world s') \<and> fds (world s') = fds (world s))"
proof -
  note k = lock_kernel_calls [OF assms(2)] and def = daemon_acquire_lock_def Let_def
  obtain fd s1 where op: "sys_call (px_open os path (O_WRONLY OR O_CREAT) 420) s = (fd, s1)" by fastforce
  show ?thesis
  proof (cases "fd < 0")
    case True
    with op fd_table_opens(1) [OF assms(1) op] k(1) [OF op] assms(3) show ?thesis by (simp add: def)
  next
    case False
    then have new: "fd \<notin> fds (world s)" "fds (world s1) = insert fd (fds (world s))" "pos (world s1) fd = Some 0"
      using fd_table_opens(2) [OF assms(1) op] k(2) [OF op] by auto
    obtain r s2 where loop: "acquire_loop os fd b 0 s1 = (r, s2)" by fastforce
    have "pos (world s1) fd \<noteq> None" using new(3) by simp
    note l = acquire_loop_result [OF assms(1,2) this loop]
    show ?thesis
    proof (cases "r = 0")
      case False
      with l op loop new \<open>\<not> fd < 0\<close> show ?thesis by (auto simp: def)
    next
      case True
      with l new have s2: "held (world s2)" "pos (world s2) fd = Some 0" "fds (world s2) = insert fd (fds (world s))" by simp_all
      from acquire_lock_write [OF assms(1,2) s2 new(1) assms(4-6) op _ loop [unfolded True] refl] \<open>\<not> fd < 0\<close> show ?thesis by simp
    qed
  qed
qed

lemma acquire_lock_waits:
  assumes "counts_naps os naps" and "daemon_acquire_lock os path b s = Some (r, s')"
  shows "naps (world s') \<le> naps (world s) + nat b"
proof -
  have keep: "keeps_files os naps" and opens: "keeps_opens os naps" using assms(1) by (simp_all add: counts_naps_def)
  note k = keeps_files_calls [OF keep] and o = keeps_opens_calls [OF opens] and cl = close_fd_keeps [OF opens]
  obtain fd s1 where op: "sys_call (px_open os path (O_WRONLY OR O_CREAT) 420) s = (fd, s1)" by fastforce
  obtain q s2 where loop: "acquire_loop os fd b 0 s1 = (q, s2)" by fastforce
  obtain t s3 where tr: "sys_call (px_ftruncate os fd 0) s2 = (t, s3)" by fastforce
  let ?buf = "pid_line (px_getpid os (world s3))"
  obtain n s4 where wr: "sys_call (px_write os fd ?buf) s3 = (n, s4)" by fastforce
  obtain v s5 where gf: "sys_call (px_fcntl os fd F_GETFD 0) s4 = (v, s5)" by fastforce
  obtain z s6 where sf: "sys_call (px_fcntl os fd F_SETFD (v OR FD_CLOEXEC)) s5 = (z, s6)" by fastforce
  have "s' \<in> {s1, s2, close_fd os fd s3, close_fd os fd s4, s5, s6}"
    using assms(2) op loop tr wr gf sf by (auto simp: daemon_acquire_lock_def Let_def split: if_splits)
  moreover have "naps (world s2) \<le> naps (world s) + nat b"
    using acquire_loop_waits [OF assms(1) loop] o(1) [OF op] by simp
  ultimately show ?thesis
    using o(1) [OF op] k(3) [OF tr] k(2) [OF wr] k(6) [OF gf] k(6) [OF sf] by (auto simp: cl)
qed

lemma lock_pid_outcome:
  assumes "fd_table os fds" and "lock_kernel os path pos held text" and "\<not> held (world s)"
    and "0 \<le> me" and "me < 100000000" and "\<And>w. px_getpid os w = me"
  shows "\<exists>ret sv s'. daemon_lock_pid os path savefd s = Some (ret, sv, s')
    \<and> (ret = 0 \<longrightarrow> held (world s') \<and> text (world s') = pid_line me \<and>
         (\<exists>fd. fds (world s') = insert fd (fds (world s)) \<and> sv = map_option (\<lambda>_. fd) savefd))
    \<and> (ret \<noteq> 0 \<longrightarrow> \<not> held (world s') \<and> fds (world s') = fds (world s) \<and> sv = savefd)"
proof -
  note k = lock_kernel_calls [OF assms(2)] and kk = lock_kernel_keeps [OF assms(2)]
    and keep = keeps_files_calls [OF fd_table_calls(5) [OF assms(1)]] and cl = close_fd_fds [OF assms(1)]
  obtain r s1 where acq: "daemon_acquire_lock os path 0 s = Some (r, s1)"
    and ok: "0 \<le> r \<longrightarrow> held (world s1) \<and> text (world s1) = pid_line me \<and> r \<notin> fds (world s) \<and> fds (world s1) = insert r (fds (world s))"
    and no: "r < 0 \<longrightarrow> r \<in> {-1, -2} \<and> \<not> held (world s1) \<and> fds (world s1) = fds (world s)"
    using acquire_lock_result [OF assms, of 0] by blast
  obtain fd s2 where op: "sys_call (px_open os path O_RDONLY 0) s1 = (fd, s2)" by fastforce
  obtain got s3 where rd: "sys_call (px_read os fd 9) s2 = (got, s3)" by fastforce
  show ?thesis
  proof (cases "r = -1 \<and> 0 \<le> fd")
    case True
    have "fds (world (close_fd os fd s3)) = fds (world s)"
      using True no keep(1) [OF rd] fd_table_opens(2) [OF assms(1) op] by (simp add: cl)
    moreover have "\<not> held (world (close_fd os fd s3))"
      using True k(2) [OF op] kk(3) [OF rd, of fd] by (intro kk(5)) simp
    ultimately show ?thesis
      using True acq op rd by (simp add: daemon_lock_pid_def read_pid_def Let_def)
  next
    case False
    then consider "0 \<le> r" | "r = -1" "fd < 0" | "r \<noteq> -1" "r < 0" by linarith
    then show ?thesis
    proof cases
      case 2
      with acq op no k(1) [OF op] fd_table_opens(1) [OF assms(1) op] show ?thesis
        by (simp add: daemon_lock_pid_def read_pid_def Let_def)
    qed (use acq ok no in \<open>auto simp: daemon_lock_pid_def read_pid_def\<close>)
  qed
qed

text \<open>Another process holds the lock all the time and has written its number.\<close>

definition held_by_other :: "'w posix \<Rightarrow> string \<Rightarrow> string \<Rightarrow> bool" where
  "held_by_other os path content \<longleftrightarrow>
     (\<forall>f m w r w'. px_open os path f m w = (r, w') \<longrightarrow> 0 \<le> r) \<and>
     (\<forall>fd w r w'. px_setlk os fd F_SETLK whole_file w = (r, w') \<longrightarrow> r < 0 \<and> px_errno os w' = EAGAIN) \<and>
     (\<forall>f m w fd w' n got w''. px_open os path f m w = (fd, w') \<longrightarrow> px_read os fd n w' = (got, w'') \<longrightarrow> got = Some (take n content))"

lemma lock_pid_holder:
  assumes "held_by_other os path (pid_line p @ rest)" and "0 < p" and "p < 100000000"
  shows "\<exists>s'. daemon_lock_pid os path savefd s = Some (p, savefd, s')"
proof -
  obtain fd s1 where op: "sys_call (px_open os path (O_WRONLY OR O_CREAT) 420) s = (fd, s1)" by fastforce
  obtain q s2 where lk: "sys_call (px_setlk os fd F_SETLK whole_file) s1 = (q, s2)" by fastforce
  let ?s3 = "close_fd os fd s2"
  obtain fd' s4 where op': "sys_call (px_open os path O_RDONLY 0) ?s3 = (fd', s4)" by fastforce
  obtain got s5 where rd: "sys_call (px_read os fd' 9) s4 = (got, s5)" by fastforce
  have o: "\<And>f m w r w'. px_open os path f m w = (r, w') \<Longrightarrow> 0 \<le> r"
    and l: "\<And>fd w r w'. px_setlk os fd F_SETLK whole_file w = (r, w') \<Longrightarrow> r < 0 \<and> px_errno os w' = EAGAIN"
    and r: "\<And>f m w fd w' n got w''. px_open os path f m w = (fd, w') \<Longrightarrow> px_read os fd n w' = (got, w'') \<Longrightarrow>
      got = Some (take n (pid_line p @ rest))"
    using assms(1) unfolding held_by_other_def by blast+
  have nonneg: "0 \<le> fd" "0 \<le> fd'" and busy: "q < 0" "px_errno os (world s2) = EAGAIN"
    using o [OF sys_call_world [OF op]] o [OF sys_call_world [OF op']] l [OF sys_call_world [OF lk]] by simp_all
  have got: "got = Some (take 9 (pid_line p @ rest))"
    using sys_call_world [OF op'] sys_call_world [OF rd] by (rule r)
  have "acquire_loop os fd 0 0 s1 = (-1, ?s3)"
    using busy by (simp add: acquire_loop_unfold [OF lk])
  then have "daemon_acquire_lock os path 0 s = Some (-1, ?s3)"
    using op nonneg(1) by (simp add: daemon_acquire_lock_def)
  moreover have "c_atoi (take 9 (pid_line p @ rest)) = p" using assms(2,3) pids.parse_first [of p rest] by simp
  moreover have "take 9 (pid_line p @ rest) \<noteq> []" by (simp add: pid_line_def newline_def)
  ultimately show ?thesis
    using op' rd got nonneg(2) assms(2) by (simp add: daemon_lock_pid_def read_pid_def Let_def)
qed

section \<open>Properties\<close>

lemma kernel_lock:
  "lock_kernel kernel path (\<lambda>w fd. if fd \<in> k_open_fds w then Some (k_pos w fd) else None) (\<lambda>w. k_owner w = Some 77) k_text"
  unfolding lock_kernel_def
  by (auto simp: kernel_def k_open_new k_lock_def k_open_fds_def) (auto simp: k_new_def k_shut_def split: if_splits)

definition busy_kernel :: "string \<Rightarrow> kworld posix" where
  "busy_kernel content = kernel\<lparr>px_setlk := (\<lambda>fd cmd l w. (-1, w)), px_read := (\<lambda>fd n w. (Some (take n content), w))\<rparr>"

lemma busy_kernel_held: "held_by_other (busy_kernel content) path content"
  by (simp add: held_by_other_def busy_kernel_def kernel_def)

text \<open>C28. Taking the lock always returns, after at most \<open>block_seconds\<close> seconds of waiting. A result of
  at least 0 is a new descriptor, the lock is held, and the text of the file is exactly the
  number of this process; otherwise the result is -1 or -2, the lock is not held and no
  descriptor is left open.\<close>

theorem daemon_acquire_bounded:
  assumes "fd_table os fds" and "lock_kernel os path pos held text" and "counts_naps os naps" and "\<not> held (world s)"
    and "0 \<le> me" and "me < 100000000" and "\<And>w. px_getpid os w = me"
  shows "\<exists>r s'. daemon_acquire_lock os path block_seconds s = Some (r, s')
    \<and> naps (world s') \<le> naps (world s) + nat block_seconds
    \<and> (0 \<le> r \<longrightarrow> held (world s') \<and> text (world s') = pid_line me \<and> r \<notin> fds (world s) \<and> fds (world s') = insert r (fds (world s)))
    \<and> (r < 0 \<longrightarrow> r \<in> {-1, -2} \<and> \<not> held (world s') \<and> fds (world s') = fds (world s))"
  using acquire_lock_result [OF assms(1,2,4-7), of block_seconds] acquire_lock_waits [OF assms(3)] by blast

theorem daemon_acquire_bounded_witness:
  "\<exists>r s'. daemon_acquire_lock kernel ''/var/run/x'' 2 (k_sys (Some 4711) ''4711'' []) = Some (r, s')
    \<and> k_naps (world s') \<le> 2 \<and> (r < 0 \<longrightarrow> k_open_fds (world s') = {0, 1, 2})"
proof -
  let ?s = "k_sys (Some 4711) ''4711'' []"
  have free: "k_owner (world ?s) \<noteq> Some 77" and me: "\<And>w. px_getpid kernel w = 77"
    by (simp_all add: k_sys_def kernel_def)
  have "k_open_fds (world ?s) = {0, 1, 2}" by (auto simp: k_open_fds_def k_sys_def)
  then show ?thesis
    using daemon_acquire_bounded [OF kernel_fd_table kernel_lock kernel_naps free _ _ me, where block_seconds = 2]
    by (fastforce simp: k_sys_def)
qed

text \<open>C26. The daemon starts once: \<^verbatim>\<open>daemon_lock_pid\<close> gives 0 exactly if this process holds the lock,
  and then the file has its number and the saved descriptor keeps the lock; otherwise all
  descriptors are closed and the caller's variable is unchanged.\<close>

theorem daemon_lock_pid_outcome:
  assumes "fd_table os fds" and "lock_kernel os path pos held text" and "\<not> held (world s)"
    and "0 \<le> me" and "me < 100000000" and "\<And>w. px_getpid os w = me"
  shows "\<exists>ret sv s'. daemon_lock_pid os path savefd s = Some (ret, sv, s')
    \<and> (ret = 0 \<longleftrightarrow> held (world s'))
    \<and> (ret = 0 \<longrightarrow> text (world s') = pid_line me \<and>
         (\<exists>fd. fds (world s') = insert fd (fds (world s)) \<and> sv = map_option (\<lambda>_. fd) savefd))
    \<and> (ret \<noteq> 0 \<longrightarrow> fds (world s') = fds (world s) \<and> sv = savefd)"
  using lock_pid_outcome [OF assms, of savefd] by blast

theorem daemon_lock_pid_outcome_witness:
  "\<exists>ret sv s'. daemon_lock_pid kernel ''/var/run/x'' (Some 9) (k_sys None [] []) = Some (ret, sv, s')
    \<and> (ret = 0 \<longleftrightarrow> k_owner (world s') = Some 77) \<and> (ret \<noteq> 0 \<longrightarrow> sv = Some 9)"
proof -
  have free: "k_owner (world (k_sys None [] [])) \<noteq> Some 77" and me: "\<And>w. px_getpid kernel w = 77"
    by (simp_all add: k_sys_def kernel_def)
  show ?thesis
    using daemon_lock_pid_outcome [OF kernel_fd_table kernel_lock free _ _ me, where savefd = "Some 9"] by fastforce
qed

text \<open>C30. The number that one process writes is what another one reports: while a process \<open>p\<close> holds the
  lock of the file it has written, \<^verbatim>\<open>daemon_lock_pid\<close> returns \<open>p\<close>, whatever follows the first line.\<close>

theorem daemon_lock_pid_reports_holder:
  assumes "held_by_other os path (pid_line p @ rest)" and "0 < p" and "p < 100000000"
  shows "\<exists>s'. daemon_lock_pid os path savefd s = Some (p, savefd, s')"
  using assms by (rule lock_pid_holder)

theorem daemon_lock_pid_reports_holder_witness:
  "\<exists>s'. daemon_lock_pid (busy_kernel (pid_line 4711 @ ''12'')) ''/var/run/x'' None (k_sys None [] []) = Some (4711, None, s')"
  by (rule daemon_lock_pid_reports_holder [OF busy_kernel_held]) simp_all

end
