(* ===== verification/Usb_Open.thy ===== *)
theory Usb_Open
  imports Daemon
begin

text \<open>
  Finding and opening the device through the USB file system, \<^verbatim>\<open>usb_io_util.c\<close>: the scan of
  \<^verbatim>\<open>/proc/bus/usb/devices\<close> with \<^verbatim>\<open>fgets\<close> and \<^verbatim>\<open>sscanf\<close>, the device path, and the requests that
  take the device over. The kernel version that the code is compiled for is a parameter.
\<close>

section \<open>Reading lines and fields\<close>

text \<open>\<^verbatim>\<open>fgets\<close> on what is left of a stream: the line, and what is left then.\<close>

definition c_fgets :: "nat \<Rightarrow> string \<Rightarrow> (string \<times> string) option" where
  "c_fgets n cs =
     (if cs = [] then None
      else let k = min (n - 1) (Suc (length (takeWhile (\<lambda>c. c \<noteq> CHR 0x0A) cs))) in Some (take k cs, drop k cs))"

text \<open>The formats in use: white space, ordinary characters, and the conversions \<^verbatim>\<open>%d\<close>, \<^verbatim>\<open>%*d\<close> and
  \<^verbatim>\<open>%x\<close>; the flag of a conversion says whether its value is stored.\<close>

datatype directive = Blank | Plain char | Number bool nat

fun parse_format :: "string \<Rightarrow> directive list" where
  "parse_format [] = []"
| "parse_format (c # f) =
     (if c = CHR ''%'' \<and> take 1 f = ''d'' then Number True 10 # parse_format (drop 1 f)
      else if c = CHR ''%'' \<and> take 2 f = ''*d'' then Number False 10 # parse_format (drop 2 f)
      else if c = CHR ''%'' \<and> take 1 f = ''x'' then Number True 16 # parse_format (drop 1 f)
      else if is_space c then Blank # parse_format f
      else Plain c # parse_format f)"

definition scan_number :: "nat \<Rightarrow> string \<Rightarrow> (int \<times> string) option" where
  "scan_number base cs =
     (let (sg, cs) = read_sign (dropWhile is_space cs);
          cs = (if base = 16 \<and> (take 2 cs = ''0x'' \<or> take 2 cs = ''0X'') then drop 2 cs else cs)
      in case cs of
           [] \<Rightarrow> None
         | c # _ \<Rightarrow> if digit_of base c = None then None
             else let (n, rest) = read_digits base 0 cs in Some (sg * int n, rest))"

text \<open>The stored values, up to the first mismatch.\<close>

fun scan_fields :: "directive list \<Rightarrow> string \<Rightarrow> int list" where
  "scan_fields [] cs = []"
| "scan_fields (Blank # ds) cs = scan_fields ds (dropWhile is_space cs)"
| "scan_fields (Plain c # ds) cs = (case cs of [] \<Rightarrow> [] | x # xs \<Rightarrow> if x = c then scan_fields ds xs else [])"
| "scan_fields (Number store_it base # ds) cs =
     (case scan_number base cs of
        None \<Rightarrow> []
      | Some (v, rest) \<Rightarrow> if store_it then v # scan_fields ds rest else scan_fields ds rest)"

definition c_sscanf :: "string \<Rightarrow> string \<Rightarrow> int list" where
  "c_sscanf buffer fmt = scan_fields (parse_format fmt) buffer"

section \<open>Opening the device\<close>

abbreviation (input) MAX_DEVICES_LINE_SIZE :: nat where "MAX_DEVICES_LINE_SIZE \<equiv> 128"

definition topology_format :: string where
  "topology_format = ''T: Bus=%d Lev=%*d Prnt=%*d Port=%*d Cnt=%*d Dev#=%d''"

definition product_format :: string where
  "product_format = ''P: Vendor=%x ProdID=%x''"

text \<open>The \<^verbatim>\<open>while\<close> loop over the lines: whether the device was found, and the last bus and device
  number.\<close>

function scan_devices :: "int \<Rightarrow> int \<Rightarrow> int \<Rightarrow> int \<Rightarrow> int \<Rightarrow> int \<Rightarrow> string \<Rightarrow> bool \<times> int \<times> int" where
  "scan_devices vendor_id product_id index num bus device content =
     (case c_fgets MAX_DEVICES_LINE_SIZE content of
        None \<Rightarrow> (False, bus, device)
      | Some (buffer, rest) \<Rightarrow>
          let ts = c_sscanf buffer topology_format;
              bus = (if length ts \<ge> 1 then c_int (ts ! 0) else bus);
              device = (if length ts \<ge> 2 then c_int (ts ! 1) else device)
          in if length ts = 2 then scan_devices vendor_id product_id index num bus device rest
             else if bus = 0 \<or> device = 0 then scan_devices vendor_id product_id index num bus device rest
             else let vp = c_sscanf buffer product_format
               in if length vp = 2 \<and> (word_of_int (vp ! 0) :: u32) = word_of_int vendor_id
                     \<and> (word_of_int (vp ! 1) :: u32) = word_of_int product_id
                  then if num = index then (True, bus, device)
                       else scan_devices vendor_id product_id index (num + 1) bus device rest
                  else scan_devices vendor_id product_id index num bus device rest)"
  by pat_completeness auto
termination
  by (relation "measure (\<lambda>(v, p, i, c, b, d, content). length content)")
     (auto simp: c_fgets_def Let_def split: if_splits)

declare scan_devices.simps [simp del]

text \<open>\<^verbatim>\<open>%03d\<close>, and the path of a device.\<close>

definition fmt_03d :: "int \<Rightarrow> string" where
  "fmt_03d i = (let ds = map (digit_char False) (radix_digits 10 (nat \<bar>i\<bar>))
     in if i < 0 then CHR ''-'' # replicate (2 - length ds) (CHR ''0'') @ ds
        else replicate (3 - length ds) (CHR ''0'') @ ds)"

definition device_path :: "int \<Rightarrow> int \<Rightarrow> string" where
  "device_path bus device = take (MAX_DEVICES_LINE_SIZE - 1) (''/proc/bus/usb/'' @ fmt_03d bus @ ''/'' @ fmt_03d device)"

definition KERNEL_VERSION :: "nat \<Rightarrow> nat \<Rightarrow> nat \<Rightarrow> nat" where
  "KERNEL_VERSION a b c = a * 65536 + b * 256 + c"

definition os_message :: "'w posix \<Rightarrow> string \<Rightarrow> 'w sys \<Rightarrow> 'w sys" where
  "os_message os text s = fprint stderr (text @ px_strerror os (px_errno os (world s)) @ newline) s"

text \<open>
  What \<^verbatim>\<open>open_usb_dev\<close> does with the open device file: reset it, claim and set the interface. The
  USB handle is its descriptor; a failing allocation is undefined, as the code writes through the
  null pointer then.
\<close>

definition take_over :: "'w posix \<Rightarrow> nat \<Rightarrow> int \<Rightarrow> 'w sys \<Rightarrow> (int option \<times> 'w sys) option" where
  "take_over os linux fd s =
     (let (r, s) = sys_call (px_ioctl os fd USBDEVFS_RESET []) s;
          s = (if r < 0 then os_message os ''ERROR: Can not reset device: '' s else s)
      in if r < 0 \<and> linux \<ge> KERNEL_VERSION 2 6 0 then Some (None, close_fd os fd s)
         else let (r, s) = sys_call (px_ioctl os fd USBDEVFS_CLAIMINTERFACE [0]) s
           in if r < 0 then
                Some (None, close_fd os fd (os_message os ''ERROR: Can not claim interface 0: '' s))
              else let (r, s) = sys_call (px_ioctl os fd USBDEVFS_SETINTERFACE [0, 0]) s
                in if r < 0 then
                     Some (None, close_fd os fd (os_message os ''ERROR: Can not set interface zero: '' s))
                   else let (h, s) = sys_call (px_malloc os 4) s
                     in case h of None \<Rightarrow> None | Some _ \<Rightarrow> Some (Some fd, s))"

definition open_usb_dev :: "'w posix \<Rightarrow> nat \<Rightarrow> int \<Rightarrow> int \<Rightarrow> int \<Rightarrow> 'w sys \<Rightarrow> (int option \<times> 'w sys) option" where
  "open_usb_dev os linux vendor_id product_id index s =
     (let (fh, s) = sys_call (px_fopen os ''/proc/bus/usb/devices'') s
      in case fh of
           None \<Rightarrow> Some (None, os_message os ''open /proc/bus/usb/devices: '' s)
         | Some (fh, content) \<Rightarrow>
             let (found, bus, device) = scan_devices vendor_id product_id index 0 0 0 content;
                 s = snd (sys_call (px_fclose os fh) s)
             in if \<not> found then Some (None, s)
                else let (fd, s) = sys_call (px_open os (device_path bus device) O_RDWR 0) s
                  in if fd < 0 then
                       Some (None, os_message os (''ERROR: Failed to open usb device '' @ device_path bus device @ '': '') s)
                     else take_over os linux fd s)"

definition close_usb_dev :: "'w posix \<Rightarrow> nat \<Rightarrow> int \<Rightarrow> 'w sys \<Rightarrow> 'w sys" where
  "close_usb_dev os linux fd s =
     (let s = (if linux \<ge> KERNEL_VERSION 2 6 0 \<and> linux \<le> KERNEL_VERSION 2 6 10
               then snd (sys_call (px_ioctl os fd USBDEVFS_RESET []) s)
               else snd (sys_call (px_ioctl os fd USBDEVFS_RELEASEINTERFACE [0]) s))
      in close_fd os fd s)"

section \<open>The devices file\<close>

text \<open>
  The text that the kernel puts into the file: for each device a topology line, further lines,
  the product line and further lines. Numbers are filled up with zeros, or with spaces for the
  device number.
\<close>

record usb_entry =
  e_bus :: nat
  e_dev :: nat
  e_place :: "nat \<times> nat \<times> nat \<times> nat"
  e_vendor :: nat
  e_product :: nat
  e_speed :: string
  e_revision :: string
  e_between :: "string list"
  e_after :: "string list"

definition zeros :: "nat \<Rightarrow> nat \<Rightarrow> nat \<Rightarrow> string" where
  "zeros base width n = (let ds = map (digit_char False) (radix_digits base n) in replicate (width - length ds) (CHR ''0'') @ ds)"

definition spaces :: "nat \<Rightarrow> nat \<Rightarrow> string" where
  "spaces width n = (let ds = map (digit_char False) (radix_digits 10 n) in replicate (width - length ds) (CHR '' '') @ ds)"

definition topology_line :: "usb_entry \<Rightarrow> string" where
  "topology_line e = (case e_place e of (lev, prnt, port, cnt) \<Rightarrow>
     ''T:  Bus='' @ zeros 10 2 (e_bus e) @ '' Lev='' @ zeros 10 2 lev @ '' Prnt='' @ zeros 10 2 prnt
     @ '' Port='' @ zeros 10 2 port @ '' Cnt='' @ zeros 10 2 cnt @ '' Dev#='' @ spaces 3 (e_dev e) @ '' Spd='' @ e_speed e @ newline)"

definition product_line :: "usb_entry \<Rightarrow> string" where
  "product_line e = ''P:  Vendor='' @ zeros 16 4 (e_vendor e) @ '' ProdID='' @ zeros 16 4 (e_product e)
     @ '' Rev='' @ e_revision e @ newline"

definition entry_text :: "usb_entry \<Rightarrow> string" where
  "entry_text e = topology_line e @ concat (map (\<lambda>l. l @ newline) (e_between e)) @ product_line e
     @ concat (map (\<lambda>l. l @ newline) (e_after e))"

definition other_line :: "string \<Rightarrow> bool" where
  "other_line l \<longleftrightarrow> CHR 0x0A \<notin> set l \<and> length l < 127 \<and> take 1 l \<noteq> ''T'' \<and> take 1 l \<noteq> ''P''"

definition wf_entry :: "usb_entry \<Rightarrow> bool" where
  "wf_entry e \<longleftrightarrow> 0 < e_bus e \<and> e_bus e < 1000 \<and> 0 < e_dev e \<and> e_dev e < 1000
     \<and> (case e_place e of (a, b, c, d) \<Rightarrow> a < 1000 \<and> b < 1000 \<and> c < 1000 \<and> d < 1000)
     \<and> e_vendor e < 65536 \<and> e_product e < 65536
     \<and> CHR 0x0A \<notin> set (e_speed e) \<and> length (e_speed e) < 40 \<and> CHR 0x0A \<notin> set (e_revision e) \<and> length (e_revision e) < 40
     \<and> list_all other_line (e_between e) \<and> list_all other_line (e_after e)"

section \<open>Scanning a number\<close>

lemma digit_of_digit_char_base: "d < base \<Longrightarrow> base \<le> 16 \<Longrightarrow> digit_of base (digit_char False d) = Some d"
  by (auto simp: digit_of_def digit_char_def Let_def)

lemma read_digits_zeros:
  assumes "2 \<le> base" and "base \<le> 16" and "case rest of [] \<Rightarrow> True | c # cs \<Rightarrow> digit_of base c = None"
  shows "read_digits base 0 (replicate k (CHR ''0'') @ map (digit_char False) (radix_digits base n) @ rest) = (n, rest)"
proof -
  have digits: "\<forall>d\<in>set ds. d < base \<Longrightarrow> read_digits base acc (map (digit_char False) ds @ rest) = (foldl (\<lambda>n d. base * n + d) acc ds, rest)"
    for acc ds
  proof (induction ds arbitrary: acc)
    case Nil
    then show ?case using assms(3) by (cases rest) auto
  qed (simp add: digit_of_digit_char_base assms(2))
  have zero: "digit_of base (CHR ''0'') = Some 0" using assms(1) by (simp add: digit_of_def)
  show ?thesis
    using digits [of "radix_digits base n" 0] radix_digits_less [OF assms(1)] foldl_radix_digits [OF assms(1), of n]
    by (induction k) (auto simp: zero)
qed

lemma zero_char: "CHR ''0'' = digit_char False 0"
  unfolding digit_char_def by code_simp

text \<open>The first character of a printed number is a digit, so neither white space nor a sign.\<close>

lemma printed_first:
  assumes "2 \<le> base" and "base \<le> 16"
  shows "\<exists>d cs. replicate k (CHR ''0'') @ map (digit_char False) (radix_digits base n) = digit_char False d # cs \<and> d < base"
proof (cases k)
  case 0
  obtain d ds where r: "radix_digits base n = d # ds" using radix_digits_Cons by blast
  then have "d < base" using radix_digits_less [OF assms(1), of d n] by simp
  with r 0 show ?thesis by auto
next
  case (Suc j)
  with zero_char assms(1) show ?thesis by (intro exI [of _ 0]) simp
qed

lemma digit_char_base_plain:
  assumes "d < 16"
  shows "\<not> is_space (digit_char False d) \<and> digit_char False d \<noteq> CHR ''-'' \<and> digit_char False d \<noteq> CHR ''+''
    \<and> digit_char False d \<noteq> CHR ''x'' \<and> digit_char False d \<noteq> CHR ''X''"
proof -
  have c: "(of_char (digit_char False d) :: nat) = (if d < 10 then 48 + d else 87 + d)"
    using assms by (simp add: digit_char_def)
  with assms show ?thesis by (auto simp: is_space_def Let_def split: if_splits)
qed

lemma scan_printed:
  assumes "2 \<le> base" and "base \<le> 16" and "case rest of [] \<Rightarrow> True | c # cs \<Rightarrow> digit_of base c = None"
    and "base = 16 \<longrightarrow> 2 \<le> length (replicate k (CHR ''0'') @ map (digit_char False) (radix_digits base n))"
  shows "scan_number base (replicate j (CHR '' '') @ replicate k (CHR ''0'') @ map (digit_char False) (radix_digits base n) @ rest)
    = Some (int n, rest)"
proof -
  let ?t = "replicate k (CHR ''0'') @ map (digit_char False) (radix_digits base n)"
  obtain d cs where t: "?t = digit_char False d # cs" and d: "d < base"
    using printed_first [OF assms(1,2)] by blast
  have plain: "\<not> is_space (digit_char False d)" "digit_char False d \<noteq> CHR ''-''" "digit_char False d \<noteq> CHR ''+''"
    using digit_char_base_plain [of d] d assms(2) by auto
  have drop: "dropWhile is_space (replicate j (CHR '' '') @ ?t @ rest) = ?t @ rest"
    unfolding t by (induction j) (simp_all add: plain, simp add: is_space_def)
  have sign: "read_sign (?t @ rest) = (1, ?t @ rest)"
    unfolding t by (simp add: read_sign_def plain)
  have hex: "take 2 (?t @ rest) \<noteq> ''0x'' \<and> take 2 (?t @ rest) \<noteq> ''0X''" if "base = 16"
  proof -
    have len: "2 \<le> length ?t" using assms(4) that by simp
    have "\<exists>e < base. ?t ! 1 = digit_char False e"
    proof (cases "1 < k")
      case True
      then have "?t ! 1 = digit_char False 0" by (simp add: nth_append zero_char)
      then show ?thesis using assms(1) by (intro exI [of _ 0]) simp
    next
      case False
      then have "?t ! 1 = digit_char False (radix_digits base n ! (1 - k))" and "radix_digits base n ! (1 - k) \<in> set (radix_digits base n)"
        using len by (auto simp: nth_append intro!: nth_mem)
      then show ?thesis using radix_digits_less [OF assms(1)] by blast
    qed
    then have ne: "?t ! 1 \<noteq> CHR ''x''" "?t ! 1 \<noteq> CHR ''X''"
      using digit_char_base_plain assms(2) by (metis order_less_le_trans)+
    have "take 2 (?t @ rest) = take 2 ?t" using len by simp
    moreover have "take 2 ?t ! 1 = ?t ! 1" by (rule nth_take) simp
    ultimately show ?thesis using ne by (metis nth_Cons_0 nth_Cons_Suc One_nat_def)
  qed
  have dig: "digit_of base (digit_char False d) = Some d" using d assms(2) by (rule digit_of_digit_char_base)
  define X where "X = ?t @ rest"
  have x1: "dropWhile is_space (replicate j (CHR '' '') @ X) = X" by (simp only: X_def drop)
  have x2: "read_sign X = (1, X)" by (simp only: X_def sign)
  have x3: "\<not> (base = 16 \<and> (take 2 X = ''0x'' \<or> take 2 X = ''0X''))" using hex unfolding X_def by blast
  have x4: "X = digit_char False d # cs @ rest" by (simp only: X_def t append_Cons)
  have x5: "read_digits base 0 X = (n, rest)" using read_digits_zeros [OF assms(1-3), of k n] by (simp only: X_def append_assoc)
  have "scan_number base (replicate j (CHR '' '') @ X) = (case X of [] \<Rightarrow> None
      | c # _ \<Rightarrow> if digit_of base c = None then None else let (n, rest) = read_digits base 0 X in Some (1 * int n, rest))"
    by (simp only: scan_number_def x1 x2 Let_def prod.case if_not_P [OF x3])
  also have "\<dots> = Some (int n, rest)"
    by (simp only: x5) (simp add: x4 dig)
  finally show ?thesis by (simp add: X_def)
qed

lemma scan_zeros:
  "digit_of 10 c = None \<Longrightarrow> scan_number 10 (zeros 10 w n @ c # rest) = Some (int n, c # rest)"
  using scan_printed [of 10 "c # rest" "w - length (radix_digits 10 n)" n 0]
  by (simp add: zeros_def Let_def)

lemma scan_spaces:
  "digit_of 10 c = None \<Longrightarrow> scan_number 10 (spaces w n @ c # rest) = Some (int n, c # rest)"
  using scan_printed [of 10 "c # rest" 0 n "w - length (radix_digits 10 n)"]
  by (simp add: spaces_def Let_def)

lemma scan_hex:
  "digit_of 16 c = None \<Longrightarrow> scan_number 16 (zeros 16 4 n @ c # rest) = Some (int n, c # rest)"
  using scan_printed [of 16 "c # rest" "4 - length (radix_digits 16 n)" n 0]
  by (simp add: zeros_def Let_def)

lemma no_digit: "digit_of 10 (CHR '' '') = None" "digit_of 16 (CHR '' '') = None" "digit_of 16 (CHR 0x0A) = None"
  by (simp_all add: digit_of_def)

lemma topology_directives:
  "parse_format topology_format = map Plain ''T:'' @ [Blank] @ map Plain ''Bus='' @ [Number True 10, Blank]
     @ map Plain ''Lev='' @ [Number False 10, Blank] @ map Plain ''Prnt='' @ [Number False 10, Blank]
     @ map Plain ''Port='' @ [Number False 10, Blank] @ map Plain ''Cnt='' @ [Number False 10, Blank]
     @ map Plain ''Dev#='' @ [Number True 10]"
  unfolding topology_format_def by code_simp

lemma product_directives:
  "parse_format product_format = map Plain ''P:'' @ [Blank] @ map Plain ''Vendor='' @ [Number True 16, Blank]
     @ map Plain ''ProdID='' @ [Number True 16]"
  unfolding product_format_def by code_simp

lemma blanks:
  "is_space (CHR '' '')" "\<not> is_space (CHR ''B'')" "\<not> is_space (CHR ''L'')" "\<not> is_space (CHR ''P'')"
  "\<not> is_space (CHR ''C'')" "\<not> is_space (CHR ''D'')" "\<not> is_space (CHR ''V'')"
  by (simp_all add: is_space_def)

lemma sscanf_topology: "c_sscanf (topology_line e) topology_format = [int (e_bus e), int (e_dev e)]"
proof -
  obtain a b c d where p: "e_place e = (a, b, c, d)" by (cases "e_place e") auto
  show ?thesis
    unfolding c_sscanf_def topology_directives
    by (simp add: topology_line_def p blanks scan_zeros scan_spaces no_digit)
qed

lemma sscanf_product:
  "c_sscanf (product_line e) product_format = [int (e_vendor e), int (e_product e)]"
  "c_sscanf (product_line e) topology_format = []"
  unfolding c_sscanf_def product_directives topology_directives
  by (simp_all add: product_line_def blanks scan_hex no_digit)

lemma sscanf_other:
  assumes "other_line l"
  shows "c_sscanf (l @ newline) topology_format = []" and "c_sscanf (l @ newline) product_format = []"
  using assms unfolding c_sscanf_def product_directives topology_directives other_line_def
  by (cases l; auto simp: newline_def)+

section \<open>Lines of the file\<close>

lemma fgets_line:
  assumes "CHR 0x0A \<notin> set l" and "length l < 127"
  shows "c_fgets MAX_DEVICES_LINE_SIZE (l @ newline @ rest) = Some (l @ newline, rest)"
proof -
  have t: "takeWhile (\<lambda>c. c \<noteq> CHR 0x0A) (l @ newline @ rest) = l"
    using assms(1) by (auto simp: newline_def takeWhile_append)
  have "min (128 - 1) (Suc (length l)) = length (l @ newline)" using assms(2) by (simp add: newline_def)
  then show ?thesis
    unfolding c_fgets_def t by (simp add: newline_def)
qed

lemma length_printed:
  "n < 1000 \<Longrightarrow> length (zeros 10 2 n) \<le> 3" "n < 1000 \<Longrightarrow> length (spaces 3 n) \<le> 3" "n < 65536 \<Longrightarrow> length (zeros 16 4 n) \<le> 4"
  using length_radix_digits [of 10 n 2] length_radix_digits [of 16 n 3] by (auto simp: zeros_def spaces_def Let_def)

lemma digit_char_not_newline: "d < 16 \<Longrightarrow> digit_char False d \<noteq> CHR 0x0A"
proof -
  assume "d < 16"
  then have "(of_char (digit_char False d) :: nat) \<noteq> 10" by (simp add: digit_char_def)
  then show ?thesis by auto
qed

lemma printed_no_newline:
  "2 \<le> base \<Longrightarrow> base \<le> 16 \<Longrightarrow> CHR 0x0A \<notin> set (zeros base w n)" "CHR 0x0A \<notin> set (spaces w n)"
proof -
  have ne: "CHR 0x0A \<notin> digit_char False ` set (radix_digits b n)" if "2 \<le> b" "b \<le> 16" for b
    using digit_char_not_newline radix_digits_less [OF that(1)] that(2) by (metis (no_types, lifting) imageE order_less_le_trans)
  then show "2 \<le> base \<Longrightarrow> base \<le> 16 \<Longrightarrow> CHR 0x0A \<notin> set (zeros base w n)"
    by (simp add: zeros_def Let_def)
  show "CHR 0x0A \<notin> set (spaces w n)"
    using ne [of 10] by (simp add: spaces_def Let_def)
qed

lemma fgets_topology:
  assumes "wf_entry e"
  shows "c_fgets MAX_DEVICES_LINE_SIZE (topology_line e @ rest) = Some (topology_line e, rest)"
proof -
  obtain a b c d where p: "e_place e = (a, b, c, d)" by (cases "e_place e") auto
  define l where "l = ''T:  Bus='' @ zeros 10 2 (e_bus e) @ '' Lev='' @ zeros 10 2 a @ '' Prnt='' @ zeros 10 2 b
     @ '' Port='' @ zeros 10 2 c @ '' Cnt='' @ zeros 10 2 d @ '' Dev#='' @ spaces 3 (e_dev e) @ '' Spd='' @ e_speed e"
  have "topology_line e = l @ newline" by (simp add: topology_line_def l_def p)
  moreover have "CHR 0x0A \<notin> set l"
    using assms by (simp add: l_def wf_entry_def printed_no_newline)
  moreover have "length l < 127"
    using assms length_printed(1) [of "e_bus e"] length_printed(1) [of a] length_printed(1) [of b] length_printed(1) [of c]
      length_printed(1) [of d] length_printed(2) [of "e_dev e"] by (simp add: l_def wf_entry_def p)
  ultimately show ?thesis using fgets_line [of l rest] by simp
qed

lemma fgets_product:
  assumes "wf_entry e"
  shows "c_fgets MAX_DEVICES_LINE_SIZE (product_line e @ rest) = Some (product_line e, rest)"
proof -
  define l where "l = ''P:  Vendor='' @ zeros 16 4 (e_vendor e) @ '' ProdID='' @ zeros 16 4 (e_product e) @ '' Rev='' @ e_revision e"
  have "product_line e = l @ newline" by (simp add: product_line_def l_def)
  moreover have "CHR 0x0A \<notin> set l"
    using assms by (simp add: l_def wf_entry_def printed_no_newline)
  moreover have "length l < 127"
    using assms length_printed(3) [of "e_vendor e"] length_printed(3) [of "e_product e"] by (simp add: l_def wf_entry_def)
  ultimately show ?thesis using fgets_line [of l rest] by simp
qed

section \<open>The scan\<close>

definition is_product :: "nat \<Rightarrow> nat \<Rightarrow> usb_entry \<Rightarrow> bool" where
  "is_product v p e \<longleftrightarrow> e_vendor e = v \<and> e_product e = p"

lemma scan_line:
  assumes "c_fgets MAX_DEVICES_LINE_SIZE content = Some (line, rest)"
  shows "c_sscanf line topology_format = [bus', dvc1] \<Longrightarrow>
      scan_devices v p i n bus dvc content = scan_devices v p i n (c_int bus') (c_int dvc1) rest"
    and "c_sscanf line topology_format = [] \<Longrightarrow> c_sscanf line product_format = [] \<Longrightarrow>
      scan_devices v p i n bus dvc content = scan_devices v p i n bus dvc rest"
    and "c_sscanf line topology_format = [] \<Longrightarrow> c_sscanf line product_format = [x, y] \<Longrightarrow> bus \<noteq> 0 \<Longrightarrow> dvc \<noteq> 0 \<Longrightarrow>
      scan_devices v p i n bus dvc content =
        (if (word_of_int x :: u32) = word_of_int v \<and> (word_of_int y :: u32) = word_of_int p
         then if n = i then (True, bus, dvc) else scan_devices v p i (n + 1) bus dvc rest
         else scan_devices v p i n bus dvc rest)"
  using assms by (simp_all add: scan_devices.simps [of v p i n bus dvc content])

lemma scan_others:
  "list_all other_line ls \<Longrightarrow>
     scan_devices v p i n bus dvc (concat (map (\<lambda>l. l @ newline) ls) @ rest) = scan_devices v p i n bus dvc rest"
proof (induction ls)
  case (Cons l ls)
  then have l: "other_line l" and ls: "list_all other_line ls" by simp_all
  have "c_fgets MAX_DEVICES_LINE_SIZE (l @ newline @ concat (map (\<lambda>l. l @ newline) ls) @ rest)
      = Some (l @ newline, concat (map (\<lambda>l. l @ newline) ls) @ rest)"
    using l by (intro fgets_line) (simp_all add: other_line_def)
  from scan_line(2) [OF this sscanf_other [OF l]] Cons.IH [OF ls] show ?case by simp
qed simp

lemma scan_topology:
  assumes "wf_entry e"
  shows "scan_devices v p i n bus dvc (topology_line e @ rest) = scan_devices v p i n (int (e_bus e)) (int (e_dev e)) rest"
proof -
  have "c_int (int (e_bus e)) = int (e_bus e)" "c_int (int (e_dev e)) = int (e_dev e)"
    using assms by (simp_all add: c_int_def wf_entry_def signed_take_bit_int_eq_self)
  then show ?thesis
    using scan_line(1) [OF fgets_topology [OF assms] sscanf_topology] by simp
qed

lemma same_word32: "x < 65536 \<Longrightarrow> v < 65536 \<Longrightarrow> (word_of_nat x :: u32) = word_of_nat v \<longleftrightarrow> x = v"
  by (simp add: word_of_nat_eq_iff take_bit_nat_eq_self)

lemma scan_product:
  assumes "wf_entry e" and "v < 65536" and "p < 65536" and "bus \<noteq> 0" and "dvc \<noteq> 0"
  shows "scan_devices (int v) (int p) i n bus dvc (product_line e @ rest) =
    (if is_product v p e then if n = i then (True, bus, dvc) else scan_devices (int v) (int p) i (n + 1) bus dvc rest
     else scan_devices (int v) (int p) i n bus dvc rest)"
proof -
  have "e_vendor e < 65536" "e_product e < 65536" using assms(1) by (simp_all add: wf_entry_def)
  then show ?thesis
    using scan_line(3) [OF fgets_product [OF assms(1)] sscanf_product(2,1) assms(4,5)] assms(2,3)
    by (simp add: same_word32 is_product_def)
qed

lemma scan_entry:
  assumes "wf_entry e" and "v < 65536" and "p < 65536"
  shows "scan_devices (int v) (int p) i n bus dvc (entry_text e @ rest) =
    (if is_product v p e \<and> n = i then (True, int (e_bus e), int (e_dev e))
     else scan_devices (int v) (int p) i (if is_product v p e then n + 1 else n) (int (e_bus e)) (int (e_dev e)) rest)"
proof -
  have "list_all other_line (e_between e)" "list_all other_line (e_after e)" "int (e_bus e) \<noteq> 0" "int (e_dev e) \<noteq> 0"
    using assms(1) by (simp_all add: wf_entry_def)
  then show ?thesis
    using assms by (simp add: entry_text_def scan_topology scan_others scan_product)
qed

lemma scan_devices_file:
  assumes "\<forall>e\<in>set es. wf_entry e" and "v < 65536" and "p < 65536"
  shows "(case scan_devices (int v) (int p) i n bus dvc (concat (map entry_text es)) of (found, bus', dvc1) \<Rightarrow>
      let ms = filter (is_product v p) es in
      (found \<longleftrightarrow> n \<le> i \<and> nat (i - n) < length ms)
      \<and> (found \<longrightarrow> bus' = int (e_bus (ms ! nat (i - n))) \<and> dvc1 = int (e_dev (ms ! nat (i - n)))))"
  using assms(1)
proof (induction es arbitrary: n bus dvc)
  case Nil
  show ?case by (subst scan_devices.simps) (simp add: c_fgets_def)
next
  case (Cons e es)
  let ?b = "int (e_bus e)" and ?d = "int (e_dev e)"
  have e: "wf_entry e" and es: "\<forall>e\<in>set es. wf_entry e" using Cons.prems by simp_all
  note step = scan_entry [OF e assms(2,3), of i n bus dvc "concat (map entry_text es)"]
  note ih = Cons.IH [OF es]
  show ?case
  proof (cases "is_product v p e")
    case True
    show ?thesis
    proof (cases "n = i")
      case eq: True
      with True step show ?thesis by simp
    next
      case False
      have shift: "n + 1 \<le> i \<longleftrightarrow> n \<le> i" "n \<le> i \<Longrightarrow> nat (i - n) = Suc (nat (i - (n + 1)))" using False by auto
      from True False step ih [of "n + 1" ?b ?d] show ?thesis
        by (auto simp: shift Let_def split: prod.splits)
    qed
  next
    case False
    with step ih [of n ?b ?d] show ?thesis by simp
  qed
qed

section \<open>Descriptors\<close>

lemma fprint_world [simp]: "world (fprint fh text s) = world s"
  by (simp add: fprint_def)

lemma os_message_world [simp]: "world (os_message os text s) = world s"
  by (simp add: os_message_def)

text \<open>What the take-over leaves of any observation \<open>v\<close> that its requests do not change.\<close>

lemma take_over_keeps:
  assumes "\<And>rq l w. v (snd (px_ioctl os fd rq l w)) = v w" and "\<And>n w. v (snd (px_malloc os n w)) = v w"
    and "take_over os linux fd s = Some (res, s')"
  shows "res = None \<and> (\<exists>x. v (world x) = v (world s) \<and> s' = close_fd os fd x) \<or> res = Some fd \<and> v (world s') = v (world s)"
proof -
  obtain r s1 where i1: "sys_call (px_ioctl os fd USBDEVFS_RESET []) s = (r, s1)" by fastforce
  define s2 where "s2 = (if r < 0 then os_message os ''ERROR: Can not reset device: '' s1 else s1)"
  obtain r' s3 where i2: "sys_call (px_ioctl os fd USBDEVFS_CLAIMINTERFACE [0]) s2 = (r', s3)" by fastforce
  obtain r'' s4 where i3: "sys_call (px_ioctl os fd USBDEVFS_SETINTERFACE [0, 0]) s3 = (r'', s4)" by fastforce
  obtain b s5 where ml: "sys_call (px_malloc os 4) s4 = (b, s5)" by fastforce
  have "v (world s2) = v (world s)"
    using sys_call_snd [OF i1] assms(1) by (simp add: s2_def)
  moreover from this have "v (world s3) = v (world s)"
    using sys_call_snd [OF i2] assms(1) by simp
  moreover from this have "v (world s4) = v (world s)"
    using sys_call_snd [OF i3] assms(1) by simp
  moreover from this have "v (world s5) = v (world s)"
    using sys_call_snd [OF ml] assms(2) by simp
  moreover have "take_over os linux fd s =
      (if r < 0 \<and> linux \<ge> KERNEL_VERSION 2 6 0 then Some (None, close_fd os fd s2)
       else if r' < 0 then Some (None, close_fd os fd (os_message os ''ERROR: Can not claim interface 0: '' s3))
       else if r'' < 0 then Some (None, close_fd os fd (os_message os ''ERROR: Can not set interface zero: '' s4))
       else case b of None \<Rightarrow> None | Some _ \<Rightarrow> Some (Some fd, s5))"
    by (simp only: take_over_def Let_def i1 prod.case s2_def [symmetric] i2 i3 ml)
  then have "res = None \<and> (s' = close_fd os fd s2 \<or> s' = close_fd os fd (os_message os ''ERROR: Can not claim interface 0: '' s3)
        \<or> s' = close_fd os fd (os_message os ''ERROR: Can not set interface zero: '' s4)) \<or> res = Some fd \<and> s' = s5"
    using assms(3) by (auto split: if_splits option.splits)
  ultimately show ?thesis by (metis os_message_world)
qed

lemma take_over_fds:
  assumes "fd_table os fds" and "take_over os linux fd s = Some (res, s')"
  shows "case res of None \<Rightarrow> fds (world s') = fds (world s) - {fd} | Some fd' \<Rightarrow> fd' = fd \<and> fds (world s') = fds (world s)"
proof -
  have "keeps_files os fds" using fd_table_calls(5) [OF assms(1)] .
  then have "res = None \<and> (\<exists>x. fds (world x) = fds (world s) \<and> s' = close_fd os fd x) \<or> res = Some fd \<and> fds (world s') = fds (world s)"
    by (intro take_over_keeps [OF _ _ assms(2)]) (simp_all add: keeps_files_def)
  then show ?thesis by (auto simp: close_fd_fds [OF assms(1)])
qed

lemma open_usb_dev_fds:
  assumes "fd_table os fds" and "open_usb_dev os linux v p i s = Some (res, s')"
  shows "case res of None \<Rightarrow> fds (world s') = fds (world s)
    | Some fd \<Rightarrow> fd \<notin> fds (world s) \<and> fds (world s') = insert fd (fds (world s)) \<and> 0 \<le> fd"
proof -
  obtain fh s1 where fo: "sys_call (px_fopen os ''/proc/bus/usb/devices'') s = (fh, s1)" by fastforce
  show ?thesis
  proof (cases fh)
    case None
    with fo assms(2) fd_table_opens(3) [OF assms(1)] show ?thesis by (auto simp: open_usb_dev_def)
  next
    case (Some st)
    obtain fhd content where st: "st = (fhd, content)" by fastforce
    obtain found bus device where sc: "scan_devices v p i 0 0 0 content = (found, bus, device)" by (metis prod_cases3)
    define s2 where "s2 = snd (sys_call (px_fclose os fhd) s1)"
    have s2: "fds (world s2) = fds (world s)"
      using fd_table_opens(4) [OF assms(1) fo [unfolded Some st]] assms(1) by (auto simp: s2_def fd_table_def closes_fds_def)
    obtain fd s3 where op: "sys_call (px_open os (device_path bus device) O_RDWR 0) s2 = (fd, s3)" by fastforce
    have run: "open_usb_dev os linux v p i s = (if \<not> found then Some (None, s2) else if fd < 0 then
        Some (None, os_message os (''ERROR: Failed to open usb device '' @ device_path bus device @ '': '') s3)
        else take_over os linux fd s3)"
      by (simp only: open_usb_dev_def Let_def fo Some st prod.case option.case sc s2_def [symmetric] op)
    consider "res = None" "s' = s2" | "fd < 0" "res = None" "world s' = world s3"
      | "\<not> fd < 0" "take_over os linux fd s3 = Some (res, s')"
      using run assms(2) by (auto split: if_splits)
    then show ?thesis
    proof cases
      case 3
      with take_over_fds [OF assms(1) 3(2)] fd_table_opens(2) [OF assms(1) op] s2 show ?thesis
        by (auto split: option.splits)
    qed (use s2 fd_table_opens(1) [OF assms(1) op] in auto)
  qed
qed

section \<open>Properties\<close>

lemma open_usb_dev_run:
  assumes "sys_call (px_fopen os ''/proc/bus/usb/devices'') s = (Some (fh, content), s1)"
    and "scan_devices v p i 0 0 0 content = (found, bus, device)"
  shows "open_usb_dev os linux v p i s =
    (let s2 = snd (sys_call (px_fclose os fh) s1);
         (fd, s3) = sys_call (px_open os (device_path bus device) O_RDWR 0) s2
     in if \<not> found then Some (None, s2)
        else if fd < 0 then
          Some (None, os_message os (''ERROR: Failed to open usb device '' @ device_path bus device @ '': '') s3)
        else take_over os linux fd s3)"
  by (simp add: open_usb_dev_def assms Let_def split: prod.split)

text \<open>C18. Reading the devices file selects the device: for every list of devices that the kernel
  writes into it, whatever other lines stand between, the device file that is opened is that of
  the entry number \<open>index\<close> among those with the vendor and product number, and nothing is opened
  if there are not so many.\<close>

theorem open_usb_dev_selects:
  assumes "\<forall>e\<in>set es. wf_entry e" and "v < 65536" and "p < 65536" and "ms = filter (is_product v p) es"
    and "sys_call (px_fopen os ''/proc/bus/usb/devices'') s = (Some (fh, concat (map entry_text es)), s1)"
    and "s2 = snd (sys_call (px_fclose os fh) s1)"
  shows "\<exists>message. open_usb_dev os linux (int v) (int p) index s =
    (if 0 \<le> index \<and> nat index < length ms then
       let path = device_path (int (e_bus (ms ! nat index))) (int (e_dev (ms ! nat index)));
           (fd, s3) = sys_call (px_open os path O_RDWR 0) s2
       in if fd < 0 then Some (None, os_message os message s3) else take_over os linux fd s3
     else Some (None, s2))"
proof -
  obtain found bus device where sc: "scan_devices (int v) (int p) index 0 0 0 (concat (map entry_text es)) = (found, bus, device)"
    by (metis prod_cases3)
  have "found \<longleftrightarrow> 0 \<le> index \<and> nat index < length ms"
    and "found \<Longrightarrow> bus = int (e_bus (ms ! nat index)) \<and> device = int (e_dev (ms ! nat index))"
    using scan_devices_file [OF assms(1-3), where i = index and n = 0 and bus = 0 and dvc = 0] sc assms(4) by (simp_all add: Let_def)
  with open_usb_dev_run [OF assms(5) sc, of linux] assms(6) show ?thesis
    by (auto simp: Let_def split: prod.split)
qed

definition script_hub :: usb_entry where
  "script_hub = \<lparr>e_bus = 1, e_dev = 1, e_place = (0, 0, 0, 0), e_vendor = 0, e_product = 0, e_speed = ''12  MxCh= 2'',
     e_revision = '' 0.00'', e_between = [''D:  Ver= 1.10''], e_after = [''S:  Product=USB'', '''']\<rparr>"

definition script_pvr :: usb_entry where
  "script_pvr = \<lparr>e_bus = 1, e_dev = 12, e_place = (1, 1, 0, 1), e_vendor = 0x11DB, e_product = 0x1000, e_speed = ''12  MxCh= 0'',
     e_revision = '' 1.00'', e_between = [], e_after = []\<rparr>"

lemma script_entries_wf: "\<forall>e\<in>set [script_hub, script_pvr]. wf_entry e"
  by (simp add: wf_entry_def script_hub_def script_pvr_def other_line_def)

theorem open_usb_dev_selects_witness:
  "\<exists>s2 s3 fd. open_usb_dev kernel 0 0x11DB 0x1000 0 (k_sys None [] (concat (map entry_text [script_hub, script_pvr])))
     = take_over kernel 0 fd s3 \<and> 0 \<le> fd \<and> sys_call (px_open kernel (device_path 1 12) O_RDWR 0) s2 = (fd, s3)"
proof -
  let ?file = "concat (map entry_text [script_hub, script_pvr])"
  let ?s = "k_sys None [] ?file"
  have fo: "sys_call (px_fopen kernel ''/proc/bus/usb/devices'') ?s
      = (Some (int (k_fresh (world ?s)), ?file), ?s\<lparr>world := k_new (world ?s)\<rparr>)"
    by (simp add: sys_call_def kernel_def k_sys_def)
  have ms: "filter (is_product 0x11DB 0x1000) [script_hub, script_pvr] = [script_pvr]"
    by (simp add: is_product_def script_hub_def script_pvr_def)
  have pvr: "e_bus script_pvr = 1" "e_dev script_pvr = 12" by (simp_all add: script_pvr_def)
  let ?s2 = "snd (sys_call (px_fclose kernel (int (k_fresh (world ?s)))) (?s\<lparr>world := k_new (world ?s)\<rparr>))"
  obtain fd s3 where op: "sys_call (px_open kernel (device_path 1 12) O_RDWR 0) ?s2 = (fd, s3)" by fastforce
  then have "0 \<le> fd" by (auto simp: sys_call_def kernel_def)
  with open_usb_dev_selects [OF script_entries_wf _ _ ms [symmetric] fo refl, of 0 0] op pvr
  show ?thesis by (intro exI [of _ ?s2] exI [of _ s3] exI [of _ fd]) simp
qed

text \<open>Opening the USB device leaves no descriptor open but the one it returns: the stream of the
  devices file and, on every error of the take-over, the device file are closed.\<close>

theorem open_usb_dev_no_leak:
  assumes "fd_table os fds" and "open_usb_dev os linux vendor_id product_id index s = Some (res, s')"
  shows "case res of None \<Rightarrow> fds (world s') = fds (world s)
    | Some fd \<Rightarrow> fd \<notin> fds (world s) \<and> fds (world s') = insert fd (fds (world s)) \<and> 0 \<le> fd"
  using assms by (rule open_usb_dev_fds)

theorem open_usb_dev_no_leak_witness:
  "\<exists>s'. open_usb_dev kernel 0 0x11DB 0x1000 0 (k_sys None [] ''T:'') = Some (None, s') \<and> k_open_fds (world s') = {0, 1, 2}"
proof -
  let ?s = "k_sys None [] ''T:''"
  have sc: "scan_devices 0x11DB 0x1000 0 0 0 0 ''T:'' = (False, 0, 0)"
    by (simp add: scan_devices.simps [of _ _ _ _ _ _ "''T:''"] scan_devices.simps [of _ _ _ _ _ _ "[]"] c_fgets_def
        c_sscanf_def topology_directives)
  have fo: "sys_call (px_fopen kernel ''/proc/bus/usb/devices'') ?s
      = (Some (int (k_fresh (world ?s)), ''T:''), ?s\<lparr>world := k_new (world ?s)\<rparr>)"
    by (simp add: sys_call_def kernel_def k_sys_def)
  obtain s' where run: "open_usb_dev kernel 0 0x11DB 0x1000 0 ?s = Some (None, s')"
    using open_usb_dev_run [OF fo sc, of 0] by (auto simp: Let_def split: prod.splits)
  have "k_open_fds (world ?s) = {0, 1, 2}" by (auto simp: k_open_fds_def k_sys_def)
  with open_usb_dev_no_leak [OF kernel_fd_table run] run show ?thesis by simp
qed

end
