(* ===== verification/Tf_Open.thy ===== *)
theory Tf_Open
  imports Usb_Open
begin

text \<open>
  Opening and closing the connection, \<^verbatim>\<open>tf_open.c\<close>: the lock file that keeps programs off each
  other's device, the signal that asks its holder to give way, the USB device and the transfer
  buffer.
\<close>

section \<open>Definitions\<close>

abbreviation (input) TF_DEFAULT_TIMEOUT :: int where "TF_DEFAULT_TIMEOUT \<equiv> 11000"
abbreviation (input) TOPFIELD_VENDOR_ID :: int where "TOPFIELD_VENDOR_ID \<equiv> 0x11DB"
abbreviation (input) TOPFIELD_5000PVRT_ID :: int where "TOPFIELD_5000PVRT_ID \<equiv> 0x1000"

definition TF_LOCKFILE :: string where
  "TF_LOCKFILE = ''/tmp/puppy''"

datatype tf_lock_t = TF_LOCK_STD | TF_LOCK_NONE | TF_LOCK_HUP

definition lock_filename :: "int \<Rightarrow> string" where
  "lock_filename index = (if index = 0 then TF_LOCKFILE else take 99 (TF_LOCKFILE @ ''.'' @ fmt_int index))"

text \<open>The \<^verbatim>\<open>for\<close> loop around the lock: whether the lock was taken, and what \<^verbatim>\<open>lock_fd\<close> is then.\<close>

function lock_loop :: "'w posix \<Rightarrow> int \<Rightarrow> tf_lock_t \<Rightarrow> 'w sys \<Rightarrow> (bool \<times> int \<times> 'w sys) option" where
  "lock_loop os index lock s =
     (let (fd, s) = sys_call (px_open os (lock_filename index) (O_RDWR OR O_CREAT) 384) s;
          (r, s) = (if fd \<ge> 0 then sys_call (px_flock os fd (LOCK_EX OR LOCK_NB)) s else (-1, s))
      in if fd \<ge> 0 \<and> r = 0 then
           let text = pid_line (px_getpid os (world s))
           in if length text + 1 > 10 then None
              else let (n, s) = sys_call (px_write os fd text) s in Some (True, fd, s)
         else let s = close_fd os fd s
           in if lock = TF_LOCK_HUP then
                let (pid, s) = read_pid os (lock_filename index) s
                in if pid > 0 then
                     let (k, s) = sys_call (px_kill os pid SIGHUP) s
                     in if k = 0 then lock_loop os index TF_LOCK_STD (px_nap os 2 s) else Some (False, fd, s)
                   else Some (False, fd, s)
              else Some (False, fd, s))"
  by pat_completeness auto
termination
  by (relation "measure (\<lambda>(os, index, lock, s). if lock = TF_LOCK_HUP then 1 else 0)") auto

declare lock_loop.simps [simp del]

definition blank_handle :: tf_handle where
  "blank_handle = \<lparr>timeout = TF_DEFAULT_TIMEOUT, trace_level = 0, tracefh = Some stderr, nocrc = 0, error = 0,
     lock_fd = -1, dev = None, pending = 0, buf = None\<rparr>"

definition topfield_open :: "'w posix \<Rightarrow> nat \<Rightarrow> int \<Rightarrow> tf_lock_t \<Rightarrow> 'w sys \<Rightarrow> (int \<times> tf_handle \<times> 'w sys) option" where
  "topfield_open os linux index lock s = do {
     (ok, lfd, s) \<leftarrow> (if lock \<noteq> TF_LOCK_NONE then lock_loop os index lock s else Some (True, -1, s));
     let tf = blank_handle\<lparr>lock_fd := lfd\<rparr>;
     (if \<not> ok then Some (1, tf, s)
      else do {
        (d, s) \<leftarrow> open_usb_dev os linux TOPFIELD_VENDOR_ID TOPFIELD_5000PVRT_ID index s;
        (case d of
           None \<Rightarrow> Some (-1, tf\<lparr>lock_fd := -1\<rparr>, close_fd os lfd s)
         | Some fd \<Rightarrow>
             let (b, s) = sys_call (px_malloc os 0x10000) s in Some (0, tf\<lparr>dev := Some fd, buf := b\<rparr>, s))
      })
   }"

definition topfield_close :: "'w posix \<Rightarrow> nat \<Rightarrow> tf_handle \<Rightarrow> 'w sys \<Rightarrow> tf_handle \<times> 'w sys" where
  "topfield_close os linux tf s =
     (case dev tf of
        None \<Rightarrow> (tf, s)
      | Some fd \<Rightarrow> (tf\<lparr>dev := None, buf := None\<rparr>, close_fd os (lock_fd tf) (close_usb_dev os linux fd s)))"

section \<open>Descriptors and locks\<close>

text \<open>Documented behaviour of file locks: \<open>own w\<close> are the descriptors through which this process holds
  a lock; closing a descriptor gives its lock up, and no other call changes them.\<close>

definition flock_kernel :: "'w posix \<Rightarrow> ('w \<Rightarrow> int set) \<Rightarrow> ('w \<Rightarrow> int set) \<Rightarrow> bool" where
  "flock_kernel os fds own \<longleftrightarrow>
     (\<forall>w. own w \<subseteq> fds w) \<and>
     (\<forall>fd w r w'. px_flock os fd (LOCK_EX OR LOCK_NB) w = (r, w') \<longrightarrow>
        own w' = (if r = 0 then insert fd (own w) else own w)) \<and>
     (\<forall>fd w. own (snd (px_close os fd w)) = own w - {fd}) \<and>
     (\<forall>p f m w. own (snd (px_open os p f m w)) = own w) \<and>
     (\<forall>fd n w. own (snd (px_read os fd n w)) = own w) \<and>
     (\<forall>fd bs w. own (snd (px_write os fd bs w)) = own w) \<and>
     (\<forall>p w. own (snd (px_fopen os p w)) = own w) \<and>
     (\<forall>fd w. own (snd (px_fclose os fd w)) = own w - {fd}) \<and>
     (\<forall>fd rq l w. own (snd (px_ioctl os fd rq l w)) = own w) \<and>
     (\<forall>n w. own (snd (px_malloc os n w)) = own w) \<and>
     (\<forall>pid sg w. own (snd (px_kill os pid sg w)) = own w) \<and>
     (\<forall>n w. own (px_sleep os n w) = own w)"

lemma lock_loop_step:
  assumes "sys_call (px_open os (lock_filename index) (O_RDWR OR O_CREAT) 384) s = (fd, s1)"
    and "(if fd \<ge> 0 then sys_call (px_flock os fd (LOCK_EX OR LOCK_NB)) s1 else (-1, s1)) = (r, s2)"
    and "sys_call (px_write os fd (pid_line (px_getpid os (world s2)))) s2 = (n, s3)"
    and "read_pid os (lock_filename index) (close_fd os fd s2) = (pid, s4)"
    and "sys_call (px_kill os pid SIGHUP) s4 = (k, s5)"
  shows "lock_loop os index lock s =
    (if fd \<ge> 0 \<and> r = 0 then
       if length (pid_line (px_getpid os (world s2))) + 1 > 10 then None else Some (True, fd, s3)
     else if lock = TF_LOCK_HUP then
       if pid > 0 then if k = 0 then lock_loop os index TF_LOCK_STD (px_nap os 2 s5) else Some (False, fd, s5)
       else Some (False, fd, s4)
     else Some (False, fd, close_fd os fd s2))"
  by (subst lock_loop.simps) (simp only: assms Let_def prod.case)

text \<open>One round of the loop: it ends with the lock, it ends without, or it goes on as a plain one.\<close>

lemma lock_loop_cases:
  assumes "lock_loop os index lock s = Some (ok, lfd, s')"
  obtains (locked) fd s1 s2 n where "ok" "lfd = fd" "0 \<le> fd"
      "sys_call (px_open os (lock_filename index) (O_RDWR OR O_CREAT) 384) s = (fd, s1)"
      "sys_call (px_flock os fd (LOCK_EX OR LOCK_NB)) s1 = (0, s2)"
      "sys_call (px_write os fd (pid_line (px_getpid os (world s2)))) s2 = (n, s')"
  | (busy) fd s1 r s2 x where "sys_call (px_open os (lock_filename index) (O_RDWR OR O_CREAT) 384) s = (fd, s1)"
      "(if fd \<ge> 0 then sys_call (px_flock os fd (LOCK_EX OR LOCK_NB)) s1 else (-1, s1)) = (r, s2)" "\<not> (fd \<ge> 0 \<and> r = 0)"
      "x = close_fd os fd s2" "lock \<noteq> TF_LOCK_HUP" "\<not> ok" "s' = x"
  | (asked) fd s1 r s2 x pid s4 where "sys_call (px_open os (lock_filename index) (O_RDWR OR O_CREAT) 384) s = (fd, s1)"
      "(if fd \<ge> 0 then sys_call (px_flock os fd (LOCK_EX OR LOCK_NB)) s1 else (-1, s1)) = (r, s2)" "\<not> (fd \<ge> 0 \<and> r = 0)"
      "x = close_fd os fd s2" "lock = TF_LOCK_HUP" "read_pid os (lock_filename index) x = (pid, s4)"
      "\<not> ok \<and> pid \<le> 0 \<and> s' = s4
       \<or> 0 < pid \<and> (\<exists>k s5. sys_call (px_kill os pid SIGHUP) s4 = (k, s5)
            \<and> (\<not> ok \<and> s' = s5 \<or> lock_loop os index TF_LOCK_STD (px_nap os 2 s5) = Some (ok, lfd, s')))"
proof -
  obtain fd s1 where op: "sys_call (px_open os (lock_filename index) (O_RDWR OR O_CREAT) 384) s = (fd, s1)" by fastforce
  obtain r s2 where lk: "(if fd \<ge> 0 then sys_call (px_flock os fd (LOCK_EX OR LOCK_NB)) s1 else (-1, s1)) = (r, s2)" by fastforce
  obtain n s3 where wr: "sys_call (px_write os fd (pid_line (px_getpid os (world s2)))) s2 = (n, s3)" by fastforce
  obtain pid s4 where rd: "read_pid os (lock_filename index) (close_fd os fd s2) = (pid, s4)" by fastforce
  obtain k s5 where kl: "sys_call (px_kill os pid SIGHUP) s4 = (k, s5)" by fastforce
  note run = assms [unfolded lock_loop_step [OF op lk wr rd kl]]
  show thesis
  proof (cases "fd \<ge> 0 \<and> r = 0")
    case True
    with run have "ok" "lfd = fd" "s' = s3" by (auto split: if_splits)
    with True op lk wr show thesis by (intro locked) auto
  next
    case no: False
    show thesis
    proof (cases "lock = TF_LOCK_HUP")
      case True
      with no run rd kl show thesis
        by (intro asked [OF op lk no refl True rd]) (auto split: if_splits)
    next
      case False
      with no run show thesis by (intro busy [OF op lk no refl False]) (auto split: if_splits)
    qed
  qed
qed

lemma flock_kernel_calls:
  assumes "flock_kernel os fds own"
  shows "sys_call (px_open os p f m) s = (r, s') \<Longrightarrow> own (world s') = own (world s)"
    and "sys_call (px_read os fd n) s = (got, s') \<Longrightarrow> own (world s') = own (world s)"
    and "sys_call (px_write os fd bs) s = (r, s') \<Longrightarrow> own (world s') = own (world s)"
    and "sys_call (px_kill os pid sg) s = (r, s') \<Longrightarrow> own (world s') = own (world s)"
    and "sys_call (px_fopen os p) s = (fh, s') \<Longrightarrow> own (world s') = own (world s)"
    and "sys_call (px_fclose os fd) s = (r, s') \<Longrightarrow> own (world s') = own (world s) - {fd}"
    and "sys_call (px_ioctl os fd rq ls) s = (r, s') \<Longrightarrow> own (world s') = own (world s)"
    and "sys_call (px_malloc os n) s = (b, s') \<Longrightarrow> own (world s') = own (world s)"
    and "own (px_sleep os n w) = own w"
    and "own (world (close_fd os fd s)) = own (world s) - {fd}"
    and "own w \<subseteq> fds w"
  using assms by (simp_all add: flock_kernel_def sys_call_snd close_fd_def)

lemma flock_own:
  assumes "flock_kernel os fds own" and "sys_call (px_flock os fd (LOCK_EX OR LOCK_NB)) s = (r, s')"
  shows "own (world s') = (if r = 0 then insert fd (own (world s)) else own (world s))"
proof -
  have "\<forall>fd w r w'. px_flock os fd (LOCK_EX OR LOCK_NB) w = (r, w') \<longrightarrow> own w' = (if r = 0 then insert fd (own w) else own w)"
    by (rule conjunct1 [OF conjunct2 [OF assms(1) [unfolded flock_kernel_def]]])
  with sys_call_world [OF assms(2)] show ?thesis by blast
qed

lemma read_pid_keeps:
  assumes "fd_table os fds" and "read_pid os path s = (pid, s')"
  shows "fds (world s') = fds (world s)" and "flock_kernel os fds own \<Longrightarrow> own (world s') = own (world s)"
proof -
  obtain fd s1 where op: "sys_call (px_open os path O_RDONLY 0) s = (fd, s1)" by fastforce
  obtain got s2 where rd: "sys_call (px_read os fd 9) s1 = (got, s2)" by fastforce
  have run: "s' = (if fd \<ge> 0 then close_fd os fd s2 else s1)"
    using assms(2) op rd by (auto simp: read_pid_def Let_def)
  have f2: "fds (world s2) = fds (world s1)"
    using keeps_files_calls(1) [OF fd_table_calls(5) [OF assms(1)] rd] by simp
  show "fds (world s') = fds (world s)"
    using run f2 fd_table_opens(1,2) [OF assms(1) op] by (auto simp: close_fd_fds [OF assms(1)])
  assume o: "flock_kernel os fds own"
  have "own (world s2) = own (world s)" "own (world s1) = own (world s)"
    using flock_kernel_calls(1) [OF o op] flock_kernel_calls(2) [OF o rd] by simp_all
  moreover have "0 \<le> fd \<Longrightarrow> fd \<notin> own (world s)"
    using fd_table_opens(2) [OF assms(1) op] flock_kernel_calls(11) [OF o, of "world s"] by auto
  ultimately show "own (world s') = own (world s)"
    using run by (auto simp: flock_kernel_calls(10) [OF o])
qed

text \<open>The invariant of the loop: the lock comes with exactly one new descriptor, and no lock with none.\<close>

definition lock_taken :: "('w \<Rightarrow> int set) \<Rightarrow> ('w \<Rightarrow> int set) \<Rightarrow> 'w sys \<Rightarrow> bool \<Rightarrow> int \<Rightarrow> 'w sys \<Rightarrow> bool" where
  "lock_taken fds own s ok lfd s' \<longleftrightarrow>
     (if ok then 0 \<le> lfd \<and> lfd \<notin> fds (world s) \<and> fds (world s') = insert lfd (fds (world s)) \<and> own (world s') = insert lfd (own (world s))
      else fds (world s') = fds (world s) \<and> own (world s') = own (world s))"

lemma lock_attempt_failed:
  assumes "fd_table os fds" and "flock_kernel os fds own"
    and "sys_call (px_open os path f m) s = (fd, s1)"
    and "(if fd \<ge> 0 then sys_call (px_flock os fd (LOCK_EX OR LOCK_NB)) s1 else (-1, s1)) = (r, s2)" and "\<not> (fd \<ge> 0 \<and> r = 0)"
  shows "fds (world (close_fd os fd s2)) = fds (world s) \<and> own (world (close_fd os fd s2)) = own (world s)"
proof (cases "0 \<le> fd")
  case True
  with assms(4,5) have lk: "sys_call (px_flock os fd (LOCK_EX OR LOCK_NB)) s1 = (r, s2)" "r \<noteq> 0" by auto
  have new: "fd \<notin> fds (world s)" "fds (world s1) = insert fd (fds (world s))"
    using fd_table_opens(2) [OF assms(1,3)] True by auto
  moreover have "fds (world s2) = fds (world s1)"
    using keeps_files_calls(4) [OF fd_table_calls(5) [OF assms(1)] lk(1)] by simp
  moreover have "own (world s2) = own (world s)"
    using flock_own [OF assms(2) lk(1)] lk(2) flock_kernel_calls(1) [OF assms(2,3)] by simp
  moreover have "fd \<notin> own (world s)"
    using new(1) flock_kernel_calls(11) [OF assms(2), of "world s"] by auto
  ultimately show ?thesis
    by (simp add: close_fd_fds [OF assms(1)] flock_kernel_calls(10) [OF assms(2)])
next
  case False
  with assms(4) have "s2 = s1" by simp
  moreover have "fds (world s1) = fds (world s)" "own (world s1) = own (world s)"
    using False fd_table_opens(1) [OF assms(1,3)] flock_kernel_calls(1) [OF assms(2,3)] by auto
  moreover have "fd \<notin> fds (world s)" "fd \<notin> own (world s)"
    using False fd_table_opens(5) [OF assms(1)] flock_kernel_calls(11) [OF assms(2), of "world s"] by auto
  ultimately show ?thesis
    by (simp add: close_fd_fds [OF assms(1)] flock_kernel_calls(10) [OF assms(2)])
qed

lemma lock_loop_taken:
  assumes t: "fd_table os fds" and o: "flock_kernel os fds own"
  shows "lock_loop os index lock s = Some (ok, lfd, s') \<Longrightarrow> lock_taken fds own s ok lfd s'"
proof (induction "if lock = TF_LOCK_HUP then 1 else 0 :: nat" arbitrary: lock s rule: less_induct)
  case less
  from less.prems show ?case
  proof (cases rule: lock_loop_cases)
    case (locked fd s1 s2 n)
    have "fd \<notin> fds (world s)" "fds (world s1) = insert fd (fds (world s))" "fds (world s2) = fds (world s1)" "fds (world s') = fds (world s2)"
      using fd_table_opens(2) [OF t locked(4)] locked(3) keeps_files_calls(4) [OF fd_table_calls(5) [OF t] locked(5)]
        keeps_files_calls(2) [OF fd_table_calls(5) [OF t] locked(6)] by auto
    moreover have "own (world s') = insert fd (own (world s))"
      using flock_own [OF o locked(5)] flock_kernel_calls(1) [OF o locked(4)] flock_kernel_calls(3) [OF o locked(6)] by simp
    ultimately show ?thesis using locked(1-3) by (simp add: lock_taken_def)
  next
    case (busy fd s1 r s2 x)
    with lock_attempt_failed [OF t o busy(1-3)] show ?thesis by (simp add: lock_taken_def)
  next
    case (asked fd s1 r s2 x pid s4)
    note same = lock_attempt_failed [OF t o asked(1-3)] read_pid_keeps(1) [OF t asked(6)] read_pid_keeps(2) [OF t asked(6) o]
    then have s4: "fds (world s4) = fds (world s)" "own (world s4) = own (world s)" using asked(4) by simp_all
    from asked(7) show ?thesis
    proof (elim disjE conjE exE)
      assume "\<not> ok" "s' = s4"
      with s4 show ?thesis by (simp add: lock_taken_def)
    next
      fix k s5 assume kl: "sys_call (px_kill os pid SIGHUP) s4 = (k, s5)" and "\<not> ok" "s' = s5"
      with s4 fd_table_calls(3) [OF t kl] flock_kernel_calls(4) [OF o kl] show ?thesis by (simp add: lock_taken_def)
    next
      fix k s5 assume kl: "sys_call (px_kill os pid SIGHUP) s4 = (k, s5)"
        and again: "lock_loop os index TF_LOCK_STD (px_nap os 2 s5) = Some (ok, lfd, s')"
      have "lock_taken fds own (px_nap os 2 s5) ok lfd s'"
        by (rule less.hyps [OF _ again]) (simp add: asked(5))
      moreover have "fds (world (px_nap os 2 s5)) = fds (world s)" "own (world (px_nap os 2 s5)) = own (world s)"
        using s4 fd_table_calls(3) [OF t kl] flock_kernel_calls(4) [OF o kl]
        by (simp_all add: fd_table_calls(4) [OF t] flock_kernel_calls(9) [OF o])
      ultimately show ?thesis by (auto simp: lock_taken_def split: if_splits)
    qed
  qed
qed

lemma take_over_own:
  assumes "flock_kernel os fds own" and "take_over os linux fd s = Some (res, s')"
  shows "own (world s') = own (world s) \<or> own (world s') = own (world s) - {fd}"
proof -
  have "res = None \<and> (\<exists>x. own (world x) = own (world s) \<and> s' = close_fd os fd x) \<or> res = Some fd \<and> own (world s') = own (world s)"
    using assms(1) by (intro take_over_keeps [OF _ _ assms(2)]) (simp_all add: flock_kernel_def)
  then show ?thesis using flock_kernel_calls(10) [OF assms(1)] by metis
qed

lemma open_usb_dev_own:
  assumes t: "fd_table os fds" and o: "flock_kernel os fds own" and run: "open_usb_dev os linux v p i s = Some (res, s')"
  shows "own (world s') = own (world s)"
proof -
  note keep = flock_kernel_calls [OF o]
  obtain fh s1 where fo: "sys_call (px_fopen os ''/proc/bus/usb/devices'') s = (fh, s1)" by fastforce
  note o1 = keep(5) [OF fo]
  show ?thesis
  proof (cases fh)
    case None
    with fo run have "world s' = world s1" by (auto simp: open_usb_dev_def)
    with o1 show ?thesis by simp
  next
    case (Some st)
    obtain fhd content where st: "st = (fhd, content)" by fastforce
    obtain found bus device where sc: "scan_devices v p i 0 0 0 content = (found, bus, device)" by (metis prod_cases3)
    obtain q s2 where fc: "sys_call (px_fclose os fhd) s1 = (q, s2)" by fastforce
    obtain fd s3 where op: "sys_call (px_open os (device_path bus device) O_RDWR 0) s2 = (fd, s3)" by fastforce
    have "fhd \<notin> own (world s)"
      using fd_table_opens(4) [OF t fo [unfolded Some st]] keep(11) [of "world s"] by auto
    then have o3: "own (world s2) = own (world s)" "own (world s3) = own (world s)"
      using o1 keep(6) [OF fc] keep(1) [OF op] by simp_all
    consider "s' = s2" | "world s' = world s3" | "\<not> fd < 0" "take_over os linux fd s3 = Some (res, s')"
      using run open_usb_dev_run [OF fo [unfolded Some st] sc, of linux] fc op by (auto split: if_splits)
    then show ?thesis
    proof cases
      case 3
      have "fd \<notin> own (world s2)"
        using fd_table_opens(2) [OF t op] 3(1) keep(11) [of "world s2"] by auto
      with take_over_own [OF o 3(2)] o3 show ?thesis by auto
    qed (use o3 in auto)
  qed
qed

lemma topfield_open_cases:
  assumes "topfield_open os linux index lock s = Some (ret, tf, s')"
  obtains (locked_out) lfd where "lock \<noteq> TF_LOCK_NONE" "lock_loop os index lock s = Some (False, lfd, s')"
      "ret = 1" "tf = blank_handle\<lparr>lock_fd := lfd\<rparr>"
  | (no_device) lfd s1 s2 where
      "(if lock \<noteq> TF_LOCK_NONE then lock_loop os index lock s else Some (True, -1, s)) = Some (True, lfd, s1)"
      "open_usb_dev os linux TOPFIELD_VENDOR_ID TOPFIELD_5000PVRT_ID index s1 = Some (None, s2)"
      "ret = -1" "tf = blank_handle" "s' = close_fd os lfd s2"
  | (opened) lfd s1 fd s2 b where
      "(if lock \<noteq> TF_LOCK_NONE then lock_loop os index lock s else Some (True, -1, s)) = Some (True, lfd, s1)"
      "open_usb_dev os linux TOPFIELD_VENDOR_ID TOPFIELD_5000PVRT_ID index s1 = Some (Some fd, s2)"
      "sys_call (px_malloc os 0x10000) s2 = (b, s')"
      "ret = 0" "tf = blank_handle\<lparr>lock_fd := lfd, dev := Some fd, buf := b\<rparr>"
proof -
  obtain ok lfd s1 where lk: "(if lock \<noteq> TF_LOCK_NONE then lock_loop os index lock s else Some (True, -1, s)) = Some (ok, lfd, s1)"
    using assms unfolding topfield_open_def by (auto split: bind_splits)
  show thesis
  proof (cases ok)
    case False
    with lk have ne: "lock \<noteq> TF_LOCK_NONE" "lock_loop os index lock s = Some (False, lfd, s1)" by (auto split: if_splits)
    moreover from assms lk False have "ret = 1" "tf = blank_handle\<lparr>lock_fd := lfd\<rparr>" "s' = s1"
      unfolding topfield_open_def by auto
    ultimately show thesis by (intro locked_out) simp_all
  next
    case True
    with assms lk obtain d s2 where u: "open_usb_dev os linux TOPFIELD_VENDOR_ID TOPFIELD_5000PVRT_ID index s1 = Some (d, s2)"
      unfolding topfield_open_def by (auto simp: Let_def split: bind_splits)
    show thesis
    proof (cases d)
      case None
      with assms lk True u have "ret = -1" "tf = blank_handle\<lparr>lock_fd := lfd\<rparr>\<lparr>lock_fd := -1\<rparr>" "s' = close_fd os lfd s2"
        unfolding topfield_open_def by auto
      then show thesis using lk True u None by (intro no_device) (simp_all add: blank_handle_def)
    next
      case (Some fd)
      obtain b s3 where ml: "sys_call (px_malloc os 0x10000) s2 = (b, s3)" by fastforce
      with assms lk True u Some have "ret = 0" "tf = blank_handle\<lparr>lock_fd := lfd, dev := Some fd, buf := b\<rparr>" "s' = s3"
        unfolding topfield_open_def by auto
      then show thesis using lk True u Some ml by (intro opened) simp_all
    qed
  qed
qed

lemma open_lock_part:
  assumes "fd_table os fds" and "flock_kernel os fds own"
    and "(if lock \<noteq> TF_LOCK_NONE then lock_loop os index lock s else Some (True, -1, s)) = Some (True, lfd, s1)"
  shows "if lock = TF_LOCK_NONE then lfd = -1 \<and> s1 = s else lock_taken fds own s True lfd s1"
  using assms(3) lock_loop_taken [OF assms(1,2)] by (auto split: if_splits)

section \<open>Properties\<close>

lemma topfield_open_result:
  assumes t: "fd_table os fds" and o: "flock_kernel os fds own" and "topfield_open os linux index lock s = Some (ret, tf, s')"
  shows "ret = 0 \<and> (\<exists>fd. dev tf = Some fd \<and> fd \<notin> fds (world s) \<and>
       (if lock = TF_LOCK_NONE then lock_fd tf = -1 \<and> fds (world s') = insert fd (fds (world s))
        else lock_fd tf \<in> own (world s') \<and> lock_fd tf \<notin> fds (world s) \<and> lock_fd tf \<noteq> fd
          \<and> fds (world s') = insert fd (insert (lock_fd tf) (fds (world s)))))
    \<or> (ret = 1 \<or> ret = -1) \<and> dev tf = None \<and> fds (world s') = fds (world s) \<and> own (world s') = own (world s)"
  using assms(3)
proof (cases rule: topfield_open_cases)
  case (locked_out lfd)
  with lock_loop_taken [OF t o locked_out(2)] show ?thesis by (simp add: lock_taken_def blank_handle_def)
next
  case (no_device lfd s1 s2)
  note lp = open_lock_part [OF t o no_device(1)]
  have same: "fds (world s2) = fds (world s1)" "own (world s2) = own (world s1)"
    using open_usb_dev_fds [OF t no_device(2)] open_usb_dev_own [OF t o no_device(2)] by auto
  have "fds (world s') = fds (world s1) - {lfd}" "own (world s') = own (world s1) - {lfd}"
    using same no_device(5) by (simp_all add: close_fd_fds [OF t] flock_kernel_calls(10) [OF o])
  moreover have "fds (world s1) - {lfd} = fds (world s) \<and> own (world s1) - {lfd} = own (world s)"
  proof (cases "lock = TF_LOCK_NONE")
    case True
    with lp have "lfd = -1" "s1 = s" by simp_all
    moreover have "-1 \<notin> fds (world s)" using fd_table_opens(5) [OF t, of "-1" "world s"] by auto
    moreover have "-1 \<notin> own (world s)" using \<open>-1 \<notin> fds (world s)\<close> flock_kernel_calls(11) [OF o, of "world s"] by auto
    ultimately show ?thesis by simp
  next
    case False
    with lp have "lfd \<notin> fds (world s)" "fds (world s1) = insert lfd (fds (world s))" "own (world s1) = insert lfd (own (world s))"
      by (simp_all add: lock_taken_def)
    moreover from this have "lfd \<notin> own (world s)" using flock_kernel_calls(11) [OF o, of "world s"] by auto
    ultimately show ?thesis by simp
  qed
  ultimately show ?thesis using no_device(3,4) by (simp add: blank_handle_def)
next
  case (opened lfd s1 fd s2 b)
  note lp = open_lock_part [OF t o opened(1)]
  have u: "fd \<notin> fds (world s1)" "fds (world s2) = insert fd (fds (world s1))" "own (world s2) = own (world s1)"
    using open_usb_dev_fds [OF t opened(2)] open_usb_dev_own [OF t o opened(2)] by auto
  moreover have "fds (world s') = fds (world s2)" "own (world s') = own (world s2)"
    using keeps_files_calls(8) [OF fd_table_calls(5) [OF t] opened(3)] flock_kernel_calls(8) [OF o opened(3)] by simp_all
  moreover have "dev tf = Some fd" "lock_fd tf = lfd" using opened(5) by simp_all
  ultimately show ?thesis using opened(4) lp by (auto simp: lock_taken_def split: if_splits)
qed

lemma kernel_flock: "flock_kernel kernel k_open_fds (\<lambda>w. k_locked w \<inter> k_open_fds w)"
proof -
  have new: "k_locked (k_new w) \<inter> k_open_fds (k_new w) = k_locked w \<inter> k_open_fds w" for w
  proof -
    have "k_locked (k_new w) = k_locked w - {int (k_fresh w)}" by (simp add: k_new_def)
    then show ?thesis using k_open_new [of w] by auto
  qed
  have shut: "k_locked (snd (k_shut fd w)) \<inter> k_open_fds (snd (k_shut fd w)) = k_locked w \<inter> k_open_fds w - {fd}" for fd w
    unfolding k_open_shut by (auto simp: k_shut_def)
  have lock: "k_locked w' \<inter> k_open_fds w' = (if r = 0 then insert fd (k_locked w \<inter> k_open_fds w) else k_locked w \<inter> k_open_fds w)"
    if "k_flock fd w = (r, w')" for fd w r w'
    using that by (auto simp: k_flock_def k_open_fds_def split: if_splits)
  show ?thesis
    unfolding flock_kernel_def kernel_simps using new shut lock by (simp add: k_open_fds_def)
qed

text \<open>C17. Opening the connection: with result 0 the handle has the USB descriptor, and unless the
  caller asked for no lock, a lock file descriptor whose lock this process holds; with result 1
  (in use) or -1 (no device) nothing is left open and no lock is kept.\<close>

theorem topfield_open_outcome:
  assumes "fd_table os fds" and "flock_kernel os fds own" and "topfield_open os linux index lock s = Some (ret, tf, s')"
  shows "ret = 0 \<and> (\<exists>fd. dev tf = Some fd \<and> fd \<notin> fds (world s) \<and>
       (if lock = TF_LOCK_NONE then lock_fd tf = -1 \<and> fds (world s') = insert fd (fds (world s))
        else lock_fd tf \<in> own (world s') \<and> lock_fd tf \<notin> fds (world s) \<and> lock_fd tf \<noteq> fd
          \<and> fds (world s') = insert fd (insert (lock_fd tf) (fds (world s)))))
    \<or> (ret = 1 \<or> ret = -1) \<and> dev tf = None \<and> fds (world s') = fds (world s) \<and> own (world s') = own (world s)"
  using assms by (rule topfield_open_result)

lemma script_locked_out:
  "\<exists>s'. topfield_open kernel 0 0 TF_LOCK_STD (k_sys (Some 4711) ''4711'' []) = Some (1, blank_handle\<lparr>lock_fd := 3\<rparr>, s')"
proof -
  let ?s = "k_sys (Some 4711) ''4711'' []"
  have "lock_loop kernel 0 TF_LOCK_STD ?s = Some (False, 3, close_fd kernel 3 (?s\<lparr>world := k_new (world ?s)\<rparr>))"
    by (subst lock_loop.simps) (simp add: sys_call_def kernel_simps k_sys_def k_flock_def k_fresh_def k_new_def)
  then show ?thesis by (simp add: topfield_open_def)
qed

theorem topfield_open_outcome_witness:
  "\<exists>s'. topfield_open kernel 0 0 TF_LOCK_STD (k_sys (Some 4711) ''4711'' []) = Some (1, blank_handle\<lparr>lock_fd := 3\<rparr>, s')
    \<and> k_open_fds (world s') = {0, 1, 2}"
proof -
  obtain s' where run: "topfield_open kernel 0 0 TF_LOCK_STD (k_sys (Some 4711) ''4711'' [])
      = Some (1, blank_handle\<lparr>lock_fd := 3\<rparr>, s')"
    using script_locked_out by blast
  have "k_open_fds (world s') = k_open_fds (world (k_sys (Some 4711) ''4711'' []))"
    using topfield_open_outcome [OF kernel_fd_table kernel_flock run] by simp
  also have "\<dots> = {0, 1, 2}" by (auto simp: k_open_fds_def k_sys_def)
  finally show ?thesis using run by blast
qed

lemma script_opens:
  "\<exists>tf s1. topfield_open kernel 0 0 TF_LOCK_STD (k_sys None [] (concat (map entry_text [script_hub, script_pvr]))) = Some (0, tf, s1)"
proof -
  let ?file = "concat (map entry_text [script_hub, script_pvr])"
  have lk: "\<exists>s1. lock_loop kernel 0 TF_LOCK_STD (k_sys None [] d) = Some (True, 3, s1) \<and> k_devices (world s1) = d" for d
    by (subst lock_loop.simps)
      (simp add: sys_call_def kernel_simps k_sys_def k_flock_def k_fresh_def k_new_def pid_line_def fmt_int_def
        radix_digits.simps newline_def)
  obtain s1 where s1: "lock_loop kernel 0 TF_LOCK_STD (k_sys None [] ?file) = Some (True, 3, s1)" "k_devices (world s1) = ?file"
    using lk [of ?file] by blast
  have sc: "scan_devices 0x11DB 0x1000 0 0 0 0 ?file = (True, 1, 12)"
    using scan_devices_file [OF script_entries_wf, where v = "0x11DB" and p = "0x1000" and i = 0 and n = 0 and bus = 0 and dvc = 0]
    by (auto simp: is_product_def script_hub_def script_pvr_def split: prod.splits)
  have fo: "sys_call (px_fopen kernel ''/proc/bus/usb/devices'') s1
      = (Some (int (k_fresh (world s1)), ?file), s1\<lparr>world := k_new (world s1)\<rparr>)"
    by (simp add: sys_call_def kernel_simps s1(2))
  have "\<exists>fd s2. open_usb_dev kernel 0 0x11DB 0x1000 0 s1 = Some (Some fd, s2)"
    unfolding open_usb_dev_run [OF fo sc]
    by (simp add: Let_def sys_call_def kernel_simps take_over_def KERNEL_VERSION_def split: prod.split)
  then show ?thesis
    using s1(1) by (auto simp: topfield_open_def sys_call_def kernel_simps)
qed

text \<open>Closing gives back the descriptors of a handle that still has those of \<^verbatim>\<open>topfield_open\<close>.\<close>

lemma close_restores:
  assumes "fd_table os fds" and "flock_kernel os fds own" and "topfield_open os linux index lock s = Some (0, tf, s1)"
    and "fds (world s2) = fds (world s1)" and "dev tf2 = dev tf" and "lock_fd tf2 = lock_fd tf"
    and "topfield_close os linux tf2 s2 = (tf', s')"
  shows "fds (world s') = fds (world s) \<and> dev tf' = None \<and> buf tf' = None"
proof -
  obtain fd where fd: "dev tf = Some fd" "fd \<notin> fds (world s)"
    and f1: "if lock = TF_LOCK_NONE then lock_fd tf = -1 \<and> fds (world s1) = insert fd (fds (world s))
        else lock_fd tf \<notin> fds (world s) \<and> lock_fd tf \<noteq> fd \<and> fds (world s1) = insert fd (insert (lock_fd tf) (fds (world s)))"
    using topfield_open_result [OF assms(1-3)] by (auto split: if_splits)
  have "fds (world (close_usb_dev os linux fd s2)) = fds (world s2) - {fd}"
    using fd_table_calls(5) [OF assms(1)] by (simp add: close_usb_dev_def close_fd_fds [OF assms(1)] keeps_files_def)
  moreover have s': "tf' = tf2\<lparr>dev := None, buf := None\<rparr>" "s' = close_fd os (lock_fd tf) (close_usb_dev os linux fd s2)"
    using assms(5-7) fd(1) by (simp_all add: topfield_close_def)
  ultimately have "fds (world s') = fds (world s1) - {fd} - {lock_fd tf}"
    by (simp add: close_fd_fds [OF assms(1)] assms(4))
  also have "\<dots> = fds (world s)"
  proof (cases "lock = TF_LOCK_NONE")
    case True
    with f1 have "lock_fd tf = -1" "fds (world s1) = insert fd (fds (world s))" by simp_all
    moreover have "-1 \<notin> fds (world s)" using fd_table_opens(5) [OF assms(1), of "-1" "world s"] by auto
    ultimately show ?thesis using fd(2) by simp
  next
    case False
    with f1 have "lock_fd tf \<notin> fds (world s)" "fds (world s1) = insert fd (insert (lock_fd tf) (fds (world s)))" by simp_all
    then show ?thesis using fd(2) by auto
  qed
  finally have "fds (world s') = fds (world s)" .
  then show ?thesis by (simp add: s'(1))
qed

text \<open>Closing what was opened gives back every descriptor: after \<^verbatim>\<open>topfield_close\<close> the process has
  exactly the descriptors it had before \<^verbatim>\<open>topfield_open\<close>, for every kind of lock and kernel version,
  and the handle is closed.\<close>

theorem topfield_close_restores:
  assumes "fd_table os fds" and "flock_kernel os fds own" and "topfield_open os linux index lock s = Some (0, tf, s1)"
    and "topfield_close os linux tf s1 = (tf', s')"
  shows "fds (world s') = fds (world s) \<and> dev tf' = None \<and> buf tf' = None"
  by (rule close_restores [OF assms(1-3) refl refl refl assms(4)])

theorem topfield_close_restores_witness:
  "\<exists>tf s1. topfield_open kernel 0 0 TF_LOCK_STD (k_sys None [] (concat (map entry_text [script_hub, script_pvr]))) = Some (0, tf, s1)
    \<and> k_open_fds (world (snd (topfield_close kernel 0 tf s1))) = {0, 1, 2}"
proof -
  let ?s = "k_sys None [] (concat (map entry_text [script_hub, script_pvr]))"
  obtain tf s1 where run: "topfield_open kernel 0 0 TF_LOCK_STD ?s = Some (0, tf, s1)"
    using script_opens by blast
  obtain tf' s' where close: "topfield_close kernel 0 tf s1 = (tf', s')" by fastforce
  have "k_open_fds (world s') = k_open_fds (world ?s)"
    using topfield_close_restores [OF kernel_fd_table kernel_flock run close] by simp
  also have "\<dots> = {0, 1, 2}" by (auto simp: k_open_fds_def k_sys_def)
  finally show ?thesis using run close by force
qed

section \<open>Asking the holder to give way\<close>

text \<open>Calls that neither wait nor send signals keep \<open>v\<close>: the take-over and the opening of the device
  consist of such calls.\<close>

lemma open_usb_dev_keeps:
  assumes f: "keeps_files os v" and o: "keeps_opens os v" and run: "open_usb_dev os linux vd p i s = Some (res, s')"
  shows "v (world s') = v (world s)"
proof -
  obtain fh s1 where fo: "sys_call (px_fopen os ''/proc/bus/usb/devices'') s = (fh, s1)" by fastforce
  note v1 = keeps_opens_calls(2) [OF o fo]
  show ?thesis
  proof (cases fh)
    case None
    with fo run have "world s' = world s1" by (auto simp: open_usb_dev_def)
    with v1 show ?thesis by simp
  next
    case (Some st)
    obtain fhd content where st: "st = (fhd, content)" by fastforce
    obtain found bus device where sc: "scan_devices vd p i 0 0 0 content = (found, bus, device)" by (metis prod_cases3)
    obtain q s2 where fc: "sys_call (px_fclose os fhd) s1 = (q, s2)" by fastforce
    obtain fd s3 where op: "sys_call (px_open os (device_path bus device) O_RDWR 0) s2 = (fd, s3)" by fastforce
    have v3: "v (world s2) = v (world s)" "v (world s3) = v (world s)"
      using v1 keeps_opens_calls(4) [OF o fc] keeps_opens_calls(1) [OF o op] by simp_all
    have take: "v (world s') = v (world s3)" if "take_over os linux fd s3 = Some (res, s')"
    proof -
      have "res = None \<and> (\<exists>x. v (world x) = v (world s3) \<and> s' = close_fd os fd x) \<or> res = Some fd \<and> v (world s') = v (world s3)"
        using f by (intro take_over_keeps [OF _ _ that]) (simp_all add: keeps_files_def)
      then show ?thesis using close_fd_keeps [OF o] by metis
    qed
    consider "s' = s2" | "world s' = world s3" | "take_over os linux fd s3 = Some (res, s')"
      using run open_usb_dev_run [OF fo [unfolded Some st] sc, of linux] fc op by (auto split: if_splits)
    then show ?thesis by cases (use v3 take in auto)
  qed
qed

lemma read_pid_observation:
  assumes "keeps_files os v" and "keeps_opens os v" and "read_pid os path s = (pid, s')"
  shows "v (world s') = v (world s)"
proof -
  obtain fd s1 where op: "sys_call (px_open os path O_RDONLY 0) s = (fd, s1)" by fastforce
  obtain got s2 where rd: "sys_call (px_read os fd 9) s1 = (got, s2)" by fastforce
  have "s' = (if fd \<ge> 0 then close_fd os fd s2 else s1)"
    using assms(3) op rd by (auto simp: read_pid_def Let_def)
  then show ?thesis
    using keeps_opens_calls(1) [OF assms(2) op] keeps_files_calls(1) [OF assms(1) rd] close_fd_keeps [OF assms(2)] by simp
qed

text \<open>Documented behaviour of the calls on a file that no other process writes to meanwhile, over an
  observation \<open>text\<close> of its contents: opening it without truncation, locking and closing do not change
  it, and a descriptor just opened for reading reads from its start.\<close>

definition file_text :: "'w posix \<Rightarrow> string \<Rightarrow> ('w \<Rightarrow> string) \<Rightarrow> bool" where
  "file_text os path text \<longleftrightarrow>
     (\<forall>w. text (snd (px_open os path (O_RDWR OR O_CREAT) 384 w)) = text w) \<and>
     (\<forall>fd w. text (snd (px_flock os fd (LOCK_EX OR LOCK_NB) w)) = text w) \<and>
     (\<forall>fd w. text (snd (px_close os fd w)) = text w) \<and>
     (\<forall>w fd w' n. px_open os path O_RDONLY 0 w = (fd, w') \<longrightarrow> 0 \<le> fd \<longrightarrow>
        fst (px_read os fd n w') \<in> {None, Some (take n (text w))})"

lemma kernel_file_text: "file_text kernel path k_text"
  by (simp add: file_text_def kernel_simps k_new_def k_shut_def k_flock_def)

lemma c_atoi_Nil: "c_atoi [] = 0"
  by (simp add: c_atoi_def read_sign_def)

lemma read_pid_value:
  assumes "file_text os path text" and "read_pid os path s = (pid, s')"
  shows "pid = c_atoi (take 9 (text (world s))) \<or> pid = 0"
proof -
  obtain fd s1 where op: "sys_call (px_open os path O_RDONLY 0) s = (fd, s1)" by fastforce
  obtain got s2 where rd: "sys_call (px_read os fd 9) s1 = (got, s2)" by fastforce
  have "0 \<le> fd \<Longrightarrow> got \<in> {None, Some (take 9 (text (world s)))}"
    using assms(1) sys_call_world [OF op] sys_call_world [OF rd] unfolding file_text_def by (metis fst_conv)
  then show ?thesis
    using assms(2) op rd by (auto simp: read_pid_def Let_def split: if_splits)
qed

lemma file_text_attempt:
  assumes "file_text os path text" and "sys_call (px_open os path (O_RDWR OR O_CREAT) 384) s = (fd, s1)"
    and "(if fd \<ge> 0 then sys_call (px_flock os fd (LOCK_EX OR LOCK_NB)) s1 else (-1, s1)) = (r, s2)"
  shows "text (world (close_fd os fd s2)) = text (world s)"
proof -
  have "text (world s1) = text (world s)" using assms(1) sys_call_snd [OF assms(2)] by (simp add: file_text_def)
  moreover have "text (world s2) = text (world s1)"
  proof (cases "0 \<le> fd")
    case True
    with assms(3) have "sys_call (px_flock os fd (LOCK_EX OR LOCK_NB)) s1 = (r, s2)" by simp
    from sys_call_snd [OF this] assms(1) show ?thesis by (simp add: file_text_def)
  qed (use assms(3) in simp)
  ultimately show ?thesis using assms(1) by (simp add: file_text_def close_fd_def)
qed

lemma lock_attempt_keeps:
  assumes "keeps_files os v" "keeps_opens os v" "sys_call (px_open os path f m) s = (fd, s1)"
    and "(if fd \<ge> 0 then sys_call (px_flock os fd (LOCK_EX OR LOCK_NB)) s1 else (-1, s1)) = (r, s2)"
  shows "v (world s2) = v (world s)"
  using keeps_opens_calls(1) [OF assms(2,3)] keeps_files_calls(4) [OF assms(1), of fd "LOCK_EX OR LOCK_NB" s1 r s2] assms(4)
  by (simp split: if_splits)

lemma kill_logged:
  assumes "logs_signals os sent" and "counts_naps os naps" and "sys_call (px_kill os pid SIGHUP) s4 = (k, s5)"
    and "sent (world s4) = sent (world s)" and "naps (world s4) = naps (world s)"
  shows "sent (world s5) = sent (world s) @ [(pid, SIGHUP)]" "naps (world s5) = naps (world s)"
  using sys_call_snd [OF assms(3)] assms(1,2,4,5) by (simp_all add: logs_signals_def counts_naps_def)

lemma lock_loop_signals:
  assumes g: "logs_signals os sent" and w: "counts_naps os naps" and t: "file_text os (lock_filename index) text"
  shows "lock_loop os index lock s = Some (ok, lfd, s') \<Longrightarrow>
    \<exists>l. sent (world s') = sent (world s) @ l \<and> naps (world s') \<le> naps (world s) + 2 * length l
      \<and> (l = [] \<or> lock = TF_LOCK_HUP \<and> 0 < c_atoi (take 9 (text (world s))) \<and> l = [(c_atoi (take 9 (text (world s))), SIGHUP)])"
proof (induction "if lock = TF_LOCK_HUP then 1 else 0 :: nat" arbitrary: lock s rule: less_induct)
  case less
  have gf: "keeps_files os sent" "keeps_opens os sent" and wf: "keeps_files os naps" "keeps_opens os naps"
    using g w by (simp_all add: logs_signals_def counts_naps_def)
  note attempt = lock_attempt_keeps
  from less.prems show ?case
  proof (cases rule: lock_loop_cases)
    case (locked fd s1 s2 n)
    have "(if fd \<ge> 0 then sys_call (px_flock os fd (LOCK_EX OR LOCK_NB)) s1 else (-1, s1)) = (0, s2)" using locked(3,5) by simp
    then have "sent (world s2) = sent (world s)" "naps (world s2) = naps (world s)"
      using attempt [OF gf locked(4)] attempt [OF wf locked(4)] by blast+
    then show ?thesis
      using keeps_files_calls(2) [OF gf(1) locked(6)] keeps_files_calls(2) [OF wf(1) locked(6)] by (intro exI [of _ "[]"]) simp
  next
    case (busy fd s1 r s2 x)
    then show ?thesis
      using attempt [OF gf busy(1,2)] attempt [OF wf busy(1,2)] close_fd_keeps [OF gf(2)] close_fd_keeps [OF wf(2)]
      by (intro exI [of _ "[]"]) simp
  next
    case (asked fd s1 r s2 x pid s4)
    have s4: "sent (world s4) = sent (world s)" "naps (world s4) = naps (world s)"
      using read_pid_observation [OF gf asked(6)] read_pid_observation [OF wf asked(6)] asked(4)
        attempt [OF gf asked(1,2)] attempt [OF wf asked(1,2)] close_fd_keeps [OF gf(2)] close_fd_keeps [OF wf(2)] by simp_all
    let ?p = "c_atoi (take 9 (text (world s)))"
    have pid: "0 < pid \<Longrightarrow> pid = ?p"
      using read_pid_value [OF t asked(6)] file_text_attempt [OF t asked(1,2)] asked(4) by auto
    note kill = kill_logged [OF g w _ s4]
    from asked(7) show ?thesis
    proof (elim disjE conjE exE)
      assume "s' = s4"
      with s4 show ?thesis by simp
    next
      fix k s5 assume "0 < pid" "sys_call (px_kill os pid SIGHUP) s4 = (k, s5)" "s' = s5"
      with kill pid asked(5) show ?thesis by (intro exI [of _ "[(?p, SIGHUP)]"]) auto
    next
      fix k s5 assume pos: "0 < pid" and kl: "sys_call (px_kill os pid SIGHUP) s4 = (k, s5)"
        and again: "lock_loop os index TF_LOCK_STD (px_nap os 2 s5) = Some (ok, lfd, s')"
      obtain l where "sent (world s') = sent (world (px_nap os 2 s5)) @ l"
          "naps (world s') \<le> naps (world (px_nap os 2 s5)) + 2 * length l" "l = []"
        using less.hyps [OF _ again] asked(5) by auto
      moreover have "sent (world (px_nap os 2 s5)) = sent (world s) @ [(?p, SIGHUP)]" "naps (world (px_nap os 2 s5)) = naps (world s) + 2"
        using kill [OF kl] pid [OF pos] g w by (simp_all add: logs_signals_def counts_naps_def)
      ultimately show ?thesis using asked(5) pos pid [OF pos] by (intro exI [of _ "[(?p, SIGHUP)]"]) simp
    qed
  qed
qed

text \<open>C29. Asking for the device is bounded and goes to the right process: \<^verbatim>\<open>topfield_open\<close> sends at most
  one signal, only with \<^verbatim>\<open>TF_LOCK_HUP\<close>, and it is a \<^verbatim>\<open>SIGHUP\<close> to the positive number that the first nine
  characters of the lock file give; a lock file without such a number makes it send nothing. It waits
  at most two seconds, after the signal. No other process writes to the lock file meanwhile.\<close>

theorem topfield_open_one_signal:
  assumes "logs_signals os sent" and "counts_naps os naps" and "file_text os (lock_filename index) text"
    and "topfield_open os linux index lock s = Some (ret, tf, s')" and "p = c_atoi (take 9 (text (world s)))"
  shows "\<exists>l. sent (world s') = sent (world s) @ l \<and> naps (world s') \<le> naps (world s) + 2 * length l
    \<and> (l = [] \<or> lock = TF_LOCK_HUP \<and> 0 < p \<and> l = [(p, SIGHUP)])"
proof -
  have gf: "keeps_files os sent" "keeps_opens os sent" and wf: "keeps_files os naps" "keeps_opens os naps"
    using assms(1,2) by (simp_all add: logs_signals_def counts_naps_def)
  have lock: "\<exists>l. sent (world s1) = sent (world s) @ l \<and> naps (world s1) \<le> naps (world s) + 2 * length l
      \<and> (l = [] \<or> lock = TF_LOCK_HUP \<and> 0 < p \<and> l = [(p, SIGHUP)])"
    if "(if lock \<noteq> TF_LOCK_NONE then lock_loop os index lock s else Some (True, -1, s)) = Some (ok, lfd, s1)" for ok lfd s1
    using that lock_loop_signals [OF assms(1-3)] unfolding assms(5) by (cases "lock = TF_LOCK_NONE") auto
  from assms(4) show ?thesis
  proof (cases rule: topfield_open_cases)
    case (locked_out lfd)
    then show ?thesis using lock [of False lfd s'] by simp
  next
    case (no_device lfd s1 s2)
    then show ?thesis
      using lock [OF no_device(1)] open_usb_dev_keeps [OF gf no_device(2)] open_usb_dev_keeps [OF wf no_device(2)]
        close_fd_keeps [OF gf(2)] close_fd_keeps [OF wf(2)] by simp
  next
    case (opened lfd s1 fd s2 b)
    then show ?thesis
      using lock [OF opened(1)] open_usb_dev_keeps [OF gf opened(2)] open_usb_dev_keeps [OF wf opened(2)]
        keeps_files_calls(8) [OF gf(1) opened(3)] keeps_files_calls(8) [OF wf(1) opened(3)] by simp
  qed
qed

lemma script_asks:
  "\<exists>ret tf s'. topfield_open kernel 0 0 TF_LOCK_HUP (k_sys (Some 4711) (pid_line 4711) []) = Some (ret, tf, s')"
proof -
  have own: "length (pid_line 77) = 3" by (simp add: pid_line_def fmt_int_def radix_digits.simps newline_def)
  have "\<exists>r. lock_loop kernel 0 TF_LOCK_STD s = Some r" for s
    by (subst lock_loop.simps) (auto simp: kernel_simps own sys_call_def Let_def split: prod.split)
  then have "\<exists>r. lock_loop kernel 0 TF_LOCK_HUP s = Some r" for s
    by (subst lock_loop.simps) (auto simp: kernel_simps own sys_call_def Let_def split: prod.split)
  then obtain ok lfd s1 where lk: "lock_loop kernel 0 TF_LOCK_HUP (k_sys (Some 4711) (pid_line 4711) []) = Some (ok, lfd, s1)"
    by (metis prod_cases3)
  have "\<exists>r. take_over kernel 0 fd s = Some r" for fd s
    by (simp add: take_over_def Let_def sys_call_def kernel_simps split: prod.split)
  then have "\<exists>d s2. open_usb_dev kernel 0 TOPFIELD_VENDOR_ID TOPFIELD_5000PVRT_ID 0 s1 = Some (d, s2)"
    by (simp add: open_usb_dev_def Let_def split: prod.split option.split)
  with lk show ?thesis
    by (cases ok) (auto simp: topfield_open_def Let_def sys_call_def kernel_simps split: option.split)
qed

theorem topfield_open_one_signal_witness:
  "\<exists>ret tf s' l. topfield_open kernel 0 0 TF_LOCK_HUP (k_sys (Some 4711) (pid_line 4711) []) = Some (ret, tf, s')
    \<and> k_sent (world s') = l \<and> k_naps (world s') \<le> 2 * length l \<and> (l = [] \<or> l = [(4711, SIGHUP)])"
proof -
  have p: "4711 = c_atoi (take 9 (k_text (world (k_sys (Some 4711) (pid_line 4711) []))))"
    using pids.parse_first [of 4711 "[]"] by (simp add: k_sys_def)
  obtain ret tf s' where run: "topfield_open kernel 0 0 TF_LOCK_HUP (k_sys (Some 4711) (pid_line 4711) []) = Some (ret, tf, s')"
    using script_asks by blast
  from topfield_open_one_signal [OF kernel_signals kernel_naps kernel_file_text run p] run show ?thesis
    by (fastforce simp: k_sys_def)
qed

end
