(* ===== verification/Tf_Session.thy ===== *)
theory Tf_Session
  imports Tf_Transfer Tf_Open
begin

text \<open>
  Whole sessions: the calls of the library on one handle, in any order, as a labelled step
  relation, and what holds of the handle and of the system after every sequence of calls between
  \<^verbatim>\<open>topfield_open\<close> and \<^verbatim>\<open>topfield_close\<close>.
\<close>

section \<open>The system calls of a session\<close>

text \<open>The calls that change the world: transfers to endpoint 1 and from endpoint 0x82 of one device,
  and waiting. A handle without a device makes no transfers.\<close>

inductive device_io :: "'w os \<Rightarrow> int option \<Rightarrow> 'w \<Rightarrow> 'w \<Rightarrow> bool" for os d w where
  io_refl: "device_io os d w w"
| io_out: "device_io os d w (snd (os_bulk_out os fd 0x01 bytes t w'))" if "device_io os d w w'" and "d = Some fd"
| io_in: "device_io os d w (snd (os_bulk_in os fd 0x82 n t w'))" if "device_io os d w w'" and "d = Some fd"
| io_nap: "device_io os d w (os_sleep os n w')" if "device_io os d w w'"

lemma device_io_trans: "device_io os d w w' \<Longrightarrow> device_io os d w0 w \<Longrightarrow> device_io os d w0 w'"
  by (induction rule: device_io.induct) (auto intro: device_io.intros)

lemma device_io_invariant:
  assumes "device_io os (Some fd) w w'" and "P w"
    and "\<And>bytes t w. P w \<Longrightarrow> P (snd (os_bulk_out os fd 0x01 bytes t w))"
    and "\<And>n t w. P w \<Longrightarrow> P (snd (os_bulk_in os fd 0x82 n t w))" and "\<And>n w. P w \<Longrightarrow> P (os_sleep os n w)"
  shows "P w'"
  using assms by (induction rule: device_io.induct) auto

lemma ioctl_world:
  "snd (ioctl_bulk_out os fd ep bytes t w) = snd (os_bulk_out os fd ep bytes t w)"
  "snd (snd (ioctl_bulk_in os fd ep n t w)) = snd (os_bulk_in os fd ep n t w)"
  by (auto simp: ioctl_bulk_out_def ioctl_bulk_in_def split: prod.splits option.splits)

lemma bulk_write_loop_io:
  "device_io os (Some fd) w0 w \<Longrightarrow> device_io os (Some fd) w0 (snd (bulk_write_loop os fd 0x01 bytes sent t w))"
proof (induction os fd "0x01 :: u32" bytes sent t w rule: bulk_write_loop.induct)
  case (1 os fd bytes sent t w)
  obtain ret w' where io: "ioctl_bulk_out os fd 0x01 (take (min (length bytes - sent) MAX_WRITE) (drop sent bytes)) t w = (ret, w')"
    by fastforce
  with ioctl_world(1) [of os fd "0x01" "take (min (length bytes - sent) MAX_WRITE) (drop sent bytes)" t w] 1(2)
  have "device_io os (Some fd) w0 w'" by (auto intro: io_out)
  with 1(1) io show ?case
    by (subst bulk_write_loop.simps) (auto simp: Let_def split: prod.splits)
qed

lemma bulk_read_loop_io:
  "device_io os (Some fd) w0 w \<Longrightarrow> device_io os (Some fd) w0 (snd (snd (bulk_read_loop os fd 0x82 m k sz t w)))"
proof (induction os fd "0x82 :: u32" m k sz t w rule: bulk_read_loop.induct)
  case (1 os fd m k sz t w)
  obtain ret data w' where io: "ioctl_bulk_in os fd 0x82 (min (sz - k) MAX_READ) t w = (ret, data, w')"
    using prod_cases3 by blast
  with ioctl_world(2) [of os fd "0x82" "min (sz - k) MAX_READ" t w] 1(2)
  have "device_io os (Some fd) w0 w'" by (auto intro: io_in)
  with 1(1) io show ?case
    by (subst bulk_read_loop.simps) (auto simp: Let_def split: prod.splits)
qed

lemma bulk_io:
  "device_io os (Some fd) (world s) (world (snd (usb_bulk_write os fd 0x01 bytes t s)))"
  "device_io os (Some fd) (world s) (world (snd (snd (usb_bulk_read os fd 0x82 m n t s))))"
  using bulk_write_loop_io [OF io_refl, of os fd "world s" bytes 0 t]
    bulk_read_loop_io [OF io_refl, of os fd "world s" "memset m 0 n" 0 n t]
  by (auto simp: usb_bulk_write_def usb_bulk_read_def Let_def fprint_def split: prod.splits)

section \<open>Calls that leave the transfer state alone\<close>

text \<open>Between two points of a run only the error of the handle changes and only the device is used.\<close>

definition quiet :: "'w os \<Rightarrow> tf_handle \<Rightarrow> 'w sys \<Rightarrow> tf_handle \<Rightarrow> 'w sys \<Rightarrow> bool" where
  "quiet os tf s tf' s' \<longleftrightarrow> tf' = tf\<lparr>error := error tf'\<rparr> \<and> device_io os (dev tf) (world s) (world s')"

lemma quiet_refl [simp, intro]: "quiet os tf s tf s"
  by (simp add: quiet_def io_refl)

lemma quiet_trans: "quiet os tf1 s1 tf2 s2 \<Longrightarrow> quiet os tf s tf1 s1 \<Longrightarrow> quiet os tf s tf2 s2"
  by (metis (no_types, lifting) device_io_trans quiet_def tf_handle.select_convs(7) tf_handle.surjective tf_handle.update_convs(5))

named_theorems quiet_steps \<open>one call of a run that leaves the transfer state alone\<close>
named_theorems quiet_moves \<open>waiting and printing between two calls\<close>

lemma fprint_same [simp]: "world (fprint fh text s) = world s"
  by (simp add: fprint_def)

lemma quiet_world: "world s2 = world s1 \<Longrightarrow> quiet os tf s tf1 s1 \<Longrightarrow> quiet os tf s tf1 s2"
  by (simp add: quiet_def)

lemma quiet_sleep [quiet_moves]: "quiet os tf s tf1 s1 \<Longrightarrow> quiet os tf s tf1 (sleep os n s1)"
  by (auto simp: quiet_def sleep_def intro: io_nap)

lemma quiet_fprint [quiet_moves]: "quiet os tf s tf1 s1 \<Longrightarrow> quiet os tf s tf1 (fprint fh text s1)"
  by (erule quiet_world [rotated]) simp

lemma send_quiet [quiet_steps]:
  assumes "tf_send os tf1 req s1 = (ret, tf2, s2)"
  shows "quiet os tf s tf1 s1 \<Longrightarrow> quiet os tf s tf2 s2"
proof (erule quiet_trans [rotated])
  show "quiet os tf1 s1 tf2 s2"
  proof (cases "dev tf1")
    case None
    with assms show ?thesis by (auto simp: tf_send_def quiet_def intro: io_refl)
  next
    case (Some fd)
    with assms bulk_io(1) [of os fd s1 "bytes_at req 0 (send_length req)" "timeout tf1"] show ?thesis
      by (auto simp: tf_send_def quiet_def Let_def split: prod.splits)
  qed
qed

lemma response_world:
  assumes "tf_get_response os tf reply s = Some (ret, m, tf', s')" and "dev tf = Some fd"
  shows "world s' = world (snd (snd (usb_bulk_read os fd 0x82 reply sizeof_packet (timeout tf) s)))"
proof -
  obtain n m1 s1 where read: "usb_bulk_read os fd 0x82 reply sizeof_packet (timeout tf) s = (n, m1, s1)"
    by (metis prod_cases3)
  with assms(1) show ?thesis by (auto simp: get_response_eq [OF assms(2) read] Let_def split: if_splits)
qed

lemma response_quiet [quiet_steps]:
  assumes "tf_get_response os tf1 reply s1 = Some (ret, m, tf2, s2)"
  shows "quiet os tf s tf1 s1 \<Longrightarrow> quiet os tf s tf2 s2"
proof (erule quiet_trans [rotated])
  show "quiet os tf1 s1 tf2 s2"
  proof (cases "dev tf1")
    case None
    with assms show ?thesis by (auto simp: tf_get_response_def quiet_def intro: io_refl)
  next
    case (Some fd)
    with response_world [OF assms Some] bulk_io(2) [of os fd s1 reply sizeof_packet "timeout tf1"]
      get_response_error [OF assms] show ?thesis
      by (simp add: quiet_def)
  qed
qed

lemma req_done_quiet [quiet_steps]:
  "tf_req_done os tf' req s1 = Some (req', s2) \<Longrightarrow> quiet os tf s tf1 s1 \<Longrightarrow> quiet os tf s tf1 s2"
  by (rule quiet_world) (auto simp: req_done_eq Let_def print_packet_world split: if_splits)

lemma quiet_error: "quiet os tf s tf1 s1 \<Longrightarrow> quiet os tf s (tf1\<lparr>error := e\<rparr>) s1"
  by (erule quiet_trans [rotated]) (simp add: quiet_def io_refl)

lemma cmd_quiet [quiet_steps]:
  assumes "tf_cmd os tf1 req s1 = Some (ret, tf2, s2)" and "quiet os tf s tf1 s1"
  shows "quiet os tf s tf2 s2"
proof -
  obtain r tf3 s3 where snd: "tf_send os tf1 req s1 = (r, tf3, s3)" using prod_cases3 by blast
  note q3 = send_quiet [OF snd assms(2)]
  show ?thesis
  proof (cases "r = 0")
    case False
    with assms(1) snd q3 show ?thesis by (simp add: tf_cmd_def)
  next
    case True
    with assms(1) snd obtain r4 m tf4 s4 where
      "tf_get_response os tf3 (os_junk os ''reply'' (world s3)) s3 = Some (r4, m, tf4, s4)"
      by (auto simp: tf_cmd_def Option.bind_eq_Some_conv)
    from response_quiet [OF this q3] this True assms(1) snd show ?thesis
      by (auto simp: tf_cmd_def Let_def intro: quiet_error split: if_splits)
  qed
qed

lemmas run_splits = prod.split_asm if_split_asm option.split_asm Option.bind_split_asm

lemma command_quiet [quiet_steps]:
  "tf_send_success os tf1 s1 = Some (ret, tf2, s2) \<Longrightarrow> quiet os tf s tf1 s1 \<Longrightarrow> quiet os tf s tf2 s2"
  "tf_send_fail os tf1 reason s1 = Some (ret, tf2, s2) \<Longrightarrow> quiet os tf s tf1 s1 \<Longrightarrow> quiet os tf s tf2 s2"
  "tf_cmd_cancel os tf1 s1 = Some (ret, tf2, s2) \<Longrightarrow> quiet os tf s tf1 s1 \<Longrightarrow> quiet os tf s tf2 s2"
  "tf_cmd_ready os tf1 s1 = Some (ret, tf2, s2) \<Longrightarrow> quiet os tf s tf1 s1 \<Longrightarrow> quiet os tf s tf2 s2"
  "tf_cmd_reset os tf1 s1 = Some (ret, tf2, s2) \<Longrightarrow> quiet os tf s tf1 s1 \<Longrightarrow> quiet os tf s tf2 s2"
  "tf_cmd_turbo os tf1 on s1 = Some (ret, tf2, s2) \<Longrightarrow> quiet os tf s tf1 s1 \<Longrightarrow> quiet os tf s tf2 s2"
  "tf_cmd_delete os tf1 path s1 = Some (ret, tf2, s2) \<Longrightarrow> quiet os tf s tf1 s1 \<Longrightarrow> quiet os tf s tf2 s2"
  "tf_cmd_mkdir os tf1 path s1 = Some (ret, tf2, s2) \<Longrightarrow> quiet os tf s tf1 s1 \<Longrightarrow> quiet os tf s tf2 s2"
  "tf_cmd_rename os tf1 path dest s1 = Some (ret, tf2, s2) \<Longrightarrow> quiet os tf s tf1 s1 \<Longrightarrow> quiet os tf s tf2 s2"
  "get_dirents os tf1 result s1 = Some (ret, result', tf2, s2) \<Longrightarrow> quiet os tf s tf1 s1 \<Longrightarrow> quiet os tf s tf2 s2"
  unfolding tf_send_success_def tf_send_fail_def tf_cmd_cancel_def tf_cmd_ready_def tf_cmd_reset_def tf_cmd_turbo_def
    tf_cmd_delete_def tf_cmd_mkdir_def tf_cmd_rename_def get_dirents_def Let_def
  by (auto split: run_splits) (erule quiet_steps | rule quiet_moves | assumption)+

lemma exchange_quiet [quiet_steps]:
  "tf_cmd_size os tf1 r s1 = Some (ret, r', tf2, s2) \<Longrightarrow> quiet os tf s tf1 s1 \<Longrightarrow> quiet os tf s tf2 s2"
  "tf_init os tf1 s1 = Some (ret, tf2, s2) \<Longrightarrow> quiet os tf s tf1 s1 \<Longrightarrow> quiet os tf s tf2 s2"
  "tf_cmd_dir_first os tf1 path result s1 = Some (ret, result', tf2, s2) \<Longrightarrow> quiet os tf s tf1 s1 \<Longrightarrow> quiet os tf s tf2 s2"
  "tf_cmd_dir_next os tf1 result s1 = Some (ret, result', tf2, s2) \<Longrightarrow> quiet os tf s tf1 s1 \<Longrightarrow> quiet os tf s tf2 s2"
  "tf_cmd_dir_cancel os tf1 s1 = Some (ret, tf2, s2) \<Longrightarrow> quiet os tf s tf1 s1 \<Longrightarrow> quiet os tf s tf2 s2"
  "tf_cmd_put os tf1 path sz stamp offset s1 = Some (ret, tf2, s2) \<Longrightarrow> quiet os tf s tf1 s1 \<Longrightarrow> quiet os tf s tf2 s2"
  "tf_cmd_put_done os tf1 s1 = Some (ret, tf2, s2) \<Longrightarrow> quiet os tf s tf1 s1 \<Longrightarrow> quiet os tf s tf2 s2"
  "tf_cmd_put_cancel os tf1 s1 = Some (ret, tf2, s2) \<Longrightarrow> quiet os tf s tf1 s1 \<Longrightarrow> quiet os tf s tf2 s2"
  "tf_cmd_get os tf1 path offset d s1 = Some (ret, d', tf2, s2) \<Longrightarrow> quiet os tf s tf1 s1 \<Longrightarrow> quiet os tf s tf2 s2"
  unfolding tf_cmd_size_def tf_init_def tf_cmd_dir_first_def tf_cmd_dir_next_def tf_cmd_dir_cancel_def tf_cmd_put_def
    tf_cmd_put_done_def tf_cmd_put_cancel_def tf_cmd_get_def Let_def
  by (auto split: run_splits) (erule quiet_steps | rule quiet_moves | assumption)+

lemma stat_loop_quiet [quiet_steps]:
  assumes "stat_loop os tf1 path entries d s1 = Some (ret, d', tf2, s2)" and "quiet os tf s tf1 s1"
  shows "quiet os tf s tf2 s2"
proof -
  let ?P = "\<lambda>os tf1 path entries d s1 r. case r of (ret, d', tf2, s2) \<Rightarrow> quiet os tf1 s1 tf2 s2"
  have "?P os tf1 path entries d s1 (ret, d', tf2, s2)"
  proof (rule stat_loop.raw_induct [where P = ?P, OF _ assms(1)])
    fix stat_loop os tf1 path entries d s1 r
    assume 1: "\<And>os tf path entries d s r. stat_loop os tf path entries d s = Some r \<Longrightarrow> ?P os tf path entries d s r"
      "(case find_entry entries path 0 of
        Some d \<Rightarrow> Option.bind (tf_cmd_dir_cancel os tf1 s1) (\<lambda>(_, tf, s). Some (0, d, tf, s))
      | None \<Rightarrow> Option.bind (tf_cmd_dir_next os tf1 entries s1) (\<lambda>(ret, entries, tf, s).
          if ret = 0 then stat_loop os tf path entries d s else Some (1, d, tf, s))) = Some r"
    obtain ret d' tf2 s2 where [simp]: "r = (ret, d', tf2, s2)" using prod_cases4 by blast
    show "?P os tf1 path entries d s1 r"
    proof (cases "find_entry entries path 0")
      case (Some e)
      with 1(2) show ?thesis by (auto split: run_splits intro: exchange_quiet(5))
    next
      case None
      with 1(2) obtain r1 e1 tf3 s3 where next_page: "tf_cmd_dir_next os tf1 entries s1 = Some (r1, e1, tf3, s3)"
        and rest: "(if r1 = 0 then stat_loop os tf3 path e1 d s3 else Some (1, d, tf3, s3)) = Some r"
        by (auto split: run_splits)
      note q = exchange_quiet(4) [OF next_page quiet_refl]
      show ?thesis
      proof (cases "r1 = 0")
        case True
        with rest have "stat_loop os tf3 path e1 d s3 = Some r" by simp
        from 1(1) [OF this] q show ?thesis by (auto intro: quiet_trans)
      next
        case False
        with rest q show ?thesis by simp
      qed
    qed
  qed
  with quiet_trans [OF _ assms(2)] show ?thesis by simp
qed

lemma stat_quiet [quiet_steps]:
  "tf_stat os tf1 path entries d s1 = Some (ret, d', tf2, s2) \<Longrightarrow> quiet os tf s tf1 s1 \<Longrightarrow> quiet os tf s tf2 s2"
  unfolding tf_stat_def Let_def
  by (auto split: run_splits) (erule quiet_steps | rule quiet_moves | assumption)+

lemma quiet_timeout:
  "quiet os (tf\<lparr>timeout := t\<rparr>) s tf1 s1 \<Longrightarrow> quiet os tf s (tf1\<lparr>timeout := timeout tf\<rparr>) s1"
  by (cases tf, cases tf1) (simp add: quiet_def)

lemma put_data_quiet:
  assumes "tf_cmd_put_data os tf offset buffer s = Some (ret, tf', s')"
  shows "quiet os tf s tf' s'"
proof -
  let ?t = "timeout tf"
  obtain req1 req2 req s1 where "tf_req_done os tf req2 s = Some (req, s1)"
    and rest: "(let (ret, tf, s) = tf_send os tf req s1 in
       (if ret = 0 then do {
        let t = timeout tf;
        let tf = tf\<lparr>timeout := t * 2\<rparr>;
        (ret, reply, tf, s) \<leftarrow> tf_get_response os tf (os_junk os ''reply'' (world s)) s;
        let tf = tf\<lparr>timeout := t\<rparr>;
        Some (if ret = 0 \<and> reply_cmd reply \<noteq> TF_MSG_SUCCESS then TF_ERR_UNEXPECTED else ret, tf, s)
      }
      else Some (ret, tf, s))) = Some (ret, tf', s')"
    using assms by (auto simp: tf_cmd_put_data_def Let_def Option.bind_eq_Some_conv)
  from this(1) have q1: "quiet os tf s tf s1" by (rule quiet_steps) simp
  obtain r2 tf2 s2 where send: "tf_send os tf req s1 = (r2, tf2, s2)" using prod_cases3 by blast
  note q2 = send_quiet [OF send q1]
  show ?thesis
  proof (cases "r2 = 0")
    case False
    with rest send q2 show ?thesis by simp
  next
    case True
    with rest send obtain r3 m tf3 s3 where
        reply: "tf_get_response os (tf2\<lparr>timeout := timeout tf2 * 2\<rparr>) (os_junk os ''reply'' (world s2)) s2 = Some (r3, m, tf3, s3)"
      and [simp]: "tf' = tf3\<lparr>timeout := timeout tf2\<rparr>" "s' = s3"
      by (auto simp: Let_def Option.bind_eq_Some_conv)
    from response_quiet [OF reply quiet_refl] have "quiet os tf2 s2 tf' s'" by (auto dest: quiet_timeout)
    from quiet_trans [OF this q2] show ?thesis .
  qed
qed

section \<open>The two calls that change the transfer state\<close>

text \<open>\<^verbatim>\<open>tf_cmd_get_next\<close> and \<^verbatim>\<open>tf_cmd_get_cancel\<close> keep the session and use the same device.\<close>

definition steady :: "'w os \<Rightarrow> tf_handle \<Rightarrow> 'w sys \<Rightarrow> tf_handle \<Rightarrow> 'w sys \<Rightarrow> bool" where
  "steady os tf s tf' s' \<longleftrightarrow> same_session tf tf' \<and> device_io os (dev tf) (world s) (world s')"

lemma steady_refl [simp, intro]: "steady os tf s tf s"
  by (simp add: steady_def io_refl)

lemma steady_trans: "steady os tf1 s1 tf2 s2 \<Longrightarrow> steady os tf s tf1 s1 \<Longrightarrow> steady os tf s tf2 s2"
  unfolding steady_def by (metis device_io_trans same_session_def same_session_trans)

lemma quiet_steady: "quiet os tf s tf' s' \<Longrightarrow> steady os tf s tf' s' \<and> pending tf' = pending tf"
  unfolding quiet_def steady_def
  by (metis same_session_updates(1) tf_handle.select_convs(8) tf_handle.surjective tf_handle.update_convs(5))

lemma steady_updates [simp]:
  "steady os tf s (tf1\<lparr>pending := p\<rparr>) s1 \<longleftrightarrow> steady os tf s tf1 s1"
  "steady os tf s (tf1\<lparr>error := e\<rparr>) s1 \<longleftrightarrow> steady os tf s tf1 s1"
  by (simp_all add: steady_def same_session_def)

lemma buf_response_steady:
  assumes "buf_response os tf s = Some (ret, m, tf', s')"
  shows "steady os tf s tf' s' \<and> pending tf' = pending tf"
proof (cases "buf tf")
  case None
  with assms have "tf_get_response os tf (\<lambda>i. 0) s = Some (ret, m, tf', s')"
    by (simp add: buf_response_def split: if_splits)
  from quiet_steady [OF response_quiet [OF this quiet_refl]] show ?thesis .
next
  case (Some reply)
  with assms obtain tf1 where g: "tf_get_response os tf reply s = Some (ret, m, tf1, s')" and "tf' = tf1\<lparr>buf := Some m\<rparr>"
    by (auto simp: buf_response_def Option.bind_eq_Some_conv)
  with quiet_steady [OF response_quiet [OF g quiet_refl]] get_response_error [OF g] Some show ?thesis
    by (simp add: steady_def same_session_def)
qed

lemma handle_next_steady:
  assumes "handle_next os reply b tf s = Some (ret, b', tf', s')" and "pending tf = 0"
  shows "steady os tf s tf' s' \<and> (pending tf' = 0 \<or> pending tf' = 1 \<and> ret = 0)"
proof (cases "reply_cmd reply \<in> {TF_MSG_HDD_FILE_END, TF_MSG_HDD_FILE_DATA}")
  case True
  with assms(1) obtain r tf1 s1 where ack: "tf_send_success os tf s = Some (r, tf1, s1)"
    by (auto simp: handle_next_def Option.bind_eq_Some_conv)
  from quiet_steady [OF command_quiet(1) [OF ack quiet_refl]] assms ack True show ?thesis
    by (auto simp: handle_next_def Let_def split: if_splits)
next
  case False
  with assms show ?thesis by (auto simp: handle_next_def split: if_splits)
qed

lemma get_next_steady:
  assumes "tf_cmd_get_next os tf b s = Some (ret, b', tf', s')"
  shows "steady os tf s tf' s' \<and> (pending tf' = 0 \<or> pending tf' = 1 \<and> ret = 0) \<and> error tf' = ret"
proof -
  obtain r tf1 s1 where first: "(if pending tf = 0 then tf_send_success os tf s else Some (0, tf, s)) = Some (r, tf1, s1)"
    using assms by (auto simp: tf_cmd_get_next_def Option.bind_eq_Some_conv)
  then have q1: "quiet os tf s tf1 s1" by (auto split: if_splits intro: command_quiet(1))
  let ?tf1 = "tf1\<lparr>pending := 0\<rparr>"
  have st1: "steady os tf s ?tf1 s1" using quiet_steady [OF q1] by simp
  show ?thesis
  proof (cases "r = 0")
    case False
    with assms first st1 show ?thesis by (auto simp: tf_cmd_get_next_def)
  next
    case True
    with assms first obtain r2 m tf2 s2 where resp: "buf_response os ?tf1 s1 = Some (r2, m, tf2, s2)"
      by (auto simp: tf_cmd_get_next_def Option.bind_eq_Some_conv split: if_splits)
    from buf_response_steady [OF this] have p2: "pending tf2 = 0" and "steady os ?tf1 s1 tf2 s2" by simp_all
    from steady_trans [OF this(2) st1] have st2: "steady os tf s tf2 s2" .
    show ?thesis
    proof (cases "r2 = 0")
      case False
      with assms first True resp st2 p2 show ?thesis by (auto simp: tf_cmd_get_next_def)
    next
      case r2: True
      with assms first True resp obtain tf3 where h: "handle_next os m b tf2 s2 = Some (ret, b', tf3, s')"
        and [simp]: "tf' = tf3\<lparr>error := ret\<rparr>"
        by (auto simp: tf_cmd_get_next_def Option.bind_eq_Some_conv)
      from handle_next_steady [OF h p2] steady_trans [OF _ st2] show ?thesis by auto
    qed
  qed
qed

lemma get_cancel_loop_quiet:
  "get_cancel_loop os n ret tf1 s1 = Some (ret', tf2, s2) \<Longrightarrow> quiet os tf s tf1 s1 \<Longrightarrow> quiet os tf s tf2 s2"
proof (induction n arbitrary: ret tf1 s1)
  case (Suc n)
  from Suc.prems show ?case
    by (auto simp: Let_def split: run_splits)
      (erule quiet_steps Suc.IH | rule quiet_moves | assumption)+
qed simp

lemma get_cancel_steady:
  assumes "tf_cmd_get_cancel os tf s = Some (ret, tf', s')"
  shows "steady os tf s tf' s' \<and> pending tf' = 0 \<and> error tf' = ret"
proof -
  obtain tf1 s1 where l: "get_cancel_loop os 5 0 tf1 s1 = Some (ret, tf', s')" and st: "steady os tf s tf1 s1"
    and p: "pending tf1 = 0"
  proof (cases "pending tf = 0")
    case True
    with assms that [of tf s] show ?thesis by (simp add: tf_cmd_get_cancel_def)
  next
    case False
    with assms obtain r m tf1 s1 where
        g: "tf_get_response os (tf\<lparr>pending := 0\<rparr>) (os_junk os ''reply'' (world s)) s = Some (r, m, tf1, s1)"
      and l: "get_cancel_loop os 5 0 tf1 s1 = Some (ret, tf', s')"
      by (auto simp: tf_cmd_get_cancel_def Option.bind_eq_Some_conv split: prod.splits)
    from quiet_steady [OF response_quiet [OF g quiet_refl]] that [OF l] show ?thesis
      by (simp add: steady_def same_session_def)
  qed
  from quiet_steady [OF get_cancel_loop_quiet [OF l quiet_refl]] st p get_cancel_loop_contract [OF l]
  show ?thesis by (auto intro: steady_trans)
qed

section \<open>The step relation\<close>

text \<open>
  A session: one rule for each operation of \<^verbatim>\<open>tf_io.h\<close> that takes the handle. The program chooses
  the calls and their arguments freely and in any order; where an operation writes a structure of
  its caller, that structure is arbitrary before the call.
\<close>

datatype tf_call =
    Call_init | Call_size | Call_cancel | Call_ready | Call_reset | Call_turbo int | Call_delete string
  | Call_rename string string | Call_mkdir string | Call_dir_first string | Call_dir_next | Call_dir_cancel
  | Call_stat string | Call_get string u64 | Call_get_next | Call_get_cancel | Call_put string u64 int u64
  | Call_put_data u64 "u8 list" | Call_put_done | Call_put_cancel | Call_send_success | Call_send_fail int

inductive call_step ::
  "'w os \<Rightarrow> tf_handle \<Rightarrow> 'w sys \<Rightarrow> tf_call \<Rightarrow> int \<Rightarrow> tf_handle \<Rightarrow> 'w sys \<Rightarrow> bool" for os tf s where
  step_init: "call_step os tf s Call_init ret tf' s'" if "tf_init os tf s = Some (ret, tf', s')"
| step_size: "call_step os tf s Call_size ret tf' s'" if "tf_cmd_size os tf result s = Some (ret, result', tf', s')"
| step_cancel: "call_step os tf s Call_cancel ret tf' s'" if "tf_cmd_cancel os tf s = Some (ret, tf', s')"
| step_ready: "call_step os tf s Call_ready ret tf' s'" if "tf_cmd_ready os tf s = Some (ret, tf', s')"
| step_reset: "call_step os tf s Call_reset ret tf' s'" if "tf_cmd_reset os tf s = Some (ret, tf', s')"
| step_turbo: "call_step os tf s (Call_turbo on) ret tf' s'" if "tf_cmd_turbo os tf on s = Some (ret, tf', s')"
| step_delete: "call_step os tf s (Call_delete path) ret tf' s'" if "tf_cmd_delete os tf path s = Some (ret, tf', s')"
| step_rename: "call_step os tf s (Call_rename src dest) ret tf' s'" if "tf_cmd_rename os tf src dest s = Some (ret, tf', s')"
| step_mkdir: "call_step os tf s (Call_mkdir path) ret tf' s'" if "tf_cmd_mkdir os tf path s = Some (ret, tf', s')"
| step_dir_first: "call_step os tf s (Call_dir_first path) ret tf' s'"
    if "tf_cmd_dir_first os tf path entries s = Some (ret, entries', tf', s')"
| step_dir_next: "call_step os tf s Call_dir_next ret tf' s'" if "tf_cmd_dir_next os tf entries s = Some (ret, entries', tf', s')"
| step_dir_cancel: "call_step os tf s Call_dir_cancel ret tf' s'" if "tf_cmd_dir_cancel os tf s = Some (ret, tf', s')"
| step_stat: "call_step os tf s (Call_stat path) ret tf' s'" if "tf_stat os tf path entries dirent s = Some (ret, dirent', tf', s')"
| step_get: "call_step os tf s (Call_get path offset) ret tf' s'"
    if "tf_cmd_get os tf path offset dirent s = Some (ret, dirent', tf', s')"
| step_get_next: "call_step os tf s Call_get_next ret tf' s'" if "tf_cmd_get_next os tf b s = Some (ret, b', tf', s')"
| step_get_cancel: "call_step os tf s Call_get_cancel ret tf' s'" if "tf_cmd_get_cancel os tf s = Some (ret, tf', s')"
| step_put: "call_step os tf s (Call_put path sz stamp offset) ret tf' s'"
    if "tf_cmd_put os tf path sz stamp offset s = Some (ret, tf', s')"
| step_put_data: "call_step os tf s (Call_put_data offset data) ret tf' s'"
    if "tf_cmd_put_data os tf offset data s = Some (ret, tf', s')"
| step_put_done: "call_step os tf s Call_put_done ret tf' s'" if "tf_cmd_put_done os tf s = Some (ret, tf', s')"
| step_put_cancel: "call_step os tf s Call_put_cancel ret tf' s'" if "tf_cmd_put_cancel os tf s = Some (ret, tf', s')"
| step_send_success: "call_step os tf s Call_send_success ret tf' s'" if "tf_send_success os tf s = Some (ret, tf', s')"
| step_send_fail: "call_step os tf s (Call_send_fail reason) ret tf' s'" if "tf_send_fail os tf reason s = Some (ret, tf', s')"

inductive_cases call_stepE: "call_step os tf s c ret tf' s'"
inductive_simps call_step_get_next: "call_step os tf s Call_get_next ret tf' s'"
inductive_simps call_step_get_cancel: "call_step os tf s Call_get_cancel ret tf' s'"

text \<open>A run of calls with their results, the last one at the end.\<close>

inductive session ::
  "'w os \<Rightarrow> tf_handle \<Rightarrow> 'w sys \<Rightarrow> (tf_call \<times> int) list \<Rightarrow> tf_handle \<Rightarrow> 'w sys \<Rightarrow> bool" for os tf s where
  session_start: "session os tf s [] tf s"
| session_call: "session os tf s (calls @ [(c, ret)]) tf2 s2"
    if "session os tf s calls tf1 s1" and "call_step os tf1 s1 c ret tf2 s2"

text \<open>The calls whose result is also left in the handle's \<^verbatim>\<open>error\<close>.\<close>

definition stores_result :: "tf_call \<Rightarrow> bool" where
  "stores_result c = (case c of
      Call_cancel \<Rightarrow> True | Call_ready \<Rightarrow> True | Call_reset \<Rightarrow> True | Call_turbo _ \<Rightarrow> True
    | Call_delete _ \<Rightarrow> True | Call_rename _ _ \<Rightarrow> True | Call_mkdir _ \<Rightarrow> True | Call_dir_cancel \<Rightarrow> True
    | Call_get_next \<Rightarrow> True | Call_get_cancel \<Rightarrow> True | Call_put_cancel \<Rightarrow> True
    | Call_send_success \<Rightarrow> True | Call_send_fail _ \<Rightarrow> True | _ \<Rightarrow> False)"

text \<open>
  Specification. The protocol that \<^verbatim>\<open>tf_io.h\<close> documents for receiving a file, as a machine with two
  states over the calls and their results: a transfer is open from a successful \<^verbatim>\<open>tf_cmd_get\<close> until
  \<^verbatim>\<open>tf_cmd_get_next\<close> gives \<^verbatim>\<open>TF_ERR_DONE\<close> or \<^verbatim>\<open>tf_cmd_get_cancel\<close> is called; \<^verbatim>\<open>tf_cmd_get\<close> belongs
  outside a transfer and \<^verbatim>\<open>tf_cmd_get_next\<close> inside.
\<close>

fun transfer_step :: "tf_call \<Rightarrow> int \<Rightarrow> bool \<Rightarrow> bool" where
  "transfer_step (Call_get path offset) ret p = (p \<or> ret = 0)"
| "transfer_step Call_get_next ret p = (p \<and> ret \<noteq> TF_ERR_DONE)"
| "transfer_step Call_get_cancel ret p = False"
| "transfer_step c ret p = p"

fun allowed :: "tf_call \<Rightarrow> bool \<Rightarrow> bool" where
  "allowed (Call_get path offset) p = (\<not> p)"
| "allowed Call_get_next p = p"
| "allowed c p = True"

definition in_transfer :: "(tf_call \<times> int) list \<Rightarrow> bool" where
  "in_transfer calls = fold (\<lambda>(c, ret). transfer_step c ret) calls False"

definition documented :: "(tf_call \<times> int) list \<Rightarrow> bool" where
  "documented calls = list_all (\<lambda>i. allowed (fst (calls ! i)) (in_transfer (take i calls))) [0..<length calls]"

lemma in_transfer_simps [simp]:
  "\<not> in_transfer []" "in_transfer (calls @ [(c, ret)]) = transfer_step c ret (in_transfer calls)"
  by (simp_all add: in_transfer_def)

lemma documented_snoc [simp]:
  "documented (calls @ [(c, ret)]) \<longleftrightarrow> documented calls \<and> allowed c (in_transfer calls)"
  by (auto simp: documented_def list_all_iff nth_append)

section \<open>Every step\<close>

lemmas run_quiet = command_quiet [OF _ quiet_refl] exchange_quiet [OF _ quiet_refl] stat_quiet [OF _ quiet_refl] put_data_quiet

lemma call_step_quiet:
  "call_step os tf s c ret tf' s' \<Longrightarrow> c \<noteq> Call_get_next \<Longrightarrow> c \<noteq> Call_get_cancel \<Longrightarrow> quiet os tf s tf' s'"
  by (erule call_stepE) (auto intro: run_quiet)

lemma call_step_steady:
  assumes "call_step os tf s c ret tf' s'"
  shows "steady os tf s tf' s'"
proof (cases "c = Call_get_next \<or> c = Call_get_cancel")
  case True
  with assms show ?thesis
    by (auto simp: call_step_get_next call_step_get_cancel dest: get_next_steady get_cancel_steady)
next
  case False
  with quiet_steady [OF call_step_quiet [OF assms]] show ?thesis by simp
qed

lemma call_step_pending:
  assumes "call_step os tf s c ret tf' s'" and "pending tf \<in> {0, 1}"
  shows "pending tf' \<in> {0, 1}"
    and "allowed c p \<Longrightarrow> (pending tf = 1 \<longrightarrow> p) \<Longrightarrow> pending tf' = 1 \<Longrightarrow> transfer_step c ret p"
proof (atomize (full), cases "c = Call_get_next \<or> c = Call_get_cancel")
  case True
  with assms get_next_steady get_cancel_steady
  show "pending tf' \<in> {0, 1} \<and> (allowed c p \<longrightarrow> (pending tf = 1 \<longrightarrow> p) \<longrightarrow> pending tf' = 1 \<longrightarrow> transfer_step c ret p)"
    by (fastforce simp: call_step_get_next call_step_get_cancel)
next
  case False
  with assms quiet_steady [OF call_step_quiet [OF assms(1)]]
  show "pending tf' \<in> {0, 1} \<and> (allowed c p \<longrightarrow> (pending tf = 1 \<longrightarrow> p) \<longrightarrow> pending tf' = 1 \<longrightarrow> transfer_step c ret p)"
    by (cases c) auto
qed

lemma steady_dev: "steady os tf s tf' s' \<Longrightarrow> dev tf' = dev tf"
  by (simp add: steady_def same_session_def)

lemma put_cancel_result:
  assumes "tf_cmd_put_cancel os tf s = Some (ret, tf', s')"
  shows "error tf' = ret \<and> (dev tf = None \<longrightarrow> ret = TF_ERR_NOCONN)"
proof -
  obtain r1 tf1 s1 where c1: "tf_cmd_cancel os tf s = Some (r1, tf1, s1)" and c2: "tf_cmd_cancel os tf1 (sleep os 1 s1) = Some (ret, tf', s')"
    using assms by (auto simp: tf_cmd_put_cancel_def Let_def split: run_splits)
  from cmd_cancel.keeps_dev [OF c1] cmd_cancel.stores_error [OF c2] cmd_cancel.no_device [OF _ c2] show ?thesis by simp
qed

lemma get_next_noconn:
  assumes "tf_cmd_get_next os tf b s = Some (ret, b', tf', s')" and "dev tf = None"
  shows "ret = TF_ERR_NOCONN"
proof (cases "pending tf = 0")
  case True
  with assms(1) obtain r tf1 s1 where c: "tf_send_success os tf s = Some (r, tf1, s1)"
    by (auto simp: tf_cmd_get_next_def split: run_splits)
  from send_success.no_device [OF assms(2) c] assms(1) True c show ?thesis
    by (auto simp: tf_cmd_get_next_def)
next
  case False
  with assms show ?thesis
    by (cases "buf tf") (auto simp: tf_cmd_get_next_def Let_def buf_response_def get_response_noconn)
qed

lemma get_cancel_loop_noconn:
  "get_cancel_loop os n ret tf s = Some (ret', tf', s') \<Longrightarrow> dev tf = None \<Longrightarrow> 0 < n \<Longrightarrow> ret' = TF_ERR_NOCONN"
proof (induction n arbitrary: ret tf s)
  case (Suc n)
  then obtain r1 tf1 s1 where f: "tf_send_fail os tf TF_ERR_CRC s = Some (r1, tf1, s1)"
    by (auto split: run_splits)
  with Suc.prems obtain r2 tf2 s2 where c: "tf_cmd_cancel os tf1 s1 = Some (r2, tf2, s2)"
    by (auto split: run_splits)
  have d2: "dev tf2 = None" "r2 = TF_ERR_NOCONN"
    using send_fail.keeps_dev [OF f] cmd_cancel.keeps_dev [OF c] cmd_cancel.no_device [OF _ c] Suc.prems(2) by auto
  with Suc.prems f c have "get_cancel_loop os n TF_ERR_NOCONN (tf2\<lparr>error := TF_ERR_NOCONN\<rparr>) (sleep os 2 s2) = Some (ret', tf', s')"
    by (simp add: get_response_noconn Let_def)
  with Suc.IH [OF this] d2 show ?case by (cases n) auto
qed simp

lemma call_step_result:
  assumes "call_step os tf s c ret tf' s'" and "stores_result c"
  shows "error tf' = ret \<and> (dev tf = None \<longrightarrow> ret = TF_ERR_NOCONN)"
  using assms
proof cases
  case step_get_next
  then show ?thesis using get_next_steady get_next_noconn by blast
next
  case step_get_cancel
  moreover from this have "dev tf = None \<Longrightarrow> ret = TF_ERR_NOCONN"
    by (auto simp: tf_cmd_get_cancel_def get_response_noconn split: if_splits dest!: get_cancel_loop_noconn)
  ultimately show ?thesis using get_cancel_steady by blast
next
  case (step_rename src dest)
  then show ?thesis
    using cmd_rename.stores_error [where x = "(src, dest)"] cmd_rename.no_device [where x = "(src, dest)"] by simp blast
qed (use assms(2) in \<open>auto simp: stores_result_def tf_cmd_dir_cancel_def dest: put_cancel_result
    cmd_cancel.stores_error cmd_ready.stores_error cmd_reset.stores_error cmd_turbo.stores_error cmd_delete.stores_error
    cmd_mkdir.stores_error send_success.stores_error send_fail.stores_error
    cmd_cancel.no_device cmd_ready.no_device cmd_reset.no_device cmd_turbo.no_device cmd_delete.no_device
    cmd_mkdir.no_device send_success.no_device send_fail.no_device\<close>)

section \<open>Whole sessions\<close>

lemma session_steady: "session os tf s calls tf' s' \<Longrightarrow> steady os tf s tf' s'"
  by (induction rule: session.induct) (auto intro: steady_trans call_step_steady)

lemma session_pending:
  assumes "session os tf s calls tf' s'" and "pending tf = 0"
  shows "pending tf' \<in> {0, 1} \<and> (documented calls \<longrightarrow> pending tf' = 1 \<longrightarrow> in_transfer calls)"
  using assms
proof (induction rule: session.induct)
  case (session_call calls tf1 s1 c ret tf2 s2)
  then have IH: "pending tf1 \<in> {0, 1}" "documented calls \<longrightarrow> pending tf1 = 1 \<longrightarrow> in_transfer calls" by simp_all
  from call_step_pending(1) [OF session_call.hyps(2) IH(1)] IH(2)
    call_step_pending(2) [OF session_call.hyps(2) IH(1), of "in_transfer calls"] show ?case by simp
qed simp

lemma session_results:
  assumes "session os tf s calls tf' s'"
  shows "(calls \<noteq> [] \<and> stores_result (fst (last calls)) \<longrightarrow> error tf' = snd (last calls))
    \<and> (dev tf = None \<longrightarrow> (\<forall>(c, ret) \<in> set calls. stores_result c \<longrightarrow> ret = TF_ERR_NOCONN))"
  using assms
proof (induction rule: session.induct)
  case (session_call calls tf1 s1 c ret tf2 s2)
  from session_call.IH call_step_result [OF session_call.hyps(2)] steady_dev [OF session_steady [OF session_call.hyps(1)]]
  show ?case by auto
qed simp

text \<open>A session for the witnesses: a file with one block is received from start to end.\<close>

definition script_transfer :: "script sys" where
  "script_transfer = script_sys [wire TF_MSG_HDD_FILE_START (enc_typefile script_entry),
     wire TF_MSG_HDD_FILE_DATA (be64 0 @ [1, 2, 3]), wire TF_MSG_HDD_FILE_END []]"

abbreviation (input) script_calls :: "(tf_call \<times> int) list" where
  "script_calls \<equiv> [(Call_get ''/A.rec'' 0, 0), (Call_get_next, 0)]"

lemma script_session:
  "\<exists>tf1 s1 tf2 s2. session script_os script_handle script_transfer script_calls tf1 s1 \<and> pending tf1 = 1
    \<and> session script_os script_handle script_transfer (script_calls @ [(Call_get_next, TF_ERR_DONE)]) tf2 s2"
proof -
  let ?b = "\<lparr>b_offset = 0, b_size = 0, b_data = 0\<rparr>" and ?t = "timeout script_handle"
  let ?data = "wire TF_MSG_HDD_FILE_DATA (be64 0 @ [1, 2, 3])" and ?last = "wire TF_MSG_HDD_FILE_END []"
  have len: "length (enc_typefile script_entry) = 114" using script_entry_page by (simp add: enc_page_def)
  have "answers script_os 3 ?t ?t (world script_transfer) TF_MSG_HDD_FILE_SEND (enc_file_send DIR_GET ''/A.rec'' 0)
      TF_MSG_HDD_FILE_START (enc_typefile script_entry) (\<lambda>w. inbox w = [?data, ?last])"
    by (rule script_answers [where ps = "[?data, ?last]"])
      (simp_all add: script_transfer_def script_sys_def enc_file_send_def enc_filename_def len)
  from get_start [OF script_handle_simps(1) _ _ this, where e = script_entry and dirent = "dirent_of script_os script_entry"] obtain s1 where
      "tf_cmd_get script_os script_handle ''/A.rec'' 0 (dirent_of script_os script_entry) script_transfer
        = Some (0, dirent_of script_os script_entry, script_handle\<lparr>error := 0\<rparr>, s1)" and i1: "inbox (world s1) = [?data, ?last]"
    using script_entry_page by (auto simp: wf_page_def)
  then have c1: "session script_os script_handle script_transfer ([] @ [(Call_get ''/A.rec'' 0, 0)]) (script_handle\<lparr>error := 0\<rparr>) s1"
    by (blast intro: session.intros call_step.intros)
  let ?tf1 = "script_handle\<lparr>error := 0\<rparr>"
  have "next_packet (pending ?tf1) script_os 3 (timeout ?tf1) (world s1) TF_MSG_HDD_FILE_DATA (be64 0 @ [1, 2, 3])
      (\<lambda>w. takes script_os 3 (timeout ?tf1) w TF_MSG_SUCCESS [] (\<lambda>s. inbox (world s) = [?last]))"
    using i1 by (simp add: next_packet_def) (rule script_answers [where ps = "[?last]"], simp, simp, simp, rule script_takes, simp_all)
  from get_next_data [where tf = ?tf1 and b = ?b and W = "\<lambda>w. inbox w = [?last]", OF _ this]
  obtain b2 tf2 s2 m where g2: "tf_cmd_get_next script_os (script_handle\<lparr>error := 0\<rparr>) ?b s1 = Some (0, b2, tf2, s2)"
    and tf2: "tf2 = script_handle\<lparr>error := 0, buf := Some m, pending := 1, error := 0\<rparr>" and i2: "inbox (world s2) = [?last]"
    by (auto simp: open_handle_def)
  from c1 g2 have c2: "session script_os script_handle script_transfer script_calls tf2 s2"
    using session_call [OF c1 step_get_next [OF g2]] by simp
  have "next_packet (pending tf2) script_os 3 (timeout tf2) (world s2) TF_MSG_HDD_FILE_END []
      (\<lambda>w. takes script_os 3 (timeout tf2) w TF_MSG_SUCCESS [] (\<lambda>s. True))"
    using i2 by (simp add: next_packet_def tf2) (rule script_delivers [where ps = "[]"], simp, simp, rule script_takes, simp_all)
  from get_next_end [where W = "\<lambda>w. True" and b = ?b, OF _ this] obtain tf3 s3 where
    "tf_cmd_get_next script_os tf2 ?b s2 = Some (TF_ERR_DONE, ?b, tf3, s3)"
    by (auto simp: open_handle_def tf2)
  note c3 = session_call [OF c2 step_get_next [OF this]]
  have "pending tf2 = 1" by (simp add: tf2)
  with c2 c3 show ?thesis by blast
qed

text \<open>C9. An invariant of every session. Whatever calls are made on a handle, in whatever order and
  with whatever replies: the session's settings stay as they were, the flag \<^verbatim>\<open>pending\<close> is 0 or 1, the
  system has only been used for transfers to endpoint 1 and from endpoint 0x82 of the handle's
  device, the last result is in the handle where the call stores it, and on a handle without a
  device every such call has reported \<^verbatim>\<open>TF_ERR_NOCONN\<close>.\<close>

theorem session_invariant:
  assumes "session os tf s calls tf' s'" and "pending tf = 0"
  shows "same_session tf tf' \<and> pending tf' \<in> {0, 1} \<and> device_io os (dev tf) (world s) (world s')
    \<and> (calls \<noteq> [] \<and> stores_result (fst (last calls)) \<longrightarrow> error tf' = snd (last calls))
    \<and> (dev tf = None \<longrightarrow> (\<forall>(c, ret) \<in> set calls. stores_result c \<longrightarrow> ret = TF_ERR_NOCONN))"
  using session_steady [OF assms(1)] session_pending [OF assms] session_results [OF assms(1)]
  by (simp add: steady_def)

theorem session_invariant_witness:
  "\<exists>tf' s'. session script_os script_handle script_transfer script_calls tf' s' \<and> pending tf' = 1 \<and> error tf' = 0
    \<and> same_session script_handle tf' \<and> device_io script_os (Some 3) (world script_transfer) (world s')"
proof -
  obtain tf1 s1 where run: "session script_os script_handle script_transfer script_calls tf1 s1" and "pending tf1 = 1"
    using script_session by blast
  with session_invariant [OF run] show ?thesis by (auto simp: stores_result_def)
qed

text \<open>C10. A client that follows the documented protocol never starts a transfer with an
  acknowledgement pending: outside a transfer nothing is pending, so the first
  \<^verbatim>\<open>tf_cmd_get_next\<close> of every transfer acknowledges the start packet.\<close>

theorem session_documented:
  assumes "session os tf s calls tf' s'" and "pending tf = 0" and "documented calls" and "\<not> in_transfer calls"
  shows "pending tf' = 0"
  using session_pending [OF assms(1,2)] assms(3,4) by auto

theorem session_documented_witness:
  "\<exists>tf' s'. session script_os script_handle script_transfer (script_calls @ [(Call_get_next, TF_ERR_DONE)]) tf' s'
    \<and> pending tf' = 0"
proof -
  obtain tf2 s2 where run: "session script_os script_handle script_transfer (script_calls @ [(Call_get_next, TF_ERR_DONE)]) tf2 s2"
    using script_session by blast
  have "documented ([] @ [(Call_get ''/A.rec'' 0, 0)] @ [(Call_get_next, 0)] @ [(Call_get_next, TF_ERR_DONE)])"
    and "\<not> in_transfer ([] @ [(Call_get ''/A.rec'' 0, 0)] @ [(Call_get_next, 0)] @ [(Call_get_next, TF_ERR_DONE)])"
    by (simp_all add: documented_def in_transfer_def upt_rec)
  with session_documented [OF run] run show ?thesis by auto
qed

text \<open>C27. Closing the connection gives back every descriptor whatever has happened in between: after
  \<^verbatim>\<open>topfield_open\<close>, any session whose transfers leave the descriptors alone, and \<^verbatim>\<open>topfield_close\<close>,
  the process has exactly the descriptors it had before, for every kind of lock and kernel version.\<close>

theorem session_close_restores:
  assumes "fd_table px fds" and "flock_kernel px fds own" and "topfield_open px linux index lock s = Some (0, tf, s1)"
    and "session os tf s1 calls tf1 s2"
    and "\<And>fd bytes t w. fds (snd (os_bulk_out os fd 0x01 bytes t w)) = fds w"
    and "\<And>fd n t w. fds (snd (os_bulk_in os fd 0x82 n t w)) = fds w" and "\<And>n w. fds (os_sleep os n w) = fds w"
    and "topfield_close px linux tf1 s2 = (tf', s')"
  shows "fds (world s') = fds (world s) \<and> dev tf' = None \<and> buf tf' = None"
proof -
  obtain fd where fd: "dev tf = Some fd" using topfield_open_result [OF assms(1-3)] by auto
  note st = session_steady [OF assms(4)]
  then have "device_io os (Some fd) (world s1) (world s2)" and same: "dev tf1 = dev tf" "lock_fd tf1 = lock_fd tf"
    by (simp_all add: steady_def same_session_def fd)
  from device_io_invariant [OF this(1), of "\<lambda>w. fds w = fds (world s1)"] assms(5-7)
  have "fds (world s2) = fds (world s1)" by simp
  from close_restores [OF assms(1-3) this same assms(8)] show ?thesis .
qed

text \<open>A device on the scripted kernel that takes everything and says nothing.\<close>

definition silent_os :: "kworld os" where
  "silent_os = \<lparr>os_bulk_out = (\<lambda>fd ep bs t w. (Some (length bs), w)), os_bulk_in = (\<lambda>fd ep n t w. (None, w)),
     os_sleep = (\<lambda>n w. w), os_time = (\<lambda>w. 0), os_mktime = (\<lambda>t. 0), os_localtime = (\<lambda>t. None), os_junk = (\<lambda>v w i. 0)\<rparr>"

theorem session_close_restores_witness:
  "\<exists>tf s1 ret tf1 s2. topfield_open kernel 0 0 TF_LOCK_STD (k_sys None [] (concat (map entry_text [script_hub, script_pvr]))) = Some (0, tf, s1)
    \<and> session silent_os tf s1 [(Call_send_success, ret)] tf1 s2
    \<and> k_open_fds (world (snd (topfield_close kernel 0 tf1 s2))) = {0, 1, 2}"
proof -
  let ?s = "k_sys None [] (concat (map entry_text [script_hub, script_pvr]))"
  obtain tf s1 where run: "topfield_open kernel 0 0 TF_LOCK_STD ?s = Some (0, tf, s1)"
    using script_opens by blast
  then have "tracefh tf \<noteq> None" by (cases rule: topfield_open_cases) (auto simp: blank_handle_def)
  then have "tf_send_success silent_os tf s1 \<noteq> None" by (cases "tracefh tf") (simp_all add: tf_send_success_def del: not_None_eq)
  then obtain r where "tf_send_success silent_os tf s1 = Some r" by blast
  then obtain ret tf1 s2 where "tf_send_success silent_os tf s1 = Some (ret, tf1, s2)" by (metis prod_cases3)
  from session_call [OF session_start step_send_success [OF this]]
  have calls: "session silent_os tf s1 [(Call_send_success, ret)] tf1 s2" by simp
  obtain tf' s' where close: "topfield_close kernel 0 tf1 s2 = (tf', s')" by fastforce
  have "k_open_fds (world s') = k_open_fds (world ?s)"
    using session_close_restores [OF kernel_fd_table kernel_flock run calls _ _ _ close] by (simp add: silent_os_def)
  also have "\<dots> = {0, 1, 2}" by (auto simp: k_open_fds_def k_sys_def)
  finally show ?thesis using run calls close by force
qed

end
