(* ===== verification/Tf_Clients.thy ===== *)
theory Tf_Clients
  imports Tf_Session
begin

text \<open>
  Whole dialogues. A client of the library lists a directory, stores a file and fetches it again
  with the loops that \<^verbatim>\<open>tf_io.h\<close> describes; the theorems say what the operations of \<^verbatim>\<open>tf_io.c\<close> do
  together. The section on limits compares the sizes that \<^verbatim>\<open>tf_io.h\<close> documents with those that the
  code keeps to.
\<close>

section \<open>Definitions\<close>

definition MAX_PUT_SIZE :: nat where
  "MAX_PUT_SIZE = 0xFFFF - 8 - 9"

definition MAX_GET_SIZE :: nat where
  "MAX_GET_SIZE = 0xFFFF - 8"

text \<open>A client that lists a directory: one \<^verbatim>\<open>tf_cmd_dir_first\<close>, then \<^verbatim>\<open>tf_cmd_dir_next\<close> until the
  result is not 0, at most \<open>n\<close> times.\<close>

definition page_of :: "tf_dir_entries \<Rightarrow> tf_dirent list" where
  "page_of r = take (nat (count r)) (entry r)"

fun list_rest ::
  "nat \<Rightarrow> 'w os \<Rightarrow> tf_handle \<Rightarrow> tf_dir_entries \<Rightarrow> 'w sys \<Rightarrow> (int \<times> tf_dirent list \<times> tf_handle \<times> 'w sys) option" where
  "list_rest 0 os tf r s = None"
| "list_rest (Suc n) os tf r s = do {
     (ret, r, tf, s) \<leftarrow> tf_cmd_dir_next os tf r s;
     (if ret = 0 then do {
        (ret, ds, tf, s) \<leftarrow> list_rest n os tf r s;
        Some (ret, page_of r @ ds, tf, s)
      }
      else Some (ret, [], tf, s))
   }"

definition list_dir ::
  "nat \<Rightarrow> 'w os \<Rightarrow> tf_handle \<Rightarrow> string \<Rightarrow> tf_dir_entries \<Rightarrow> 'w sys \<Rightarrow> (int \<times> tf_dirent list \<times> tf_handle \<times> 'w sys) option" where
  "list_dir n os tf path r s = do {
     (ret, r, tf, s) \<leftarrow> tf_cmd_dir_first os tf path r s;
     (if ret = 0 then do {
        (ret, ds, tf, s) \<leftarrow> list_rest n os tf r s;
        Some (ret, page_of r @ ds, tf, s)
      }
      else Some (ret, [], tf, s))
   }"

text \<open>A client that stores a file in blocks, and cancels the transfer when a block fails.\<close>

fun store_blocks ::
  "'w os \<Rightarrow> tf_handle \<Rightarrow> (u64 \<times> u8 list) list \<Rightarrow> 'w sys \<Rightarrow> (int \<times> tf_handle \<times> 'w sys) option" where
  "store_blocks os tf [] s = Some (0, tf, s)"
| "store_blocks os tf ((offset, data) # cs) s = do {
     (ret, tf, s) \<leftarrow> tf_cmd_put_data os tf offset data s;
     (if ret = 0 then store_blocks os tf cs s else Some (ret, tf, s))
   }"

definition store_file ::
  "'w os \<Rightarrow> tf_handle \<Rightarrow> string \<Rightarrow> u64 \<Rightarrow> int \<Rightarrow> (u64 \<times> u8 list) list \<Rightarrow> 'w sys \<Rightarrow> (int \<times> tf_handle \<times> 'w sys) option" where
  "store_file os tf path sz stamp cs s = do {
     (ret, tf, s) \<leftarrow> tf_cmd_put os tf path sz stamp 0 s;
     (if ret = 0 then do {
        (ret, tf, s) \<leftarrow> store_blocks os tf cs s;
        (if ret = 0 then tf_cmd_put_done os tf s
         else do {
           (_, tf, s) \<leftarrow> tf_cmd_put_cancel os tf s;
           Some (ret, tf, s)
         })
      }
      else Some (ret, tf, s))
   }"

section \<open>Listing a directory\<close>

lemma page_of_page_entries: "page_of (page_entries os es r) = map (dirent_of os) es"
  by (simp add: page_of_def page_entries_def)

lemma list_rest_pages:
  assumes "dev tf = Some fd" and "trace_level tf > 0 \<longrightarrow> tracefh tf \<noteq> None"
    and "\<forall>es \<in> set pages. wf_page es" and "length (entry r) = MAX_DIR_ENTRIES"
    and "pages_then os fd (timeout tf) (world s) TF_MSG_SUCCESS [] pages (listing_ends os fd (timeout tf) W)" and "length pages < n"
  shows "\<exists>tf' s'. list_rest n os tf r s = Some (TF_ERR_DONE, map (dirent_of os) (concat pages), tf', s') \<and> W (world s')"
  using assms
proof (induction pages arbitrary: n tf r s)
  case Nil
  then obtain k where n: "n = Suc k" by (cases n) auto
  from Nil.prems(5) have ans: "answers os fd (timeout tf) (timeout tf) (world s) TF_MSG_SUCCESS [] TF_MSG_HDD_DIREND []
      (\<lambda>w1. takes os fd (timeout tf) w1 TF_MSG_SUCCESS [] (\<lambda>s. W (world s)))"
    by (simp add: listing_ends_def)
  obtain s1 s2 where d: "tf_cmd_dir_next os tf r s = get_dirents os (tf\<lparr>error := 0\<rparr>) r s1"
    and rec: "receives os fd (timeout tf) s1 TF_MSG_HDD_DIREND [] s2"
    and k: "takes os fd (timeout tf) (world s2) TF_MSG_SUCCESS [] (\<lambda>s. W (world s))"
    using dir_next_reply [OF Nil.prems(1,2) ans] by blast
  obtain s3 where "get_dirents os (tf\<lparr>error := 0\<rparr>) r s1 = Some (1, r, tf\<lparr>error := 0\<rparr>, s3)" "W (world s3)"
    using get_dirents_end [of "tf\<lparr>error := 0\<rparr>" fd os s1 "[]" s2 "\<lambda>s. W (world s)" r] Nil.prems(1,2) rec k by auto
  with n d show ?case by simp
next
  case (Cons es pages)
  obtain k where n: "n = Suc k" and less: "length pages < k" using Cons.prems(6) by (cases n) auto
  let ?tf = "tf\<lparr>error := 0\<rparr>"
  have ans: "answers os fd (timeout tf) (timeout tf) (world s) TF_MSG_SUCCESS [] TF_MSG_HDD_DIRENT (enc_page es)
      (\<lambda>w1. pages_then os fd (timeout tf) w1 TF_MSG_SUCCESS [] pages (listing_ends os fd (timeout tf) W))"
    using Cons.prems(5) by simp
  obtain s1 s2 where d: "tf_cmd_dir_next os tf r s = get_dirents os ?tf r s1"
    and rec: "receives os fd (timeout tf) s1 TF_MSG_HDD_DIRENT (enc_page es) s2"
    and k: "pages_then os fd (timeout tf) (world s2) TF_MSG_SUCCESS [] pages (listing_ends os fd (timeout tf) W)"
    using dir_next_reply [OF Cons.prems(1,2) ans] by blast
  have wf: "wf_page es" using Cons.prems(3) by simp
  obtain s3 where g: "get_dirents os ?tf r s1 = Some (0, page_entries os es r, ?tf, s3)" and w: "world s3 = world s2"
    using get_dirents_page [of ?tf fd os s1 es s2 r] Cons.prems(1,4) rec wf by auto
  have "\<exists>tf' s'. list_rest k os ?tf (page_entries os es r) s3
      = Some (TF_ERR_DONE, map (dirent_of os) (concat pages), tf', s') \<and> W (world s')"
    using Cons.prems(1-4) wf less k w by (intro Cons.IH) (auto simp: length_page_entries)
  with n d g show ?case by (auto simp: page_of_page_entries)
qed

lemma list_dir_pages:
  assumes "dev tf = Some fd" and "trace_level tf > 0 \<longrightarrow> tracefh tf \<noteq> None" and "length path \<le> 65523"
    and "\<forall>es \<in> set pages. wf_page es" and "length (entry r) = MAX_DIR_ENTRIES"
    and "pages_then os fd (timeout tf) (world s) TF_MSG_HDD_DIR (enc_filename 0 path False) pages (listing_ends os fd (timeout tf) W)"
    and "length pages \<le> n"
  shows "\<exists>tf' s'. list_dir n os tf path r s = Some (TF_ERR_DONE, map (dirent_of os) (concat pages), tf', s') \<and> W (world s')"
proof (cases pages)
  case Nil
  with assms(6) have ans: "answers os fd (timeout tf) (timeout tf) (world s) TF_MSG_HDD_DIR (enc_filename 0 path False)
      TF_MSG_HDD_DIREND [] (\<lambda>w1. takes os fd (timeout tf) w1 TF_MSG_SUCCESS [] (\<lambda>s. W (world s)))"
    by (simp add: listing_ends_def)
  obtain s1 s2 where d: "tf_cmd_dir_first os tf path r s = get_dirents os (tf\<lparr>error := 0\<rparr>) r s1"
    and rec: "receives os fd (timeout tf) s1 TF_MSG_HDD_DIREND [] s2"
    and k: "takes os fd (timeout tf) (world s2) TF_MSG_SUCCESS [] (\<lambda>s. W (world s))"
    using dir_first_reply [OF assms(1,3) ans] by blast
  obtain s3 where "get_dirents os (tf\<lparr>error := 0\<rparr>) r s1 = Some (1, r, tf\<lparr>error := 0\<rparr>, s3)" "W (world s3)"
    using get_dirents_end [of "tf\<lparr>error := 0\<rparr>" fd os s1 "[]" s2 "\<lambda>s. W (world s)" r] assms(1,2) rec k by auto
  with Nil d show ?thesis by (simp add: list_dir_def)
next
  case (Cons es rest)
  let ?tf = "tf\<lparr>error := 0\<rparr>"
  from assms(6) Cons have ans: "answers os fd (timeout tf) (timeout tf) (world s) TF_MSG_HDD_DIR (enc_filename 0 path False)
      TF_MSG_HDD_DIRENT (enc_page es)
      (\<lambda>w1. pages_then os fd (timeout tf) w1 TF_MSG_SUCCESS [] rest (listing_ends os fd (timeout tf) W))"
    by simp
  obtain s1 s2 where d: "tf_cmd_dir_first os tf path r s = get_dirents os ?tf r s1"
    and rec: "receives os fd (timeout tf) s1 TF_MSG_HDD_DIRENT (enc_page es) s2"
    and k: "pages_then os fd (timeout tf) (world s2) TF_MSG_SUCCESS [] rest (listing_ends os fd (timeout tf) W)"
    using dir_first_reply [OF assms(1,3) ans] by blast
  have wf: "wf_page es" using assms(4) Cons by simp
  obtain s3 where g: "get_dirents os ?tf r s1 = Some (0, page_entries os es r, ?tf, s3)" and w: "world s3 = world s2"
    using get_dirents_page [of ?tf fd os s1 es s2 r] assms(1,5) rec wf by auto
  have "\<exists>tf' s'. list_rest n os ?tf (page_entries os es r) s3
      = Some (TF_ERR_DONE, map (dirent_of os) (concat rest), tf', s') \<and> W (world s')"
    using assms(1,2,4,5,7) wf k w Cons by (intro list_rest_pages) (auto simp: length_page_entries)
  with d g Cons show ?thesis by (auto simp: list_dir_def page_of_page_entries)
qed

section \<open>Storing a file and fetching it\<close>

text \<open>The device accepts the blocks of a file and its end; \<^verbatim>\<open>tf_cmd_put_data\<close> waits twice the timeout.\<close>

fun accepts_blocks ::
  "'w os \<Rightarrow> int \<Rightarrow> int \<Rightarrow> 'w \<Rightarrow> (u64 \<times> u8 list) list \<Rightarrow> ('w \<Rightarrow> bool) \<Rightarrow> bool" where
  "accepts_blocks os fd t w [] W = answers os fd t t w TF_MSG_HDD_FILE_END [] TF_MSG_SUCCESS [] W"
| "accepts_blocks os fd t w ((offset, data) # cs) W =
     answers os fd t (t * 2) w TF_MSG_HDD_FILE_DATA (be64 offset @ data) TF_MSG_SUCCESS []
       (\<lambda>w. accepts_blocks os fd t w cs W)"

text \<open>
  A file server: it accepts a file, whatever record describes it, and when it is asked for that
  file it answers with the same record and the same blocks, and then the end of the file.
\<close>

definition file_server ::
  "'w os \<Rightarrow> int \<Rightarrow> int \<Rightarrow> 'w \<Rightarrow> tm \<Rightarrow> string \<Rightarrow> u64 \<Rightarrow> (u64 \<times> u8 list) list \<Rightarrow> ('w \<Rightarrow> bool) \<Rightarrow> bool" where
  "file_server os fd t w tm path sz cs W \<longleftrightarrow>
     answers os fd t t w TF_MSG_HDD_FILE_SEND (enc_file_send DIR_PUT path 0) TF_MSG_SUCCESS []
       (\<lambda>w. \<forall>tb. start_record tm path sz tb \<longrightarrow>
          answers os fd t t w TF_MSG_HDD_FILE_START tb TF_MSG_SUCCESS []
            (\<lambda>w. accepts_blocks os fd t w cs
              (\<lambda>w. answers os fd t t w TF_MSG_HDD_FILE_SEND (enc_file_send DIR_GET path 0) TF_MSG_HDD_FILE_START tb
                (\<lambda>w. sends_blocks 0 os fd t w cs W))))"

lemma store_blocks_accepted:
  assumes "dev tf = Some fd" and "\<forall>(offset, data) \<in> set cs. length data \<le> MAX_PUT_SIZE"
    and "accepts_blocks os fd (timeout tf) (world s) cs W" and "error tf = 0"
  shows "\<exists>s1 s'. store_blocks os tf cs s = Some (0, tf, s1) \<and> tf_cmd_put_done os tf s1 = Some (0, tf, s') \<and> W (world s')"
  using assms
proof (induction cs arbitrary: s)
  case Nil
  from Nil.prems(3) have "answers os fd (timeout tf) (timeout tf) (world s) TF_MSG_HDD_FILE_END [] TF_MSG_SUCCESS []
      (\<lambda>w. if TF_MSG_SUCCESS = TF_MSG_SUCCESS then W w else answers os fd (timeout tf) (timeout tf) w TF_MSG_CANCEL [] 0 [] W)"
    by simp
  from put_done_exchange [OF Nil.prems(1) this] Nil.prems(4) show ?case by auto
next
  case (Cons c cs)
  obtain offset data where c: "c = (offset, data)" by fastforce
  have "16 + length data \<le> 65535" using Cons.prems(2) by (simp add: c MAX_PUT_SIZE_def)
  moreover have "answers os fd (timeout tf) (timeout tf * 2) (world s) TF_MSG_HDD_FILE_DATA (be64 offset @ data)
      TF_MSG_SUCCESS [] (\<lambda>w. accepts_blocks os fd (timeout tf) w cs W)"
    using Cons.prems(3) by (simp add: c)
  ultimately obtain s1 where d: "tf_cmd_put_data os tf offset data s = Some (0, tf, s1)"
    and k: "accepts_blocks os fd (timeout tf) (world s1) cs W"
    using put_data_exchange [OF Cons.prems(1)] Cons.prems(4) by fastforce
  from Cons.IH [OF Cons.prems(1) _ k Cons.prems(4)] Cons.prems(2) d show ?case by (simp add: c)
qed

text \<open>What the library makes of the record that it has sent itself.\<close>

lemma unpack_start_record:
  assumes "start_record tm path sz tb" and "bytes_at m a sizeof_typefile = tb"
    and "length path \<le> 94" and "CHR 0x00 \<notin> set path"
  shows "\<exists>d. unpack_dirent os m a = Some d \<and> d_name d = path \<and> be64 (d_size d) = rev (be64 sz) \<and> d_type d = CHR ''f''
    \<and> d_stamp d = tfdt_to_time os (store dt 0 (tfdt_bytes tm)) 0"
proof -
  obtain rest where len: "length rest = 94 - length path"
    and tb: "tb = tfdt_bytes tm @ [TYPE_FILE] @ rev (be64 sz) @ (map of_char path @ [0]) @ rest @ [0] @ [0, 0, 0, 0]"
    using assms(1,3) by (auto simp: start_record_def)
  define nm :: "u8 list" where "nm = map of_char path @ [0] @ rest"
  have "bytes_at m a (5 + (1 + (8 + (95 + 5)))) = tb" using assms(2) by simp
  then have "bytes_at m a 5 @ bytes_at m (a + 5) 1 @ bytes_at m (a + 6) 8 @ bytes_at m (a + 14) 95 @ bytes_at m (a + 109) 5
      = tfdt_bytes tm @ [TYPE_FILE] @ rev (be64 sz) @ nm @ [0, 0, 0, 0, 0]"
    unfolding bytes_at_append by (simp add: tb nm_def ac_simps)
  moreover have "length (tfdt_bytes tm) = 5" by (simp add: tfdt_bytes_def)
  moreover have "length nm = 95" using len assms(3) by (simp add: nm_def)
  ultimately have f: "bytes_at m a 5 = tfdt_bytes tm" "m (a + 5) = TYPE_FILE" "bytes_at m (a + 6) 8 = rev (be64 sz)"
      "bytes_at m (a + 14) 95 = nm"
    by (auto simp: append_eq_append_conv bytes_at_Suc)
  have name: "c_string (map of_char path @ 0 # rest) = Some path" using assms(4)
    by (induction path) (auto simp: of_char_eq_0 unat_of_char)
  have "bytes_at (store dt 0 (tfdt_bytes tm)) 0 5 = tfdt_bytes tm"
    by (rule bytes_at_store_same) (simp add: tfdt_bytes_def)
  with f(1) have stamp: "tfdt_to_time os m a = tfdt_to_time os (store dt 0 (tfdt_bytes tm)) 0"
    by (intro tfdt_to_time_cong) simp
  have "be64 (get_u64 m (a + 6)) = rev (be64 sz)" using be64_get_u64 f(3) by metis
  with f(2,4) name stamp show ?thesis by (simp add: unpack_dirent_def nm_def)
qed

lemma file_served:
  assumes h: "open_handle tf fd" and p: "pending tf = 0" and path: "length path \<le> 94" "CHR 0x00 \<notin> set path"
    and cs: "\<forall>(offset, data) \<in> set cs. length data \<le> MAX_PUT_SIZE" and n: "length cs < n"
    and local: "os_localtime os stamp = Some tm" and server: "file_server os fd (timeout tf) (world s) tm path sz cs W"
  shows "\<exists>tf1 s1 d tf2 s2 tf3 s3. store_file os tf path sz stamp cs s = Some (0, tf1, s1)
    \<and> tf_cmd_get os tf1 path 0 dirent s1 = Some (0, d, tf2, s2)
    \<and> fetch_file n os tf2 b s2 = Some (TF_ERR_DONE, cs, tf3, s3) \<and> W (world s3) \<and> pending tf3 = 0
    \<and> d_name d = path \<and> be64 (d_size d) = rev (be64 sz) \<and> d_type d = CHR ''f''
    \<and> d_stamp d = tfdt_to_time os (store dt 0 (tfdt_bytes tm)) 0"
proof -
  let ?tf = "tf\<lparr>error := 0\<rparr>" and ?t = "timeout tf"
  have dev: "dev tf = Some fd" and devt: "dev ?tf = Some fd" and ht: "open_handle ?tf fd"
    using h by (simp_all add: open_handle_def)
  have len: "length path \<le> 65000" using path(1) by simp
  obtain s1 tb where put: "tf_cmd_put os tf path sz stamp 0 s = Some (0, ?tf, s1)" and tb: "start_record tm path sz tb"
    and k: "accepts_blocks os fd ?t (world s1) cs
              (\<lambda>w. answers os fd ?t ?t w TF_MSG_HDD_FILE_SEND (enc_file_send DIR_GET path 0) TF_MSG_HDD_FILE_START tb
                (\<lambda>w. sends_blocks 0 os fd ?t w cs W))"
    using put_exchange [OF dev len local server [unfolded file_server_def]] by auto
  obtain s2 s3 where blocks: "store_blocks os ?tf cs s1 = Some (0, ?tf, s2)" "tf_cmd_put_done os ?tf s2 = Some (0, ?tf, s3)"
    and get: "answers os fd ?t ?t (world s3) TF_MSG_HDD_FILE_SEND (enc_file_send DIR_GET path 0) TF_MSG_HDD_FILE_START tb
                (\<lambda>w. sends_blocks 0 os fd ?t w cs W)"
    using store_blocks_accepted [OF devt cs] k by fastforce
  have stored: "store_file os tf path sz stamp cs s = Some (0, ?tf, s3)"
    using put blocks by (simp add: store_file_def)
  obtain m s4 where g: "tf_cmd_get os ?tf path 0 dirent s3 = do {d \<leftarrow> unpack_dirent os m 8; Some (0, d, ?tf, s4)}"
    and m: "holds_reply m TF_MSG_HDD_FILE_START tb" and k4: "sends_blocks 0 os fd ?t (world s4) cs W"
    using get_exchange [OF devt len, of os s3 0 TF_MSG_HDD_FILE_START tb "\<lambda>w. sends_blocks 0 os fd ?t w cs W" dirent] get by auto
  have "bytes_at m 8 sizeof_typefile = tb" using m length_start_record [OF tb] by (simp add: holds_reply_def)
  from unpack_start_record [OF tb this path] obtain d where d: "unpack_dirent os m 8 = Some d" "d_name d = path"
      "be64 (d_size d) = rev (be64 sz)" "d_type d = CHR ''f''" "d_stamp d = tfdt_to_time os (store dt 0 (tfdt_bytes tm)) 0"
    by blast
  have "sends_blocks (pending ?tf) os fd (timeout ?tf) (world s4) cs W" using k4 p by simp
  from fetch_file_blocks [OF ht this n] obtain tf5 s5 where
    "fetch_file n os ?tf b s4 = Some (TF_ERR_DONE, cs, tf5, s5)" "W (world s5)" "pending tf5 = 0" by blast
  with stored g d show ?thesis by (intro exI conjI) simp_all
qed

section \<open>Properties\<close>

text \<open>C8. Listing a directory: for every number of pages, each with up to 574 entries, a client that
  calls \<^verbatim>\<open>tf_cmd_dir_next\<close> until it stops gets all entries of all pages, decoded and in order, and
  the last result is \<^verbatim>\<open>TF_ERR_DONE\<close>; an empty listing is included.\<close>

theorem list_dir_complete:
  assumes "dev tf = Some fd" and "trace_level tf > 0 \<longrightarrow> tracefh tf \<noteq> None" and "length path \<le> 65523"
    and "\<forall>es \<in> set pages. wf_page es" and "length (entry r) = MAX_DIR_ENTRIES"
    and "pages_then os fd (timeout tf) (world s) TF_MSG_HDD_DIR (enc_filename 0 path False) pages (listing_ends os fd (timeout tf) W)"
    and "length pages \<le> n"
  shows "\<exists>tf' s'. list_dir n os tf path r s = Some (TF_ERR_DONE, map (dirent_of os) (concat pages), tf', s') \<and> W (world s')"
  using assms by (rule list_dir_pages)

text \<open>C7. A file survives the way to the device and back: with a device that keeps what it is sent,
  storing a file with \<^verbatim>\<open>tf_cmd_put\<close>, one \<^verbatim>\<open>tf_cmd_put_data\<close> for each block and \<^verbatim>\<open>tf_cmd_put_done\<close>, and
  then fetching it with \<^verbatim>\<open>tf_cmd_get\<close> and \<^verbatim>\<open>tf_cmd_get_next\<close>, gives the same blocks with the same
  offsets, the same name and the same time; only the size comes back with its bytes reversed.\<close>

theorem file_roundtrip:
  assumes "open_handle tf fd" and "pending tf = 0" and "length path \<le> 94" and "CHR 0x00 \<notin> set path"
    and "\<forall>(offset, data) \<in> set cs. length data \<le> MAX_PUT_SIZE" and "length cs < n"
    and "file_server os fd (timeout tf) (world s) tm path sz cs W"
    and "os_localtime os stamp = Some tm" and "os_mktime os (tm\<lparr>tm_wday := 0, tm_yday := 0, tm_isdst := -1\<rparr>) = stamp"
    and "tm_year tm = int y" and "y < 138" and "tm_mon tm = int mon" and "2 \<le> mon \<or> 0 < y"
    and "valid_date (1900 + int y) mon (tm_mday tm)"
    and "tm_hour tm \<in> {0..23}" and "tm_min tm \<in> {0..59}" and "tm_sec tm \<in> {0..60}"
  shows "\<exists>tf1 s1 d tf2 s2 tf3 s3. store_file os tf path sz stamp cs s = Some (0, tf1, s1)
    \<and> tf_cmd_get os tf1 path 0 dirent s1 = Some (0, d, tf2, s2)
    \<and> fetch_file n os tf2 b s2 = Some (TF_ERR_DONE, cs, tf3, s3) \<and> W (world s3) \<and> pending tf3 = 0
    \<and> d_name d = path \<and> d_type d = CHR ''f'' \<and> d_stamp d = stamp \<and> be64 (d_size d) = rev (be64 sz)"
proof -
  have "tfdt_to_time os (store (\<lambda>i. 0) 0 (tfdt_bytes tm)) 0 = stamp"
    using tfdt_inverse [OF assms(8-17), of "\<lambda>i. 0" 0] time_to_tfdt_store [OF assms(8), of "\<lambda>i. 0" 0] by auto
  with file_served [OF assms(1-6,8,7), of dirent b "\<lambda>i. 0"] show ?thesis by metis
qed

text \<open>C23. What \<^verbatim>\<open>tf_cmd_put_data\<close> can take: for blocks up to \<^verbatim>\<open>MAX_PUT_SIZE\<close>, and one byte more, the
  request is the offset followed by exactly the caller's bytes, the reply is awaited with twice
  the timeout, which is restored, and it decides the result; any larger block makes the length of
  the packet wrap or leaves its memory, whatever the device.\<close>

theorem put_data_limit:
  "(length data \<le> MAX_PUT_SIZE + 1 \<longrightarrow> dev tf = Some fd \<longrightarrow>
      answers os fd (timeout tf) (timeout tf * 2) (world s) TF_MSG_HDD_FILE_DATA (be64 offset @ data) cmd q W \<longrightarrow>
      (\<exists>s'. tf_cmd_put_data os tf offset data s
        = Some (if cmd = TF_MSG_SUCCESS then 0 else TF_ERR_UNEXPECTED, tf\<lparr>error := 0\<rparr>, s') \<and> W (world s')))
    \<and> (length data > MAX_PUT_SIZE + 1 \<longrightarrow> tf_cmd_put_data os tf offset data s = None)"
proof (intro conjI impI)
  assume "length data \<le> MAX_PUT_SIZE + 1" and "dev tf = Some fd"
    and "answers os fd (timeout tf) (timeout tf * 2) (world s) TF_MSG_HDD_FILE_DATA (be64 offset @ data) cmd q W"
  then show "\<exists>s'. tf_cmd_put_data os tf offset data s
        = Some (if cmd = TF_MSG_SUCCESS then 0 else TF_ERR_UNEXPECTED, tf\<lparr>error := 0\<rparr>, s') \<and> W (world s')"
    by (intro put_data_exchange) (simp_all add: MAX_PUT_SIZE_def)
next
  assume big: "length data > MAX_PUT_SIZE + 1"
  let ?req = "tf_req_init (os_junk os ''req'' (world s)) TF_MSG_HDD_FILE_DATA"
  obtain r1 where r1: "tf_req_put64 ?req offset = Some r1" and b1: "building r1 TF_MSG_HDD_FILE_DATA (be64 offset)"
    using put64.put_building [OF building_init, of offset "os_junk os ''req'' (world s)" TF_MSG_HDD_FILE_DATA] by auto
  have len: "unat (host_u16 r1 0) = 16" using building_length [OF b1] by simp
  show "tf_cmd_put_data os tf offset data s = None"
  proof (cases "16 + length data \<le> sizeof_packet")
    case False
    then have "tf_req_putdata r1 data = None" by (simp add: tf_req_putdata_def len)
    with r1 show ?thesis by (simp add: tf_cmd_put_data_def)
  next
    case True
    with big have data: "length data = 65520" by (simp add: MAX_PUT_SIZE_def)
    have wrap: "(65536 :: u16) = 0" by transfer simp
    have "host_u16 (store r1 16 data) 0 = 16" using b1 by (simp add: host_u16_store_other building_def)
    then have "tf_req_putdata r1 data = Some (set_host_u16 (store r1 16 data) 0 (16 + of_nat (length data)))"
      using True by (simp add: tf_req_putdata_def len)
    also have "16 + of_nat (length data) = (0 :: u16)" using wrap by (simp only: data of_nat_numeral) simp
    finally have "tf_req_putdata r1 data = Some (set_host_u16 (store r1 16 data) 0 0)" .
    moreover have "tf_req_done os tf (set_host_u16 (store r1 16 data) 0 0) s = None" by (simp add: req_done_eq host_u16_set)
    ultimately obtain r2 where r2: "tf_req_putdata r1 data = Some r2" and "tf_req_done os tf r2 s = None" by blast
    with r1 r2 show ?thesis by (simp add: tf_cmd_put_data_def)
  qed
qed

text \<open>C25. The window that \<^verbatim>\<open>tf_cmd_get_next\<close> hands to its caller: for a data packet with any payload it
  lies inside the transfer buffer, and is at most \<^verbatim>\<open>MAX_GET_SIZE\<close> long, exactly if the payload has
  the eight bytes of the offset. For a shorter one the result is 0 as well, but the length wraps
  and the window reaches past the buffer.\<close>

theorem get_next_window:
  assumes "open_handle tf fd"
    and "next_packet (pending tf) os fd (timeout tf) (world s) TF_MSG_HDD_FILE_DATA q
           (\<lambda>w. takes os fd (timeout tf) w TF_MSG_SUCCESS [] (\<lambda>s. W (world s)))"
  shows "\<exists>b' tf' s'. tf_cmd_get_next os tf b s = Some (0, b', tf', s') \<and> W (world s')
    \<and> (b_data b' + b_size b' \<le> sizeof_packet \<longleftrightarrow> 8 \<le> length q) \<and> (b_size b' \<le> MAX_GET_SIZE \<longleftrightarrow> 8 \<le> length q)"
proof -
  obtain m s1 where g: "tf_cmd_get_next os tf b s = do {
      (ret, b, tf, s) \<leftarrow> handle_next os m b (tf\<lparr>pending := 0, error := 0, buf := Some m\<rparr>) s1;
      Some (ret, b, tf\<lparr>error := ret\<rparr>, s)
    }" and h: "holds_reply m TF_MSG_HDD_FILE_DATA q"
    and t: "takes os fd (timeout tf) (world s1) TF_MSG_SUCCESS [] (\<lambda>s. W (world s))"
    using get_next_packet [OF assms] by blast
  let ?tf = "tf\<lparr>pending := 0, error := 0, buf := Some m\<rparr>"
  obtain s2 where a: "tf_send_success os ?tf s1 = Some (0, ?tf\<lparr>error := 0\<rparr>, s2)" and W: "W (world s2)"
    using send_success_sent [of ?tf fd os s1 "\<lambda>s. W (world s)"] assms(1) t by (auto simp: open_handle_def)
  have cmd: "reply_cmd m = TF_MSG_HDD_FILE_DATA" using h by (simp add: holds_reply_def)
  have len: "uint (reply_length m) = 8 + int (length q)" unfolding uint_nat holds_reply_length [OF h] by simp
  have bound: "uint (reply_length m) < 65536" using unat_lt_65536 [of "reply_length m"] unfolding uint_nat by linarith
  have "uint (reply_length m - 16) = (int (length q) - 8) mod 65536" by (simp add: uint_word_ariths len)
  also have "\<dots> = (if 8 \<le> length q then int (length q) - 8 else 65528 + int (length q))"
  proof (cases "8 \<le> length q")
    case True
    with bound len show ?thesis by (simp add: mod_pos_pos_trivial)
  next
    case False
    have "(int (length q) - 8 + 65536) mod 65536 = int (length q) - 8 + 65536"
      by (rule mod_pos_pos_trivial) (use False in linarith)+
    then show ?thesis using False by (simp only: mod_add_self2) simp
  qed
  finally have size: "unat (reply_length m - 16) = (if 8 \<le> length q then length q - 8 else 65528 + length q)"
    by (auto simp: nat_uint_eq [symmetric] simp del: nat_uint_eq)
  have "length q \<le> 65527" using unat_lt_65536 [of "reply_length m"] unfolding holds_reply_length [OF h] by simp
  then show ?thesis
    using g a W cmd size by (auto simp: handle_next_def MAX_GET_SIZE_def)
qed

section \<open>Witnesses\<close>

theorem list_dir_complete_witness:
  "\<exists>tf' s'. list_dir 2 script_os script_handle ''/'' script_entries
      (script_sys [wire TF_MSG_HDD_DIRENT (enc_page [script_entry]), wire TF_MSG_HDD_DIRENT (enc_page [script_entry, script_entry]),
        wire TF_MSG_HDD_DIREND []])
      = Some (TF_ERR_DONE, replicate 3 (dirent_of script_os script_entry), tf', s') \<and> inbox (world s') = []"
proof -
  let ?s = "script_sys [wire TF_MSG_HDD_DIRENT (enc_page [script_entry]), wire TF_MSG_HDD_DIRENT (enc_page [script_entry, script_entry]),
        wire TF_MSG_HDD_DIREND []]"
  let ?pages = "[[script_entry], [script_entry, script_entry]]"
  have wf: "\<forall>es \<in> set ?pages. wf_page es" using script_entry_page(1) by (simp add: wf_page_def)
  have len: "length (enc_page [script_entry, script_entry]) = 228"
    using length_enc_page [of "[script_entry, script_entry]"] wf by simp
  have "pages_then script_os 3 (timeout script_handle) (world ?s) TF_MSG_HDD_DIR (enc_filename 0 ''/'' False) ?pages
      (listing_ends script_os 3 (timeout script_handle) (\<lambda>w. inbox w = []))"
    unfolding pages_then.simps listing_ends_def
    by (rule script_answers [where ps = "[wire TF_MSG_HDD_DIRENT (enc_page [script_entry, script_entry]), wire TF_MSG_HDD_DIREND []]"],
        simp add: enc_filename_def, simp add: script_entry_page, simp add: script_sys_def,
        rule script_answers [where ps = "[wire TF_MSG_HDD_DIREND []]"], simp, simp add: len, simp,
        rule script_answers [where ps = "[]"], simp, simp, simp, rule script_takes, simp, simp)
  from list_dir_complete [OF script_handle_simps(1) _ _ wf _ this, where n = 2 and r = script_entries] show ?thesis
    by (simp add: numeral_3_eq_3)
qed

theorem get_next_window_witness:
  "\<exists>b' tf' s'. tf_cmd_get_next script_os script_handle \<lparr>b_offset = 0, b_size = 0, b_data = 0\<rparr>
      (script_sys [wire TF_MSG_HDD_FILE_DATA []]) = Some (0, b', tf', s')
    \<and> \<not> b_data b' + b_size b' \<le> sizeof_packet \<and> \<not> b_size b' \<le> MAX_GET_SIZE"
proof -
  have "next_packet (pending script_handle) script_os 3 (timeout script_handle) (world (script_sys [wire TF_MSG_HDD_FILE_DATA []]))
      TF_MSG_HDD_FILE_DATA [] (\<lambda>w. takes script_os 3 (timeout script_handle) w TF_MSG_SUCCESS [] (\<lambda>s. True))"
    unfolding next_packet_def script_handle_simps
    by (simp only: simp_thms if_True) (rule script_answers [where ps = "[]"], simp, simp, simp add: script_sys_def,
        rule script_takes, simp, simp)
  from get_next_window [OF script_open_handle this] show ?thesis by auto
qed

theorem put_data_limit_witness:
  "(\<exists>s'. tf_cmd_put_data script_os script_handle 4096 [1, 2, 3] (script_sys [wire TF_MSG_SUCCESS []])
      = Some (0, script_handle\<lparr>error := 0\<rparr>, s') \<and> outbox (world s') = [wire TF_MSG_HDD_FILE_DATA (be64 4096 @ [1, 2, 3])])
    \<and> tf_cmd_put_data script_os script_handle 0 (replicate 65520 0) (script_sys []) = None"
proof -
  let ?W = "\<lambda>w. outbox w = [wire TF_MSG_HDD_FILE_DATA (be64 4096 @ [1, 2, 3])]"
  have "answers script_os 3 (timeout script_handle) (timeout script_handle * 2) (world (script_sys [wire TF_MSG_SUCCESS []]))
      TF_MSG_HDD_FILE_DATA (be64 4096 @ [1, 2, 3]) TF_MSG_SUCCESS [] ?W"
    by (rule script_answers [where ps = "[]"]) (simp_all add: script_sys_def)
  with put_data_limit [of "[1, 2, 3]" script_handle 3 script_os "script_sys [wire TF_MSG_SUCCESS []]" 4096 TF_MSG_SUCCESS "[]" ?W]
    put_data_limit [of "replicate 65520 0" script_handle 3 script_os "script_sys []" 0]
  show ?thesis by (simp add: MAX_PUT_SIZE_def)
qed

text \<open>With a name of 94 characters the record that is sent is determined, so that the script can send
  it back.\<close>

abbreviation (input) script_tm :: tm where
  "script_tm \<equiv> \<lparr>tm_sec = 0, tm_min = 0, tm_hour = 0, tm_mday = 1, tm_mon = 0, tm_year = 106, tm_wday = 0, tm_yday = 0, tm_isdst = 0\<rparr>"

definition script_name :: string where
  "script_name = replicate 94 CHR ''a''"

definition script_record :: "u8 list" where
  "script_record = tfdt_bytes script_tm @ [TYPE_FILE] @ rev (be64 3) @ (map of_char script_name @ [0]) @ [0, 0, 0, 0, 0]"

lemma script_record: "start_record script_tm script_name sz tb \<Longrightarrow> sz = 3 \<Longrightarrow> tb = script_record"
  by (auto simp: start_record_def script_record_def script_name_def)

lemma length_script_record: "length script_record = 114"
  by (simp add: script_record_def tfdt_bytes_def script_name_def)

definition script_storage :: "script sys" where
  "script_storage = script_sys [wire TF_MSG_SUCCESS [], wire TF_MSG_SUCCESS [], wire TF_MSG_SUCCESS [], wire TF_MSG_SUCCESS [],
     wire TF_MSG_HDD_FILE_START script_record, wire TF_MSG_HDD_FILE_DATA (be64 0 @ [1, 2, 3]), wire TF_MSG_HDD_FILE_END []]"

lemma script_server:
  "file_server script_os 3 (timeout script_handle) (world script_storage) script_tm script_name 3 [(0, [1, 2, 3])] (\<lambda>w. inbox w = [])"
proof -
  let ?ok = "wire TF_MSG_SUCCESS []" and ?data = "wire TF_MSG_HDD_FILE_DATA (be64 0 @ [1, 2, 3])"
    and ?start = "wire TF_MSG_HDD_FILE_START script_record" and ?eof = "wire TF_MSG_HDD_FILE_END []"
  have short: "length (enc_file_send dir script_name 0) < 500" for dir
    using length_enc_file_send_le [of dir script_name 0] by (simp add: script_name_def)
  have tb: "start_record script_tm script_name 3 tb \<Longrightarrow> tb = script_record" for tb by (rule script_record) simp_all
  show ?thesis
    unfolding file_server_def accepts_blocks.simps sends_blocks.simps next_packet_def
    apply (rule script_answers [where ps = "[?ok, ?ok, ?ok, ?start, ?data, ?eof]"], rule short, simp,
        simp add: script_storage_def script_sys_def, intro allI impI, drule tb, hypsubst)
    apply (rule script_answers [where ps = "[?ok, ?ok, ?start, ?data, ?eof]"], simp add: length_script_record, simp, simp)
    apply (rule script_answers [where ps = "[?ok, ?start, ?data, ?eof]"], simp, simp, simp)
    apply (rule script_answers [where ps = "[?start, ?data, ?eof]"], simp, simp, simp)
    apply (rule script_answers [where ps = "[?data, ?eof]"], rule short, simp add: length_script_record, simp)
    apply (simp only: simp_thms if_True)
    apply (rule script_answers [where ps = "[?eof]"], simp, simp, simp, rule script_takes, simp)
    apply (simp only: one_neq_zero if_False, rule script_delivers [where ps = "[]"], simp, simp, rule script_takes, simp_all)
    done
qed

theorem file_roundtrip_witness:
  "\<exists>tf1 s1 d tf2 s2 tf3 s3. store_file script_os script_handle script_name 3 106001 [(0, [1, 2, 3])] script_storage = Some (0, tf1, s1)
    \<and> tf_cmd_get script_os tf1 script_name 0 (dirent_of script_os script_entry) s1 = Some (0, d, tf2, s2)
    \<and> fetch_file 2 script_os tf2 \<lparr>b_offset = 0, b_size = 0, b_data = 0\<rparr> s2 = Some (TF_ERR_DONE, [(0, [1, 2, 3])], tf3, s3)
    \<and> d_name d = script_name \<and> d_stamp d = 106001 \<and> d_size d = 0x0300000000000000"
proof -
  have local: "os_localtime script_os 106001 = Some script_tm"
    and mk: "os_mktime script_os (script_tm\<lparr>tm_wday := 0, tm_yday := 0, tm_isdst := -1\<rparr>) = 106001"
    by (simp_all add: script_os_def)
  have valid: "valid_date (1900 + int 106) 0 (tm_mday script_tm)" by (simp add: valid_date_def month_days_def)
  have name: "length script_name \<le> 94" "CHR 0x00 \<notin> set script_name" by (simp_all add: script_name_def)
  have size: "d = 0x0300000000000000" if "be64 d = rev (be64 3)" for d :: u64
  proof -
    have "be64 d = be64 0x0300000000000000" using that by (simp add: be64_def)
    then show ?thesis
      using get_u64_bytes_at [of "store (\<lambda>i. 0) 0 (be64 d)" 0] bytes_at_store_same by (metis length_be(3))
  qed
  show ?thesis
    using file_roundtrip [OF script_open_handle _ name _ _ script_server local mk _ _ _ _ valid, of 2
        "dirent_of script_os script_entry" "\<lparr>b_offset = 0, b_size = 0, b_data = 0\<rparr>"] size
    by (fastforce simp: MAX_PUT_SIZE_def)
qed

end
