(* ===== verification/Session_Types.thy ===== *)
theory Session_Types
  imports Tf_Session
begin

text \<open>
  The integers of the handle and the results of the calls are unbounded in the model and \<^verbatim>\<open>int\<close> in
  the code. Every value that a session computes is one of \<^verbatim>\<open>int\<close>, so the two agree; the one sum
  that can overflow, the doubled timeout of \<^verbatim>\<open>tf_cmd_put_data\<close>, is assumed to fit.
\<close>

section \<open>Typing of results\<close>

definition is_int :: "int \<Rightarrow> bool" where
  "is_int i \<longleftrightarrow> -(2 ^ 31) \<le> i \<and> i < 2 ^ 31"

text \<open>The fields of type \<^verbatim>\<open>int\<close>; \<^verbatim>\<open>tf_cmd_put_data\<close> doubles the timeout, which must fit as well.\<close>

definition typed_handle :: "tf_handle \<Rightarrow> bool" where
  "typed_handle tf \<longleftrightarrow> is_int (2 * timeout tf) \<and> is_int (trace_level tf) \<and> is_int (nocrc tf) \<and> is_int (error tf)
     \<and> is_int (lock_fd tf) \<and> is_int (pending tf)"

named_theorems typed_results \<open>results that are values of int\<close>

lemma is_int_literals [simp]:
  "is_int 0" "is_int 1" "is_int (numeral n) \<longleftrightarrow> numeral n < (2 ^ 31 :: int)" "is_int (- 1)"
  "is_int (- numeral n) \<longleftrightarrow> numeral n \<le> (2 ^ 31 :: int)"
  by (auto simp: is_int_def)

lemma fail_code_typed [simp]: "is_int (fail_code reply)"
  using sint_range_size [of "- get_u32 reply 8"] by (simp add: fail_code_def is_int_def word_size)

lemma send_typed [typed_results]: "tf_send os tf req s = (ret, tf', s') \<Longrightarrow> is_int ret"
  by (drule tf_send_error) auto

lemma response_typed [typed_results]: "tf_get_response os tf reply s = Some (ret, m, tf', s') \<Longrightarrow> is_int ret"
  by (drule get_response_error) auto

lemma buf_response_typed [typed_results]: "buf_response os tf s = Some (ret, m, tf', s') \<Longrightarrow> is_int ret"
  by (auto simp: buf_response_def split: run_splits intro: response_typed)

lemma cmd_typed [typed_results]: "tf_cmd os tf req s = Some (ret, tf', s') \<Longrightarrow> is_int ret"
  unfolding tf_cmd_def Let_def by (auto split: run_splits intro: typed_results)

lemma command_typed [typed_results]:
  "tf_send_success os tf s = Some (ret, tf', s') \<Longrightarrow> is_int ret"
  "tf_send_fail os tf reason s = Some (ret, tf', s') \<Longrightarrow> is_int ret"
  "tf_cmd_cancel os tf s = Some (ret, tf', s') \<Longrightarrow> is_int ret"
  "tf_cmd_ready os tf s = Some (ret, tf', s') \<Longrightarrow> is_int ret"
  "tf_cmd_reset os tf s = Some (ret, tf', s') \<Longrightarrow> is_int ret"
  "tf_cmd_turbo os tf on s = Some (ret, tf', s') \<Longrightarrow> is_int ret"
  "tf_cmd_delete os tf path s = Some (ret, tf', s') \<Longrightarrow> is_int ret"
  "tf_cmd_mkdir os tf path s = Some (ret, tf', s') \<Longrightarrow> is_int ret"
  "tf_cmd_rename os tf path dest s = Some (ret, tf', s') \<Longrightarrow> is_int ret"
  "get_dirents os tf result s = Some (ret, result', tf', s') \<Longrightarrow> is_int ret"
  unfolding tf_send_success_def tf_send_fail_def tf_cmd_cancel_def tf_cmd_ready_def tf_cmd_reset_def tf_cmd_turbo_def
    tf_cmd_delete_def tf_cmd_mkdir_def tf_cmd_rename_def get_dirents_def Let_def
  by (auto split: run_splits intro: typed_results)

lemma exchange_typed [typed_results]:
  "tf_cmd_size os tf r s = Some (ret, r', tf', s') \<Longrightarrow> is_int ret"
  "tf_init os tf s = Some (ret, tf', s') \<Longrightarrow> is_int ret"
  "tf_cmd_dir_first os tf path result s = Some (ret, result', tf', s') \<Longrightarrow> is_int ret"
  "tf_cmd_dir_next os tf result s = Some (ret, result', tf', s') \<Longrightarrow> is_int ret"
  "tf_cmd_dir_cancel os tf s = Some (ret, tf', s') \<Longrightarrow> is_int ret"
  "tf_cmd_put os tf path sz stamp offset s = Some (ret, tf', s') \<Longrightarrow> is_int ret"
  "tf_cmd_put_done os tf s = Some (ret, tf', s') \<Longrightarrow> is_int ret"
  "tf_cmd_put_data os tf offset data s = Some (ret, tf', s') \<Longrightarrow> is_int ret"
  "tf_cmd_put_cancel os tf s = Some (ret, tf', s') \<Longrightarrow> is_int ret"
  "tf_cmd_get os tf path offset d s = Some (ret, d', tf', s') \<Longrightarrow> is_int ret"
  "handle_next os reply b tf s = Some (ret, b', tf', s') \<Longrightarrow> is_int ret"
  unfolding tf_cmd_size_def tf_init_def tf_cmd_dir_first_def tf_cmd_dir_next_def tf_cmd_dir_cancel_def tf_cmd_put_def
    tf_cmd_put_done_def tf_cmd_put_data_def tf_cmd_put_cancel_def tf_cmd_get_def handle_next_def Let_def
  by (auto split: run_splits intro: typed_results)

lemma stat_loop_result: "stat_loop os tf path entries d s = Some (ret, d', tf', s') \<Longrightarrow> ret \<in> {0, 1}"
proof -
  let ?P = "\<lambda>os tf path entries d s (r :: int \<times> tf_dirent \<times> tf_handle \<times> 'a sys). fst r \<in> {0, 1}"
  assume run: "stat_loop os tf path entries d s = Some (ret, d', tf', s')"
  have "?P os tf path entries d s (ret, d', tf', s')"
    by (rule stat_loop.raw_induct [where P = ?P, OF _ run]) (fastforce split: option.split_asm Option.bind_split_asm if_split_asm)
  then show ?thesis by simp
qed

lemma get_next_typed [typed_results]: "tf_cmd_get_next os tf b s = Some (ret, b', tf', s') \<Longrightarrow> is_int ret"
  unfolding tf_cmd_get_next_def Let_def by (auto split: run_splits intro: typed_results)

lemma stat_typed [typed_results]: "tf_stat os tf path entries d s = Some (ret, d', tf', s') \<Longrightarrow> is_int ret"
  unfolding tf_stat_def Let_def by (auto split: run_splits dest!: stat_loop_result)

lemma get_cancel_loop_typed: "get_cancel_loop os n ret tf s = Some (ret', tf', s') \<Longrightarrow> is_int ret \<Longrightarrow> is_int ret'"
  by (induction n arbitrary: ret tf s)
    (auto simp: Let_def split: run_splits intro: cmd_typed, blast intro: response_typed)

lemma get_cancel_typed [typed_results]: "tf_cmd_get_cancel os tf s = Some (ret, tf', s') \<Longrightarrow> is_int ret"
  unfolding tf_cmd_get_cancel_def by (auto split: run_splits dest: get_cancel_loop_typed)

lemma call_step_typed: "call_step os tf s c ret tf' s' \<Longrightarrow> is_int ret"
  by (erule call_stepE) (auto intro: typed_results)

section \<open>Typing of the handle\<close>

named_theorems typed_errors \<open>calls that leave an int in the field error\<close>

lemma link_error [typed_errors]:
  "tf_send os tf req s = (ret, tf', s') \<Longrightarrow> is_int (error tf')"
  "tf_get_response os tf reply s = Some (ret, m, tf', s') \<Longrightarrow> is_int (error tf')"
  "tf_cmd os tf req s = Some (ret, tf', s') \<Longrightarrow> is_int (error tf')"
  "tf_cmd_get_next os tf b s = Some (ret, b', tf', s') \<Longrightarrow> is_int (error tf')"
  "tf_cmd_get_cancel os tf s = Some (ret, tf', s') \<Longrightarrow> is_int (error tf')"
  using send_typed [of os tf req s ret tf' s'] tf_send_error [of os tf req s ret tf' s']
    response_typed [of os tf reply s ret m tf' s'] get_response_error [of os tf reply s ret m tf' s']
    cmd_typed [of os tf req s ret tf' s'] tf_cmd_error [of os tf req s ret tf' s']
    get_next_typed [of os tf b s ret b' tf' s'] get_next_steady [of os tf b s ret b' tf' s']
    get_cancel_typed [of os tf s ret tf' s'] get_cancel_steady [of os tf s ret tf' s']
  by auto

lemma command_error [typed_errors]:
  "tf_send_success os tf s = Some (ret, tf', s') \<Longrightarrow> is_int (error tf')"
  "tf_send_fail os tf reason s = Some (ret, tf', s') \<Longrightarrow> is_int (error tf')"
  "tf_cmd_cancel os tf s = Some (ret, tf', s') \<Longrightarrow> is_int (error tf')"
  "tf_cmd_ready os tf s = Some (ret, tf', s') \<Longrightarrow> is_int (error tf')"
  "tf_cmd_reset os tf s = Some (ret, tf', s') \<Longrightarrow> is_int (error tf')"
  "tf_cmd_turbo os tf on s = Some (ret, tf', s') \<Longrightarrow> is_int (error tf')"
  "tf_cmd_delete os tf path s = Some (ret, tf', s') \<Longrightarrow> is_int (error tf')"
  "tf_cmd_mkdir os tf path s = Some (ret, tf', s') \<Longrightarrow> is_int (error tf')"
  "tf_cmd_rename os tf path dest s = Some (ret, tf', s') \<Longrightarrow> is_int (error tf')"
  "get_dirents os tf result s = Some (ret, result', tf', s') \<Longrightarrow> is_int (error tf')"
  unfolding tf_send_success_def tf_send_fail_def tf_cmd_cancel_def tf_cmd_ready_def tf_cmd_reset_def tf_cmd_turbo_def
    tf_cmd_delete_def tf_cmd_mkdir_def tf_cmd_rename_def get_dirents_def Let_def
  by (auto split: run_splits intro: typed_errors)

lemma exchange_error [typed_errors]:
  "tf_cmd_size os tf r s = Some (ret, r', tf', s') \<Longrightarrow> is_int (error tf')"
  "tf_init os tf s = Some (ret, tf', s') \<Longrightarrow> is_int (error tf')"
  "tf_cmd_dir_first os tf path result s = Some (ret, result', tf', s') \<Longrightarrow> is_int (error tf')"
  "tf_cmd_dir_next os tf result s = Some (ret, result', tf', s') \<Longrightarrow> is_int (error tf')"
  "tf_cmd_dir_cancel os tf s = Some (ret, tf', s') \<Longrightarrow> is_int (error tf')"
  "tf_cmd_put os tf path sz stamp offset s = Some (ret, tf', s') \<Longrightarrow> is_int (error tf')"
  "tf_cmd_put_done os tf s = Some (ret, tf', s') \<Longrightarrow> is_int (error tf')"
  "tf_cmd_put_data os tf offset data s = Some (ret, tf', s') \<Longrightarrow> is_int (error tf')"
  "tf_cmd_put_cancel os tf s = Some (ret, tf', s') \<Longrightarrow> is_int (error tf')"
  "tf_cmd_get os tf path offset d s = Some (ret, d', tf', s') \<Longrightarrow> is_int (error tf')"
  unfolding tf_cmd_size_def tf_init_def tf_cmd_dir_first_def tf_cmd_dir_next_def tf_cmd_dir_cancel_def tf_cmd_put_def
    tf_cmd_put_done_def tf_cmd_put_data_def tf_cmd_put_cancel_def tf_cmd_get_def Let_def
  by (auto split: run_splits intro: typed_errors)

lemma stat_loop_error:
  assumes "stat_loop os tf path entries d s = Some (ret, d', tf', s')" and "is_int (error tf)"
  shows "is_int (error tf')"
proof -
  let ?P = "\<lambda>os tf path entries d s (r :: int \<times> tf_dirent \<times> tf_handle \<times> 'a sys).
    is_int (error tf) \<longrightarrow> is_int (error (fst (snd (snd r))))"
  have "?P os tf path entries d s (ret, d', tf', s')"
  proof (rule stat_loop.raw_induct [where P = ?P, OF _ assms(1)])
    fix stat_loop os tf path entries d s r
    assume 1: "\<And>os tf path entries d s r. stat_loop os tf path entries d s = Some r \<Longrightarrow> ?P os tf path entries d s r"
      "(case find_entry entries path 0 of
        Some d \<Rightarrow> Option.bind (tf_cmd_dir_cancel os tf s) (\<lambda>(_, tf, s). Some (0, d, tf, s))
      | None \<Rightarrow> Option.bind (tf_cmd_dir_next os tf entries s) (\<lambda>(ret, entries, tf, s).
          if ret = 0 then stat_loop os tf path entries d s else Some (1, d, tf, s))) = Some r"
    from 1(2) show "?P os tf path entries d s r"
      by (auto split: run_splits dest: 1(1) exchange_error(4,5))
  qed
  with assms(2) show ?thesis by simp
qed

lemma stat_error:
  "tf_stat os tf path entries d s = Some (ret, d', tf', s') \<Longrightarrow> is_int (error tf) \<Longrightarrow> is_int (error tf')"
  unfolding tf_stat_def Let_def
  by (auto split: run_splits dest: stat_loop_error exchange_error(3))

lemma call_step_error: "call_step os tf s c ret tf' s' \<Longrightarrow> is_int (error tf) \<Longrightarrow> is_int (error tf')"
  by (erule call_stepE) (auto intro: typed_errors stat_error)

lemma call_step_typed_handle:
  assumes "call_step os tf s c ret tf' s'" and "typed_handle tf" and "pending tf \<in> {0, 1}"
  shows "typed_handle tf' \<and> pending tf' \<in> {0, 1}"
  using call_step_steady [OF assms(1)] call_step_error [OF assms(1)] call_step_pending(1) [OF assms(1,3)] assms(2)
  by (auto simp: typed_handle_def steady_def same_session_def)

text \<open>The integers of a session are values of the C type \<^verbatim>\<open>int\<close>: if those of the handle are and twice
  its timeout is, then after every sequence of calls all of this still holds, and every result of
  every call is a value of \<^verbatim>\<open>int\<close>, negated reasons of the device included.\<close>

theorem session_typed:
  assumes "session os tf s calls tf' s'" and "typed_handle tf" and "pending tf = 0"
  shows "typed_handle tf' \<and> (\<forall>(c, ret) \<in> set calls. is_int ret)"
proof -
  have "typed_handle tf' \<and> pending tf' \<in> {0, 1} \<and> (\<forall>(c, ret) \<in> set calls. is_int ret)"
    using assms
  proof (induction rule: session.induct)
    case (session_call calls tf1 s1 c ret tf2 s2)
    with call_step_typed_handle [OF session_call.hyps(2)] call_step_typed [OF session_call.hyps(2)] show ?case by auto
  qed simp
  then show ?thesis by simp
qed

theorem session_typed_witness:
  "\<exists>tf' s'. session script_os script_handle script_transfer script_calls tf' s' \<and> typed_handle tf'"
proof -
  obtain tf1 s1 where run: "session script_os script_handle script_transfer script_calls tf1 s1"
    using script_session by blast
  have "typed_handle script_handle" by (simp add: typed_handle_def script_handle_def)
  from session_typed [OF run this] run show ?thesis by auto
qed

end
