(* ===== verification/Mjd_Double.thy ===== *)
theory Mjd_Double
  imports Mjd Complex_Main
begin

text \<open>
  The formulas of \<^verbatim>\<open>mjd.c\<close> as the code evaluates them, in \<^verbatim>\<open>double\<close>: every literal and every
  operation is rounded. The rounding is a parameter with the bounds that IEEE 754 gives for it,
  and the casts to \<^verbatim>\<open>int\<close> are shown to agree with the exact quotients that \<open>mjd_date\<close> and
  \<open>date_mjd\<close> use.
\<close>

section \<open>Definitions\<close>

text \<open>The cast of a \<^verbatim>\<open>double\<close> to \<^verbatim>\<open>int\<close>.\<close>

definition c_trunc :: "real \<Rightarrow> int" where
  "c_trunc x = (if x < 0 then \<lceil>x\<rceil> else \<lfloor>x\<rfloor>)"

definition mjd_date_double :: "(real \<Rightarrow> real) \<Rightarrow> int \<Rightarrow> int \<times> int \<times> int" where
  "mjd_date_double fl mjd =
     (let y = c_trunc (fl (fl (of_int mjd - fl 15078.2) / fl 365.25));
          m = c_trunc (fl (fl (fl (of_int mjd - fl 14956.1) - of_int (c_trunc (fl (of_int y * fl 365.25)))) / fl 30.6001));
          d = mjd - 14956 - c_trunc (fl (of_int y * fl 365.25)) - c_trunc (fl (of_int m * fl 30.6001));
          k = (if m = 14 \<or> m = 15 then 1 else 0);
          y = y + k;
          m = m - 1 - k * 12
      in (y, m - 1, d))"

definition date_mjd_double :: "(real \<Rightarrow> real) \<Rightarrow> int \<Rightarrow> int \<Rightarrow> int \<Rightarrow> int" where
  "date_mjd_double fl year mon mday =
     (let m = mon + 1;
          k = (if m = 1 \<or> m = 2 then 1 else 0)
      in 14956 + mday + c_trunc (fl (of_int (year - k) * fl 365.25)) + c_trunc (fl (of_int (m + 1 + k * 12) * fl 30.6001)))"

text \<open>
  What IEEE 754 promises of rounding to nearest in binary64, in the range that matters: the
  relative error is at most half a unit in the last place, with an absolute term for numbers
  below the normal range, and a number that is representable is not changed.
\<close>

definition ieee_double :: "(real \<Rightarrow> real) \<Rightarrow> bool" where
  "ieee_double fl \<longleftrightarrow> (\<forall>x. \<bar>x\<bar> \<le> 2 ^ 1000 \<longrightarrow> \<bar>fl x - x\<bar> \<le> \<bar>x\<bar> / 2 ^ 53 + 1 / 2 ^ 1000)
     \<and> (\<forall>n :: int. \<bar>n\<bar> \<le> 2 ^ 52 \<longrightarrow> fl (of_int n / 4) = of_int n / 4)"

text \<open>Rounding to 53 significant bits, for the witness.\<close>

definition nearest_double :: "real \<Rightarrow> real" where
  "nearest_double x = (let u = 2 powr (\<lfloor>log 2 \<bar>x\<bar>\<rfloor> - 52) in of_int (round (x / u)) * u)"

section \<open>Casts\<close>

lemma c_div_neg: "a < 0 \<Longrightarrow> 0 < b \<Longrightarrow> c_div a b = - (- a div b)"
  by (simp add: c_div_def)

lemma c_trunc_quotient:
  assumes "0 < b"
  shows "c_trunc (of_int a / of_int b) = c_div a b"
proof (cases "a < 0")
  case True
  with assms have "of_int a / of_int b < (0 :: real)" by (simp add: divide_neg_pos)
  moreover have "\<lceil>of_int a / of_int b :: real\<rceil> = - (- a div b)" by (rule ceiling_divide_eq_div)
  ultimately show ?thesis using True assms by (simp add: c_trunc_def c_div_neg)
next
  case False
  with assms have "\<not> of_int a / of_int b < (0 :: real)" by (simp add: divide_less_0_iff)
  with False assms show ?thesis by (simp add: c_trunc_def floor_divide_of_int_eq)
qed

text \<open>An error of less than \<open>1 / b\<close> does not change the cast of a quotient that is not an integer.\<close>

lemma c_trunc_near:
  assumes "0 < b" and "\<not> b dvd a" and "\<bar>x - of_int a / of_int b\<bar> < 1 / of_int b"
  shows "c_trunc x = c_div a b"
proof -
  define q where "q = a div b"
  define r where "r = a mod b"
  have a: "a = b * q + r" and "r < b" "0 \<le> r" "r \<noteq> 0"
    using assms(1,2) by (simp_all add: q_def r_def dvd_eq_mod_eq_0)
  then have r: "0 < r" "r < b" by simp_all
  have "of_int a / of_int b = (of_int q + of_int r / of_int b :: real)"
    using assms(1) by (simp add: a field_simps)
  moreover have "1 / of_int b \<le> (of_int r / of_int b :: real)" "of_int r / of_int b \<le> (1 - 1 / of_int b :: real)"
    using r by (simp_all add: field_simps)
  ultimately have x: "of_int q < x" "x < of_int q + 1" using assms(3) by linarith+
  then have f: "\<lfloor>x\<rfloor> = q" and c: "\<lceil>x\<rceil> = q + 1" by (simp_all add: floor_eq_iff ceiling_eq_iff)
  show ?thesis
  proof (cases "a < 0")
    case True
    then have "q < 0" using assms(1) by (simp add: q_def div_neg_pos_less0)
    then have "of_int q + 1 \<le> (0 :: real)" by linarith
    then have "x < 0" using x by linarith
    moreover have "- (- a div b) = q + 1"
      using zdiv_zminus1_eq_if [of b a] assms(1,2) by (simp add: q_def dvd_eq_mod_eq_0)
    ultimately show ?thesis using True assms(1) c by (simp add: c_trunc_def c_div_neg)
  next
    case False
    then have "0 \<le> q" using assms(1) by (simp add: q_def pos_imp_zdiv_nonneg_iff)
    then have "\<not> x < 0" using x by linarith
    with False assms(1) f show ?thesis by (simp add: c_trunc_def q_def)
  qed
qed

section \<open>Rounding errors\<close>

text \<open>All numbers in the formulas are below one million, so one rounding moves them by less than
  \<open>1 / 1000000000\<close>.\<close>

abbreviation (input) eps :: real where "eps \<equiv> 1 / 1000000000"

lemma round_error:
  assumes "ieee_double fl" and "\<bar>x\<bar> \<le> 1000000"
  shows "\<bar>fl x - x\<bar> \<le> eps"
proof -
  have "(1000000 :: real) \<le> 2 ^ 1000"
    by (rule order_trans [of _ "2 ^ 20"]) (simp, rule power_increasing, simp_all)
  with assms have "\<bar>fl x - x\<bar> \<le> \<bar>x\<bar> / 2 ^ 53 + 1 / 2 ^ 1000" by (auto simp: ieee_double_def)
  also have "\<bar>x\<bar> / 2 ^ 53 \<le> 1000000 / 2 ^ 53" using assms(2) by (rule divide_right_mono) simp
  also have "1 / 2 ^ 1000 \<le> 1 / (2 :: real) ^ 53"
    by (rule divide_left_mono) (rule power_increasing, simp_all)
  finally show ?thesis by simp
qed

lemma literals: "365.25 = (of_int 1461 / 4 :: real)" "30.6001 = (306001 / 10000 :: real)" "15078.2 = (75391 / 5 :: real)"
  by simp_all

lemma round_quarters:
  "ieee_double fl \<Longrightarrow> \<bar>n\<bar> \<le> 2 ^ 52 \<Longrightarrow> fl (of_int n / 4) = of_int n / 4"
  by (simp add: ieee_double_def)

lemma round_year: "ieee_double fl \<Longrightarrow> fl 365.25 = 1461 / 4"
  using round_quarters [of fl 1461] by (simp add: literals)

lemma year_days:
  assumes "ieee_double fl" and "\<bar>y\<bar> \<le> 10 ^ 12"
  shows "c_trunc (fl (of_int y * fl 365.25)) = c_div (1461 * y) 4"
proof -
  have "fl (of_int (1461 * y) / 4) = of_int (1461 * y) / 4"
    using assms(2) by (intro round_quarters [OF assms(1)]) (simp add: abs_mult)
  moreover have "of_int y * (1461 / 4) = (of_int (1461 * y) / 4 :: real)" by simp
  ultimately have "fl (of_int y * fl 365.25) = of_int (1461 * y) / of_int 4"
    by (simp only: round_year [OF assms(1)] of_int_numeral)
  then show ?thesis by (simp only: c_trunc_quotient zero_less_numeral)
qed

lemma month_days_exact:
  assumes "ieee_double fl" and "\<bar>m\<bar> \<le> 100"
  shows "c_trunc (fl (of_int m * fl 30.6001)) = c_div (306001 * m) 10000"
proof (cases "m = 0")
  case True
  have "fl 0 = 0" using round_quarters [OF assms(1), of 0] by simp
  with True show ?thesis by (simp add: c_trunc_def)
next
  case False
  have "\<not> 10000 dvd 306001 * m"
  proof
    assume "10000 dvd 306001 * m"
    then have "10000 dvd 4001 * (306001 * m) - 10000 * (122431 * m)"
      by (rule dvd_diff [OF dvd_mult dvd_triv_left])
    also have "4001 * (306001 * m) - 10000 * (122431 * m) = m" by simp
    finally have "10000 dvd m" .
    from dvd_imp_le_int [OF False this] assms(2) show False by simp
  qed
  moreover have "\<bar>fl (of_int m * fl 30.6001) - of_int (306001 * m) / of_int 10000\<bar> < 1 / of_int 10000"
  proof -
    have c: "\<bar>fl 30.6001 - 306001 / 10000\<bar> \<le> eps"
      using round_error [OF assms(1), of "30.6001"] unfolding literals by simp
    have m: "\<bar>of_int m :: real\<bar> \<le> 100" using assms(2) by linarith
    have "\<bar>of_int m * (fl 30.6001 - 306001 / 10000)\<bar> \<le> 100 * eps"
      unfolding abs_mult by (rule mult_mono [OF m c]) simp_all
    then have p: "\<bar>of_int m * fl 30.6001 - of_int m * (306001 / 10000)\<bar> \<le> 100 * eps" by (simp only: right_diff_distrib)
    have "\<bar>of_int m * fl 30.6001\<bar> \<le> 100 * 31"
      unfolding abs_mult by (rule mult_mono [OF m]) (use c in linarith, simp_all)
    then have r: "\<bar>fl (of_int m * fl 30.6001) - of_int m * fl 30.6001\<bar> \<le> eps"
      by (intro round_error [OF assms(1)]) linarith
    have "of_int (306001 * m) / of_int 10000 = (of_int m * (306001 / 10000) :: real)" by simp
    with p r show ?thesis by linarith
  qed
  ultimately show ?thesis by (intro c_trunc_near) simp_all
qed

section \<open>The day number of a year\<close>

lemma year_not_exact: "\<not> 7305 dvd (20 * mjd - 301564 :: int)"
proof
  assume "7305 dvd (20 * mjd - 301564 :: int)"
  then obtain k where "20 * mjd - 301564 = 7305 * k" ..
  then have "301564 = 5 * (4 * mjd - 1461 * k)" by simp
  then have "5 dvd (301564 :: int)" by (rule dvdI)
  then show False by simp
qed

lemma year_double:
  assumes "ieee_double fl" and "0 \<le> mjd" and "mjd \<le> 65535"
  shows "c_trunc (fl (fl (of_int mjd - fl 15078.2) / fl 365.25)) = c_div (20 * mjd - 301564) 7305"
proof (rule c_trunc_near)
  define a where "a = fl 15078.2"
  define x where "x = fl (of_int mjd - a)"
  have 1: "\<bar>a - 75391 / 5\<bar> \<le> eps"
    using round_error [OF assms(1), of "15078.2"] unfolding literals a_def by simp
  have mjd: "(0 :: real) \<le> of_int mjd" "of_int mjd \<le> (65535 :: real)" using assms(2,3) by linarith+
  then have "\<bar>of_int mjd - a\<bar> \<le> 1000000" using 1 by linarith
  from round_error [OF assms(1) this] have 2: "\<bar>x - (of_int mjd - a)\<bar> \<le> eps" by (simp only: x_def)
  have q: "fl (of_int mjd - fl 15078.2) / fl 365.25 = 4 * x / 1461"
    unfolding round_year [OF assms(1)] a_def [symmetric] x_def [symmetric] by simp
  have "\<bar>4 * x / 1461\<bar> \<le> 1000000" using mjd 1 2 by linarith
  define r where "r = fl (4 * x / 1461)"
  from round_error [OF assms(1) \<open>\<bar>4 * x / 1461\<bar> \<le> 1000000\<close>] have 3: "\<bar>r - 4 * x / 1461\<bar> \<le> eps" by (simp only: r_def)
  have e: "of_int (20 * mjd - 301564) / 7305 = 4 * (of_int mjd - 75391 / 5) / (1461 :: real)" by simp
  show "\<bar>fl (fl (of_int mjd - fl 15078.2) / fl 365.25) - of_int (20 * mjd - 301564) / of_int 7305\<bar> < 1 / of_int 7305"
    unfolding q r_def [symmetric] of_int_numeral e using 1 2 3 unfolding abs_le_iff abs_less_iff by (intro conjI; simp add: field_simps)
qed (simp_all add: year_not_exact)

section \<open>The month\<close>

text \<open>The days left after the years are at most about a year, which bounds the month number.\<close>

lemma days_left_bounds:
  fixes mjd :: int
  assumes "0 \<le> mjd" and "mjd \<le> 65535"
  defines "y \<equiv> c_div (20 * mjd - 301564) 7305"
  shows "\<bar>y\<bar> \<le> 200" and "14700 \<le> mjd - c_div (1461 * y) 4" and "mjd - c_div (1461 * y) 4 \<le> 15460"
proof -
  have div: "c_div a b * b - b < a \<and> a < c_div a b * b + b" if "0 < b" for a b :: int
  proof (cases "a < 0")
    case True
    have "- a div b * b \<le> - a \<and> - a < - a div b * b + b"
      using div_mult_mod_eq [of "- a" b] pos_mod_bound [OF that, of "- a"] pos_mod_sign [OF that, of "- a"] by linarith
    with True that show ?thesis by (simp add: c_div_neg)
  next
    case False
    have "a div b * b \<le> a \<and> a < a div b * b + b"
      using div_mult_mod_eq [of a b] pos_mod_bound [OF that, of a] pos_mod_sign [OF that, of a] by linarith
    with False that show ?thesis by simp
  qed
  from div [of 7305 "20 * mjd - 301564"] have y: "y * 7305 - 7305 < 20 * mjd - 301564" "20 * mjd - 301564 < y * 7305 + 7305"
    by (simp_all add: y_def)
  with assms(1,2) show "\<bar>y\<bar> \<le> 200" by linarith
  from div [of 4 "1461 * y"] have "c_div (1461 * y) 4 * 4 - 4 < 1461 * y" "1461 * y < c_div (1461 * y) 4 * 4 + 4"
    by simp_all
  with y show "14700 \<le> mjd - c_div (1461 * y) 4" "mjd - c_div (1461 * y) 4 \<le> 15460" by linarith+
qed

lemma month_not_exact:
  assumes "14700 \<le> n" and "n \<le> 15460"
  shows "\<not> 306001 dvd (10000 * n - 149561000 :: int)"
proof
  assume "306001 dvd (10000 * n - 149561000 :: int)"
  then obtain k where k: "10000 * n - 149561000 = 306001 * k" ..
  define j where "j = 10 * n - 149561 - 306 * k"
  have "k = 1000 * j" using k by (simp add: j_def)
  moreover have "-9 < k" "k < 17" using k assms by linarith+
  ultimately have "j < 1" "-1 < j" by linarith+
  then have "149561 = 10 * n" using k \<open>k = 1000 * j\<close> by simp
  then have "10 dvd (149561 :: int)" by (rule dvdI)
  then show False by simp
qed

lemma month_bounds:
  assumes "14700 \<le> n" and "n \<le> 15460"
  shows "\<bar>c_div (10000 * n - 149561000) 306001\<bar> \<le> 100"
proof (cases "10000 * n < 149561000")
  case True
  have "(- (10000 * n - 149561000)) div 306001 \<le> 3000000 div 306001" using assms by (intro zdiv_mono1) simp_all
  moreover have "0 \<le> (- (10000 * n - 149561000)) div 306001" using True by (intro pos_imp_zdiv_nonneg_iff [THEN iffD2]) simp_all
  ultimately show ?thesis using True by (simp add: c_div_neg)
next
  case False
  have "(10000 * n - 149561000) div 306001 \<le> 6000000 div 306001" using assms by (intro zdiv_mono1) simp_all
  with False show ?thesis by simp
qed

lemma month_double:
  assumes "ieee_double fl" and "14700 \<le> mjd - Y" and "mjd - Y \<le> 15460" and "0 \<le> mjd" and "mjd \<le> 65535"
  shows "c_trunc (fl (fl (fl (of_int mjd - fl 14956.1) - of_int Y) / fl 30.6001)) = c_div (10000 * (mjd - Y) - 149561000) 306001"
proof (rule c_trunc_near)
  define a where "a = fl 14956.1"
  define x where "x = fl (of_int mjd - a)"
  define z where "z = fl (x - of_int Y)"
  define c where "c = fl 30.6001"
  have 1: "\<bar>a - 149561 / 10\<bar> \<le> eps"
    using round_error [OF assms(1), of "14956.1"] unfolding a_def by simp
  have c: "\<bar>c - 306001 / 10000\<bar> \<le> eps"
    using round_error [OF assms(1), of "30.6001"] unfolding literals c_def by simp
  have mjd: "(0 :: real) \<le> of_int mjd" "of_int mjd \<le> (65535 :: real)" using assms(4,5) by linarith+
  have Y: "(14700 :: real) \<le> of_int mjd - of_int Y" "of_int mjd - of_int Y \<le> (15460 :: real)" using assms(2,3) by linarith+
  have "\<bar>of_int mjd - a\<bar> \<le> 1000000" using mjd 1 by linarith
  from round_error [OF assms(1) this] have 2: "\<bar>x - (of_int mjd - a)\<bar> \<le> eps" by (simp only: x_def)
  have "\<bar>x - of_int Y\<bar> \<le> 1000000" using Y 1 2 by linarith
  from round_error [OF assms(1) this] have 3: "\<bar>z - (x - of_int Y)\<bar> \<le> eps" by (simp only: z_def)
  have z: "\<bar>z - (of_int mjd - of_int Y - 149561 / 10)\<bar> \<le> 3 * eps" "\<bar>z\<bar> \<le> 1000"
    using Y 1 2 3 by linarith+
  have pos: "30 < c" "c < 31" using c by linarith+
  have "\<bar>z / c\<bar> \<le> 1000000" 
  proof -
    have "\<bar>z / c\<bar> \<le> 1000 / 30"
      unfolding abs_divide using z(2) pos by (intro frac_le) simp_all
    then show ?thesis by (rule order_trans) simp
  qed
  from round_error [OF assms(1) this] have 4: "\<bar>fl (z / c) - z / c\<bar> \<le> eps" .
  have 5: "\<bar>z / c - z * 10000 / 306001\<bar> \<le> 1000 * eps"
  proof -
    have "z / c - z * 10000 / 306001 = z * ((306001 / 10000 - c) / (c * (306001 / 10000)))"
      using pos by (simp add: field_simps)
    also have "\<bar>\<dots>\<bar> \<le> 1000 * eps"
      unfolding abs_mult
    proof (rule mult_mono [OF z(2)])
      let ?d = "c * (306001 / 10000)"
      have "1 * 1 \<le> ?d" using pos by (intro mult_mono) simp_all
      then have d: "1 \<le> ?d" by simp
      then have "\<bar>(306001 / 10000 - c) / ?d\<bar> = \<bar>306001 / 10000 - c\<bar> / ?d"
        by (simp only: abs_divide abs_of_pos order_less_le_trans [OF zero_less_one])
      also have "\<dots> \<le> \<bar>306001 / 10000 - c\<bar> / 1" using d by (intro divide_left_mono) simp_all
      also have "\<dots> \<le> eps" using c by (simp only: div_by_1 abs_minus_commute)
      finally show "\<bar>(306001 / 10000 - c) / ?d\<bar> \<le> eps" .
    qed simp_all
    finally show ?thesis .
  qed
  have e: "of_int (10000 * (mjd - Y) - 149561000) / 306001 = (of_int mjd - of_int Y - 149561 / 10) * 10000 / (306001 :: real)" by simp
  show "\<bar>fl (fl (fl (of_int mjd - fl 14956.1) - of_int Y) / fl 30.6001) - of_int (10000 * (mjd - Y) - 149561000) / of_int 306001\<bar> < 1 / of_int 306001"
    unfolding c_def [symmetric] a_def [symmetric] x_def [symmetric] z_def [symmetric] of_int_numeral e using z(1) 4 5 unfolding abs_le_iff abs_less_iff by (intro conjI; simp add: field_simps)
qed (rule zero_less_numeral month_not_exact [OF assms(2,3)])+

section \<open>The conversions\<close>

lemma nearest_double_ieee: "ieee_double nearest_double"
proof -
  have err: "\<bar>nearest_double x - x\<bar> \<le> \<bar>x\<bar> / 2 ^ 53" for x
  proof (cases "x = 0")
    case True
    then show ?thesis by (simp add: nearest_double_def)
  next
    case False
    define e where "e = \<lfloor>log 2 \<bar>x\<bar>\<rfloor>"
    define u :: real where "u = 2 powr (e - 52)"
    have u: "0 < u" by (simp add: u_def)
    have "2 powr e \<le> 2 powr (log 2 \<bar>x\<bar>)" by (simp add: e_def)
    also have "\<dots> = \<bar>x\<bar>" using False by (simp add: powr_log_cancel)
    finally have "2 powr e \<le> \<bar>x\<bar>" .
    moreover have "u = 2 powr e / 2 ^ 52" by (simp add: u_def powr_diff powr_realpow [symmetric])
    ultimately have ux: "u / 2 \<le> \<bar>x\<bar> / 2 ^ 53" by (simp add: field_simps)
    have "nearest_double x - x = (of_int (round (x / u)) - x / u) * u"
      using u by (simp add: nearest_double_def Let_def u_def e_def field_simps)
    then have "\<bar>nearest_double x - x\<bar> = \<bar>of_int (round (x / u)) - x / u\<bar> * u" using u by (simp add: abs_mult)
    also have "\<dots> \<le> 1 / 2 * u" using u by (intro mult_right_mono of_int_round_abs_le) simp_all
    finally show ?thesis using ux by simp
  qed
  have "nearest_double (of_int n / 4) = of_int n / 4" if "\<bar>n\<bar> \<le> 2 ^ 52" for n :: int
  proof (cases "n = 0")
    case True
    then show ?thesis by (simp add: nearest_double_def)
  next
    case False
    let ?x = "of_int n / 4 :: real"
    define e where "e = \<lfloor>log 2 \<bar>?x\<bar>\<rfloor>"
    have "\<bar>of_int n :: real\<bar> \<le> 2 ^ 52" using that by (metis of_int_abs of_int_le_iff of_int_numeral of_int_power)
    then have "\<bar>?x\<bar> \<le> 2 powr 50" by (simp add: powr_realpow [symmetric] field_simps)
    moreover have "0 < \<bar>?x\<bar>" using False by simp
    ultimately have "log 2 \<bar>?x\<bar> \<le> 50" by (simp add: log_le_iff del: abs_divide)
    then have e: "e \<le> 50" by (simp add: e_def floor_le_iff)
    define k where "k = nat (50 - e)"
    have "(2 :: real) powr (e - 52) = 2 powr (- of_nat (k + 2))" using e by (simp add: k_def)
    also have "\<dots> = 1 / 2 ^ (k + 2)" by (simp only: powr_minus_divide powr_realpow zero_less_numeral)
    finally have u: "(2 :: real) powr (e - 52) = 1 / 2 ^ (k + 2)" .
    have "?x / (1 / 2 ^ (k + 2)) = of_int (n * 2 ^ k)" by (simp add: power_add)
    then show ?thesis
      unfolding nearest_double_def Let_def e_def [symmetric] u by (simp only: round_of_int) (simp add: power_add)
  qed
  with err show ?thesis
    unfolding ieee_double_def by (meson add_increasing2 order_trans zero_le_divide_1_iff zero_le_numeral zero_le_power)
qed

text \<open>C37. The date arithmetic in \<^verbatim>\<open>double\<close> is exact: for every rounding that keeps to IEEE 754, every
  day number of 16 bits and every month and year of a \<^verbatim>\<open>struct tm\<close> within a billion years, the
  formulas with their rounded literals and operations give the same integers as exact quotients.\<close>

theorem mjd_double_exact:
  assumes "ieee_double fl" and "0 \<le> mjd" and "mjd \<le> 65535" and "\<bar>year\<bar> \<le> 10 ^ 9" and "0 \<le> mon" and "mon < 12"
  shows "mjd_date_double fl mjd = mjd_date mjd \<and> date_mjd_double fl year mon mday = date_mjd year mon mday"
proof
  note mjd = assms(2,3)
  let ?y = "c_div (20 * mjd - 301564) 7305"
  note b = days_left_bounds [OF mjd]
  have y: "c_trunc (fl (of_int ?y * fl 365.25)) = c_div (1461 * ?y) 4"
    using b(1) by (intro year_days [OF assms(1)]) simp
  have m: "c_trunc (fl (of_int (c_div (10000 * (mjd - c_div (1461 * ?y) 4) - 149561000) 306001) * fl 30.6001))
      = c_div (306001 * c_div (10000 * (mjd - c_div (1461 * ?y) 4) - 149561000) 306001) 10000"
    by (rule month_days_exact [OF assms(1) month_bounds [OF b(2,3)]])
  show "mjd_date_double fl mjd = mjd_date mjd"
    unfolding mjd_date_double_def mjd_date_def year_double [OF assms(1) mjd] Let_def y
      month_double [OF assms(1) b(2,3) mjd] m ..
  define k :: int where "k = (if mon + 1 = 1 \<or> mon + 1 = 2 then 1 else 0)"
  have "0 \<le> k" "k \<le> 1" by (simp_all add: k_def)
  with assms(4-6) have "\<bar>year - k\<bar> \<le> 10 ^ 12" "\<bar>mon + 1 + 1 + k * 12\<bar> \<le> 100" by simp_all
  then show "date_mjd_double fl year mon mday = date_mjd year mon mday"
    unfolding date_mjd_double_def date_mjd_def Let_def k_def [symmetric]
    by (simp only: year_days [OF assms(1)] month_days_exact [OF assms(1)])
qed

theorem mjd_double_exact_witness:
  "mjd_date_double nearest_double 53736 = (106, 0, 1) \<and> date_mjd_double nearest_double 106 0 1 = 53736"
proof -
  have "mjd_date 53736 = (106, 0, 1)" by (simp add: mjd_date_def Let_def)
  moreover have "date_mjd 106 0 1 = 53736" by (simp add: date_mjd_def Let_def)
  moreover have "(106 :: int) \<le> 10 ^ 9" by simp
  ultimately show ?thesis
    using mjd_double_exact [OF nearest_double_ieee, of 53736 106 0 1] by (simp only: abs_numeral)
qed

end
