(* ===== verification/Tf_Makename.thy ===== *)
theory Tf_Makename
  imports Tf_Dir
begin

text \<open>
  \<^verbatim>\<open>tf_makename\<close> of \<^verbatim>\<open>tf_util.c\<close>: joining a directory and a file name into an absolute path
  without \<^verbatim>\<open>..\<close> components. The allocated buffer is the list of the characters in front of the
  write pointer \<^verbatim>\<open>pt\<close>, together with the allocated size; a write behind the allocation is \<open>None\<close>.
\<close>

section \<open>Definitions\<close>

text \<open>The start of \<open>src\<close> is a \<^verbatim>\<open>..\<close> component, ended by a slash or the end of the string.\<close>

definition at_dotdot :: "string \<Rightarrow> bool" where
  "at_dotdot src \<longleftrightarrow> take 2 src = ''..'' \<and> (length src = 2 \<or> src ! 2 = CHR ''/'')"

text \<open>\<^verbatim>\<open>pt[-1] = 0; pt = strrchr(buf, '/') + 1\<close>, or back to the leading slash.\<close>

definition back_up :: "string \<Rightarrow> string option" where
  "back_up out =
     (if length out > 1 then do {
        i \<leftarrow> last_slash (butlast out);
        Some (take (i + 1) out)
      }
      else Some (take 1 out))"

text \<open>One of the two copying loops.\<close>

function copy_name :: "nat \<Rightarrow> string \<Rightarrow> string \<Rightarrow> string option" where
  "copy_name cap out src =
     (case src of
        [] \<Rightarrow> Some out
      | c # rest \<Rightarrow>
          if last out = CHR ''/'' \<and> at_dotdot src then do {
            out \<leftarrow> back_up out;
            copy_name cap out (drop 3 src)
          }
          else if length out < cap then copy_name cap (out @ [c]) rest
          else None)"
  by pat_completeness auto
termination
  by (relation "measure (\<lambda>(cap, out, src). length src)") auto

declare copy_name.simps [simp del]

definition tf_makename :: "string \<Rightarrow> string option \<Rightarrow> string option" where
  "tf_makename dir filename =
     (let cap = 1 + length dir + 1 + length (case filename of None \<Rightarrow> [] | Some f \<Rightarrow> f) + 1;
          out = ''/'';
          (dir, filename) = (case filename of
             Some (c # f) \<Rightarrow> if c = CHR ''/'' then (c # f, None) else (dir, filename)
           | _ \<Rightarrow> (dir, filename));
          dir = (if take 1 dir = ''/'' then tl dir else dir)
      in do {
        out \<leftarrow> copy_name cap out dir;
        out \<leftarrow> (case filename of
           None \<Rightarrow> Some out
         | Some f \<Rightarrow> do {
             out \<leftarrow> (if last out \<noteq> CHR ''/'' then if length out < cap then Some (out @ ''/'') else None else Some out);
             copy_name cap out (if take 1 f = ''/'' then tl f else f)
           });
        let out = (if length out > 1 \<and> last out = CHR ''/'' then butlast out else out);
        (if length out < cap then Some out else None)
      })"

text \<open>
  Specification: a path is the list of its components; one final empty component, behind a
  trailing slash, does not count. Resolving drops the component before each \<^verbatim>\<open>..\<close>.
\<close>

fun split_slash :: "string \<Rightarrow> string list" where
  "split_slash [] = [[]]"
| "split_slash (c # s) = (if c = CHR ''/'' then [] # split_slash s
     else (c # hd (split_slash s)) # tl (split_slash s))"

definition trim :: "string list \<Rightarrow> string list" where
  "trim cs = (if last cs = [] then butlast cs else cs)"

definition components :: "string \<Rightarrow> string list" where
  "components s = trim (split_slash (if take 1 s = ''/'' then tl s else s))"

definition resolve :: "string list \<Rightarrow> string list \<Rightarrow> string list" where
  "resolve = foldl (\<lambda>st c. if c = ''..'' then butlast st else st @ [c])"

definition render :: "string list \<Rightarrow> string" where
  "render st = CHR ''/'' # concat (map (\<lambda>c. c @ ''/'') st)"

definition join_path :: "string list \<Rightarrow> string" where
  "join_path st = (if st = [] then ''/'' else butlast (render st))"

section \<open>Copying components\<close>

text \<open>
  The copying loop on components: \<open>st\<close> are the components that end with a slash in the buffer,
  \<open>cur\<close> is what stands behind the last slash.
\<close>

fun absorb :: "string list \<Rightarrow> string \<Rightarrow> string list \<Rightarrow> string list \<times> string" where
  "absorb st cur [] = (st, cur)"
| "absorb st cur [c] = (if cur = [] \<and> c = ''..'' then (butlast st, []) else (st, cur @ c))"
| "absorb st cur (c # d # cs) =
     (if cur = [] \<and> c = ''..'' then absorb (butlast st) [] (d # cs) else absorb (st @ [cur @ c]) [] (d # cs))"

definition slash_free :: "string list \<Rightarrow> bool" where
  "slash_free st \<longleftrightarrow> (\<forall>c \<in> set st. CHR ''/'' \<notin> set c)"

lemma slash_free_simps [simp]:
  "slash_free []" "slash_free (c # st) \<longleftrightarrow> CHR ''/'' \<notin> set c \<and> slash_free st"
  "slash_free (st @ st') \<longleftrightarrow> slash_free st \<and> slash_free st'"
  by (auto simp: slash_free_def)

lemma slash_free_butlast: "slash_free st \<Longrightarrow> slash_free (butlast st)"
  by (auto simp: slash_free_def dest: in_set_butlastD)

lemma render_snoc: "render (st @ [c]) = render st @ c @ ''/''"
  by (simp add: render_def)

lemma render_simps [simp]: "render [] = ''/''" "render st \<noteq> []" "last (render st) = CHR ''/''"
proof -
  show "last (render st) = CHR ''/''"
    by (cases st rule: rev_cases) (simp_all add: render_snoc, simp add: render_def)
qed (simp_all add: render_def)

lemma length_render_gt_1: "length (render st) > 1 \<longleftrightarrow> st \<noteq> []"
  by (cases st) (simp_all add: render_def)

lemma last_render_append: "CHR ''/'' \<notin> set cur \<Longrightarrow> last (render st @ cur) = CHR ''/'' \<longleftrightarrow> cur = []"
  by (cases cur rule: rev_cases) auto

lemma last_slash_render: "CHR ''/'' \<notin> set c \<Longrightarrow> last_slash (render st @ c) = Some (length (render st) - 1)"
proof -
  assume c: "CHR ''/'' \<notin> set c"
  have "render st = butlast (render st) @ ''/''"
    by (metis append_butlast_last_id render_simps(2,3))
  then have "last_slash (render st @ c) = last_slash (butlast (render st) @ CHR ''/'' # c)"
    by (metis append.assoc append_Cons append_Nil)
  then show ?thesis by (simp add: last_slash_append [OF c])
qed

lemma back_up_render: "slash_free st \<Longrightarrow> back_up (render st) = Some (render (butlast st))"
proof (cases st rule: rev_cases)
  case (snoc st0 c)
  assume "slash_free st"
  then have c: "CHR ''/'' \<notin> set c" by (simp add: snoc)
  have "length (render st) > 1" by (simp only: length_render_gt_1) (simp add: snoc)
  moreover have "butlast (render st) = render st0 @ c" by (simp add: snoc render_snoc butlast_append)
  ultimately show ?thesis
    by (simp add: back_up_def last_slash_render [OF c] Suc_diff_1 length_greater_0_conv) (simp add: snoc render_snoc)
qed (simp add: back_up_def)

lemma split_slash_nonempty [simp]: "split_slash s \<noteq> []"
  by (cases s) simp_all

lemma slash_free_split: "slash_free (split_slash s)"
proof (induction s)
  case (Cons c s)
  then show ?case by (cases "split_slash s") auto
qed simp

lemma split_slash_slash: "split_slash (CHR ''/'' # s) = [] # split_slash s"
  by simp

lemma at_dotdot_cases:
  "at_dotdot src \<longleftrightarrow> src = ''..'' \<or> (\<exists>s. src = CHR ''.'' # CHR ''.'' # CHR ''/'' # s)"
proof
  assume dd: "at_dotdot src"
  then obtain s where src: "src = CHR ''.'' # CHR ''.'' # s"
    unfolding at_dotdot_def by (metis append_Cons append_Nil append_take_drop_id)
  with dd show "src = ''..'' \<or> (\<exists>s. src = CHR ''.'' # CHR ''.'' # CHR ''/'' # s)"
    by (cases s) (auto simp: at_dotdot_def)
qed (auto simp: at_dotdot_def)

lemma at_dotdot_split: "at_dotdot src \<longleftrightarrow> hd (split_slash src) = ''..''"
proof
  assume hd: "hd (split_slash src) = ''..''"
  then obtain c s where src: "src = c # s" by (cases src) auto
  with hd have c: "c = CHR ''.''" "hd (split_slash s) = ''.''" by (auto split: if_splits)
  then obtain d t where s: "s = d # t" by (cases s) auto
  with c have d: "d = CHR ''.''" "hd (split_slash t) = []" by (auto split: if_splits)
  then have "t = [] \<or> hd t = CHR ''/''" by (cases t) (auto split: if_splits)
  with src s c d show "at_dotdot src" unfolding at_dotdot_cases by (cases t) auto
qed (auto simp: at_dotdot_cases)

lemma length_render_butlast: "length (render (butlast st)) \<le> length (render st)"
  by (cases st rule: rev_cases) (simp_all add: render_snoc)

text \<open>The two steps of the loop: a component that goes up, and any other character.\<close>

lemma copy_name_up:
  assumes "cur = [] \<and> at_dotdot src" and "slash_free st"
  shows "copy_name cap (render st @ cur) src = copy_name cap (render (butlast st) @ []) (drop 3 src)"
proof -
  obtain c s where src: "src = c # s" using assms(1) by (cases src) (auto simp: at_dotdot_cases)
  have "back_up (render st @ cur) = Some (render (butlast st))" using assms(1) back_up_render [OF assms(2)] by simp
  with assms(1) show ?thesis by (subst copy_name.simps) (simp add: src)
qed

lemma copy_name_char:
  "\<not> (last out = CHR ''/'' \<and> at_dotdot (c # s)) \<Longrightarrow> length out < cap \<Longrightarrow> copy_name cap out (c # s) = copy_name cap (out @ [c]) s"
  by (subst copy_name.simps) auto

lemma copy_name_absorb:
  assumes "CHR ''/'' \<notin> set cur" and "slash_free st" and "length (render st @ cur) + length src < cap"
    and "absorb st cur (split_slash src) = (st', cur')"
  shows "copy_name cap (render st @ cur) src = Some (render st' @ cur')
    \<and> CHR ''/'' \<notin> set cur' \<and> slash_free st' \<and> length (render st' @ cur') \<le> length (render st @ cur) + length src"
  using assms
proof (induction src arbitrary: st cur rule: length_induct)
  case (1 src)
  show ?case
  proof (cases src)
    case Nil
    with 1 show ?thesis by (subst copy_name.simps) (auto split: if_splits)
  next
    case src: (Cons c s)
    obtain h t where ht: "split_slash s = h # t" by (cases "split_slash s") auto
    show ?thesis
    proof (cases "cur = [] \<and> at_dotdot src")
      case True
      note step = copy_name_up [OF True 1(3), of cap] and len = length_render_butlast [of st]
      from True have "src = ''..'' \<or> (\<exists>s. src = CHR ''.'' # CHR ''.'' # CHR ''/'' # s)" by (simp add: at_dotdot_cases)
      then show ?thesis
      proof
        assume two: "src = ''..''"
        have "copy_name cap (render (butlast st) @ []) [] = Some (render (butlast st))" by (subst copy_name.simps) simp
        with step two True 1(3,5) len slash_free_butlast show ?thesis by auto
      next
        assume "\<exists>s. src = CHR ''.'' # CHR ''.'' # CHR ''/'' # s"
        then obtain r where r: "src = CHR ''.'' # CHR ''.'' # CHR ''/'' # r" by blast
        obtain h' t' where "split_slash r = h' # t'" by (cases "split_slash r") auto
        with 1(5) True r have ab: "absorb (butlast st) [] (split_slash r) = (st', cur')" by simp
        have "length r < length src" "length (render (butlast st) @ []) + length r < cap"
          using r 1(4) len by simp_all
        with 1(1)[rule_format, of r "[]" "butlast st"] ab slash_free_butlast [OF 1(3)] step r len show ?thesis
          by auto
      qed
    next
      case False
      then have nodd: "\<not> (last (render st @ cur) = CHR ''/'' \<and> at_dotdot src)"
        using last_render_append [OF 1(2)] by blast
      have step: "copy_name cap (render st @ cur) src = copy_name cap (render st @ cur @ [c]) s"
        using copy_name_char [of "render st @ cur" c s cap] nodd 1(4) by (simp add: src)
      show ?thesis
      proof (cases "c = CHR ''/''")
        case slash: True
        have ab: "absorb (st @ [cur]) [] (split_slash s) = (st', cur')"
          using 1(5) by (simp add: src slash ht)
        from 1(1)[rule_format, of s "[]" "st @ [cur]"] ab 1(2-4) step show ?thesis
          by (auto simp: src slash render_snoc)
      next
        case ns: False
        have "\<not> (cur = [] \<and> c # h = ''..'')" using False at_dotdot_split [of src] by (auto simp: src ns ht)
        then have ab: "absorb st (cur @ [c]) (split_slash s) = (st', cur')"
          using 1(5) by (cases t) (auto simp: src ns ht split: if_splits)
        from 1(1)[rule_format, of s "cur @ [c]" st] ab 1(2-4) step ns show ?thesis
          by (auto simp: src)
      qed
    qed
  qed
qed

lemma trim_simps [simp]: "trim [c] = (if c = [] then [] else [c])" "trim (c # d # ds) = c # trim (d # ds)"
  by (simp_all add: trim_def)

lemma resolve_simps [simp]:
  "resolve st [] = st" "resolve st (c # cs) = resolve (if c = ''..'' then butlast st else st @ [c]) cs"
  by (simp_all add: resolve_def)

lemma absorb_resolve:
  "cs \<noteq> [] \<Longrightarrow> absorb st [] cs = (st', cur') \<Longrightarrow> resolve st (trim cs) = (if cur' = [] then st' else st' @ [cur'])"
proof (induction cs arbitrary: st rule: induct_list012)
  case (3 c d ds)
  then show ?case by (cases "c = ''..''") simp_all
qed (auto split: if_splits)

lemma butlast_render: "butlast (render (st @ [c])) = render st @ c"
  by (simp add: render_snoc butlast_append)

text \<open>What is left of the buffer after the trailing slash is gone.\<close>

lemma strip_render:
  assumes "CHR ''/'' \<notin> set cur"
  shows "(if length (render st @ cur) > 1 \<and> last (render st @ cur) = CHR ''/'' then butlast (render st @ cur) else render st @ cur)
    = join_path (if cur = [] then st else st @ [cur])"
proof (cases "cur = []")
  case True
  with length_render_gt_1 [of st] show ?thesis by (auto simp: join_path_def)
next
  case False
  with last_render_append [OF assms, of st] show ?thesis by (simp add: join_path_def butlast_render)
qed

lemma copy_name_resolve:
  assumes "slash_free st" and "length (render st) + length src < cap"
  shows "\<exists>st' cur'. copy_name cap (render st) src = Some (render st' @ cur') \<and> CHR ''/'' \<notin> set cur' \<and> slash_free st'
    \<and> length (render st' @ cur') \<le> length (render st) + length src
    \<and> (if cur' = [] then st' else st' @ [cur']) = resolve st (trim (split_slash src))"
proof -
  obtain st' cur' where a: "absorb st [] (split_slash src) = (st', cur')" by fastforce
  have "CHR ''/'' \<notin> set []" "length (render st @ []) + length src < cap" using assms(2) by simp_all
  from copy_name_absorb [OF this(1) assms(1) this(2) a] absorb_resolve [OF split_slash_nonempty a]
  show ?thesis by (simp only: append_Nil2) blast
qed

lemma resolve_append: "resolve st (cs @ ds) = resolve (resolve st cs) ds"
  by (simp add: resolve_def)

lemma makename_copies:
  assumes "3 + length d + length (case f of None \<Rightarrow> [] | Some f \<Rightarrow> f) \<le> cap"
    and "case f of None \<Rightarrow> True | Some f \<Rightarrow> take 1 f \<noteq> ''/''"
  shows "(do {
        out \<leftarrow> copy_name cap ''/'' d;
        out \<leftarrow> (case f of
           None \<Rightarrow> Some out
         | Some f \<Rightarrow> do {
             out \<leftarrow> (if last out \<noteq> CHR ''/'' then if length out < cap then Some (out @ ''/'') else None else Some out);
             copy_name cap out (if take 1 f = ''/'' then tl f else f)
           });
        let out = (if length out > 1 \<and> last out = CHR ''/'' then butlast out else out);
        (if length out < cap then Some out else None)
      }) = Some (join_path (resolve [] (trim (split_slash d) @ (case f of None \<Rightarrow> [] | Some f \<Rightarrow> trim (split_slash f)))))"
proof -
  obtain st cur where c1: "copy_name cap ''/'' d = Some (render st @ cur)" and cur: "CHR ''/'' \<notin> set cur" "slash_free st"
    and l1: "length (render st @ cur) \<le> 1 + length d"
    and r1: "(if cur = [] then st else st @ [cur]) = resolve [] (trim (split_slash d))"
    using copy_name_resolve [of "[]" d cap] assms(1) by auto
  show ?thesis
  proof (cases f)
    case None
    have "length (if length (render st @ cur) > 1 \<and> last (render st @ cur) = CHR ''/'' then butlast (render st @ cur) else render st @ cur) < cap"
      using l1 assms(1) None by auto
    then show ?thesis
      unfolding c1 None option.case Option.bind.bind_lunit Let_def strip_render [OF cur(1)] r1 by simp
  next
    case (Some g)
    define st1 where "st1 = (if cur = [] then st else st @ [cur])"
    have sep: "(if last (render st @ cur) \<noteq> CHR ''/'' then if length (render st @ cur) < cap then Some ((render st @ cur) @ ''/'') else None
        else Some (render st @ cur)) = Some (render st1)"
      using last_render_append [OF cur(1), of st] l1 assms(1) by (auto simp: st1_def render_snoc)
    have l2: "length (render st1) \<le> 2 + length d" and sf: "slash_free st1"
      using l1 cur by (auto simp: st1_def render_snoc)
    have g: "(if take 1 g = ''/'' then tl g else g) = g" using assms(2) Some by simp
    obtain st2 cur2 where c2: "copy_name cap (render st1) g = Some (render st2 @ cur2)" and cur2: "CHR ''/'' \<notin> set cur2"
      and l3: "length (render st2 @ cur2) \<le> length (render st1) + length g"
      and r2: "(if cur2 = [] then st2 else st2 @ [cur2]) = resolve st1 (trim (split_slash g))"
      using copy_name_resolve [OF sf, of g cap] l2 assms(1) Some by auto
    have fits: "length (if length (render st2 @ cur2) > 1 \<and> last (render st2 @ cur2) = CHR ''/'' then butlast (render st2 @ cur2) else render st2 @ cur2) < cap"
      using l2 l3 assms(1) Some by auto
    have st1: "st1 = resolve [] (trim (split_slash d))" using r1 by (simp add: st1_def)
    have path: "(if cur2 = [] then st2 else st2 @ [cur2]) = resolve [] (trim (split_slash d) @ trim (split_slash g))"
      unfolding r2 resolve_append st1 ..
    show ?thesis
      using fits unfolding c1 Some option.case Option.bind.bind_lunit sep g c2 Let_def strip_render [OF cur2] path
      by simp
  qed
qed

lemma makename_resolved:
  "tf_makename dir filename = Some (join_path (resolve [] (case filename of
     None \<Rightarrow> components dir
   | Some f \<Rightarrow> if take 1 f = ''/'' then components f else components dir @ components f)))"
proof -
  define cap where "cap = 1 + length dir + 1 + length (case filename of None \<Rightarrow> [] | Some f \<Rightarrow> f) + 1"
  define d where "d = (if take 1 dir = ''/'' then tl dir else dir)"
  have ld: "length d \<le> length dir" by (simp add: d_def)
  show ?thesis
  proof (cases "\<exists>f. filename = Some f \<and> take 1 f = ''/''")
    case True
    then obtain f where f: "filename = Some (CHR ''/'' # f)"
      by (metis append_Cons append_Nil append_take_drop_id)
    have "3 + length f + length (case None of None \<Rightarrow> [] | Some (x :: string) \<Rightarrow> x) \<le> cap" by (simp add: cap_def f)
    from makename_copies [OF this] show ?thesis
      by (simp add: tf_makename_def f components_def cap_def)
  next
    case False
    then have rel: "case filename of None \<Rightarrow> True | Some f \<Rightarrow> take 1 f \<noteq> ''/''" by (auto split: option.split)
    have "3 + length d + length (case filename of None \<Rightarrow> [] | Some f \<Rightarrow> f) \<le> cap" using ld by (simp add: cap_def)
    note copies = makename_copies [OF this rel]
    have sel: "(case filename of Some (c # f) \<Rightarrow> if c = CHR ''/'' then (c # f, None) else (dir, filename) | _ \<Rightarrow> (dir, filename))
      = (dir, filename)"
      using rel by (auto split: option.split list.split)
    have comps: "trim (split_slash d) @ (case filename of None \<Rightarrow> [] | Some f \<Rightarrow> trim (split_slash f))
      = (case filename of None \<Rightarrow> components dir
         | Some f \<Rightarrow> if take 1 f = ''/'' then components f else components dir @ components f)"
      using rel by (cases filename) (simp_all add: components_def d_def)
    show ?thesis
      unfolding tf_makename_def Let_def sel prod.case cap_def [symmetric] d_def [symmetric] comps [symmetric]
      using copies unfolding Let_def .
  qed
qed

lemma slash_free_trim: "slash_free cs \<Longrightarrow> slash_free (trim cs)"
  by (simp add: trim_def slash_free_butlast)

lemma slash_free_resolve: "slash_free cs \<Longrightarrow> slash_free st \<Longrightarrow> slash_free (resolve st cs)"
  by (induction cs arbitrary: st) (simp_all add: slash_free_butlast)

lemma resolve_no_dotdot: "''..'' \<notin> set st \<Longrightarrow> ''..'' \<notin> set (resolve st cs)"
  by (induction cs arbitrary: st) (auto dest: in_set_butlastD)

lemma split_slash_append: "CHR ''/'' \<notin> set c \<Longrightarrow> split_slash (c @ CHR ''/'' # s) = c # split_slash s"
  by (induction c) auto

lemma split_slash_free: "CHR ''/'' \<notin> set c \<Longrightarrow> split_slash c = [c]"
  by (induction c) auto

lemma components_join: "slash_free st \<Longrightarrow> set (components (join_path st)) \<subseteq> set st"
proof (cases st rule: rev_cases)
  case (snoc st0 c)
  assume "slash_free st"
  then have c: "CHR ''/'' \<notin> set c" and st0: "slash_free st0" by (simp_all add: snoc)
  have "split_slash (concat (map (\<lambda>c. c @ ''/'') st0) @ c) = st0 @ [c]"
    using st0 by (induction st0) (auto simp: split_slash_free [OF c] split_slash_append)
  then have "components (join_path st) = trim (st0 @ [c])"
    by (simp add: snoc join_path_def butlast_render) (simp add: render_def components_def)
  then show ?thesis by (auto simp: trim_def snoc)
qed (simp add: join_path_def components_def trim_def)

section \<open>Properties\<close>

text \<open>C19. Joining a directory and a file name: the pointer manipulating loops compute the path of the
  resolved component list, for every directory and file name: an absolute file name replaces the
  directory, each \<^verbatim>\<open>..\<close> drops the component before it, and every write stays within the allocated
  buffer.\<close>

theorem makename_resolves:
  "tf_makename dir filename = Some (join_path (resolve [] (case filename of
     None \<Rightarrow> components dir
   | Some f \<Rightarrow> if take 1 f = ''/'' then components f else components dir @ components f)))"
  by (rule makename_resolved)

text \<open>The result is an absolute path in which no component is \<^verbatim>\<open>..\<close>, whatever the caller
  passes.\<close>

theorem makename_absolute:
  "\<exists>p. tf_makename dir filename = Some p \<and> take 1 p = ''/'' \<and> ''..'' \<notin> set (components p)"
proof -
  define cs where "cs = (case filename of
     None \<Rightarrow> components dir
   | Some f \<Rightarrow> if take 1 f = ''/'' then components f else components dir @ components f)"
  have "slash_free cs"
    by (auto simp: cs_def components_def slash_free_trim slash_free_split split: option.split)
  then have "set (components (join_path (resolve [] cs))) \<subseteq> set (resolve [] cs)"
    by (intro components_join slash_free_resolve) simp_all
  then have "''..'' \<notin> set (components (join_path (resolve [] cs)))"
    using resolve_no_dotdot [of "[]" cs] by auto
  moreover have "take 1 (join_path st) = ''/''" for st
    by (cases st rule: rev_cases) (auto simp: join_path_def butlast_render, simp add: render_def)
  ultimately show ?thesis
    unfolding makename_resolved cs_def [symmetric] by blast
qed

end
