(* ===== verification/Tf_Tests.thy ===== *)
theory Tf_Tests
  imports Tf_Makename Crc16 Tf_Handle
begin

text \<open>
  The test programs \<^verbatim>\<open>test_crc.c\<close>, \<^verbatim>\<open>test_makename.c\<close> and \<^verbatim>\<open>test_swab.c\<close>, run on the model. A failed
  \<^verbatim>\<open>assert\<close> is \<open>None\<close>.
\<close>

section \<open>Definitions\<close>

abbreviation (input) stdout :: stream where
  "stdout \<equiv> 1"

definition quoted :: "string \<Rightarrow> string" where
  "quoted s = [CHR 0x27] @ s @ [CHR 0x27]"

definition test_crc :: "'w sys \<Rightarrow> int \<times> 'w sys" where
  "test_crc s =
     (let c = crc16_ansi 0 [0x00, 0x01, 0x7f, 0xfa]
      in (0, fprint stdout (''crc='' @ fmt_hex True 4 (unat c) @ newline) s))"

text \<open>The rows of \<^verbatim>\<open>parts\<close>: directory, file and expected path; 0 is a null pointer, which the C library
  prints as \<^verbatim>\<open>(null)\<close>.\<close>

definition makename_parts :: "(string \<times> string option \<times> string) list" where
  "makename_parts =
     [('''', None, ''/''),
      ('''', Some '''', ''/''),
      (''/'', Some '''', ''/''),
      (''/'', Some '''', ''/''),
      ('''', Some ''file'', ''/file''),
      (''/'', Some ''file'', ''/file''),
      (''/'', Some ''file'', ''/file''),
      (''/dir'', Some ''file'', ''/dir/file''),
      (''/dir'', Some ''/file'', ''/file''),
      (''/dir/'', Some ''file'', ''/dir/file''),
      (''/dir/'', Some ''/file'', ''/file''),
      (''/dir/'', Some ''/file/'', ''/file''),
      (''dir/'', Some ''/file/'', ''/file''),
      (''dir'', Some ''file'', ''/dir/file''),
      (''/dir/'', Some ''/file/'', ''/file''),
      (''/dir/../newdir'', Some ''file'', ''/newdir/file''),
      (''/../newdir'', Some ''file'', ''/newdir/file''),
      (''/dir/olddir'', Some ''..'', ''/dir''),
      (''/dir/olddir'', Some ''../newdir'', ''/dir/newdir'')]"

fun makename_rows :: "(string \<times> string option \<times> string) list \<Rightarrow> 'w sys \<Rightarrow> 'w sys option" where
  "makename_rows [] s = Some s"
| "makename_rows ((dir, name, expected) # rows) s = do {
     buf \<leftarrow> tf_makename dir name;
     let s = fprint stdout (''test_makename: dir='' @ quoted dir @ '' filename='' @ quoted (case name of None \<Rightarrow> ''(null)'' | Some f \<Rightarrow> f)
       @ '' => '' @ quoted buf @ newline) s;
     (if buf = expected then makename_rows rows s else None)
   }"

definition test_makename :: "'w sys \<Rightarrow> (int \<times> 'w sys) option" where
  "test_makename s = do {
     s \<leftarrow> makename_rows makename_parts s;
     Some (0, s)
   }"

text \<open>The buffers of \<^verbatim>\<open>test_swab.c\<close> with their terminators; \<^verbatim>\<open>strlen\<close> is the length without it.\<close>

definition string_buf :: "string \<Rightarrow> mem" where
  "string_buf str = store (\<lambda>i. 0) 0 (map of_char str @ [0])"

definition test_swab :: "'w sys \<Rightarrow> (int \<times> 'w sys) option" where
  "test_swab s = do {
     let buf = swab (string_buf ''01234567'') 8;
     str \<leftarrow> c_string (bytes_at buf 0 9);
     let s = fprint stdout (''test_swab: After swapping, buf='' @ str @ newline) s;
     (if str = ''10325476'' then do {
        let buf2 = swab (string_buf ''0123456'') 7;
        str2 \<leftarrow> c_string (bytes_at buf2 0 8);
        let s = fprint stdout (''test_swab: After swapping, buf2='' @ str2 @ newline) s;
        (if str2 = ''1032546'' then Some (0, s) else None)
      }
      else None)
   }"

section \<open>The tests pass\<close>

lemma makename_test_rows:
  "list_all (\<lambda>(dir, name, expected). tf_makename dir name = Some expected) makename_parts"
  by code_simp

lemma makename_rows_pass:
  "list_all (\<lambda>(dir, name, expected). tf_makename dir name = Some expected) rows \<Longrightarrow>
     \<exists>s'. makename_rows rows s = Some s' \<and> length (printed s') = length (printed s) + length rows"
proof (induction rows arbitrary: s)
  case (Cons row rows)
  obtain dir name expected where row: "row = (dir, name, expected)" using prod_cases3 by blast
  let ?s = "fprint stdout (''test_makename: dir='' @ quoted dir @ '' filename='' @ quoted (case name of None \<Rightarrow> ''(null)'' | Some f \<Rightarrow> f)
       @ '' => '' @ quoted expected @ newline) s"
  from Cons.IH [of ?s] Cons.prems show ?case by (auto simp: row fprint_def)
qed simp

lemma length_makename_parts:
  "length makename_parts = 19"
  by (simp add: makename_parts_def)

text \<open>No assertion of \<^verbatim>\<open>test_makename.c\<close> fails; it prints a line for each row and exits with 0.\<close>
theorem test_makename_passes:
  "\<exists>s'. test_makename s = Some (0, s') \<and> length (printed s') = length (printed s) + 19"
proof -
  obtain s' where "makename_rows makename_parts s = Some s'" "length (printed s') = length (printed s) + 19"
    using makename_rows_pass [OF makename_test_rows, of s] by (auto simp: length_makename_parts)
  then show ?thesis by (simp add: test_makename_def)
qed

text \<open>Both assertions of \<^verbatim>\<open>test_swab.c\<close> hold, for an even and for an odd length.\<close>
theorem test_swab_passes:
  "test_swab s = Some (0, s\<lparr>printed := printed s @ [(stdout, ''test_swab: After swapping, buf=10325476'' @ newline),
     (stdout, ''test_swab: After swapping, buf2=1032546'' @ newline)]\<rparr>)"
proof -
  have "c_string (bytes_at (swab (string_buf ''01234567'') 8) 0 9) = Some ''10325476''" by code_simp
  moreover have "c_string (bytes_at (swab (string_buf ''0123456'') 7) 0 8) = Some ''1032546''" by code_simp
  ultimately show ?thesis by (simp add: test_swab_def fprint_def)
qed

text \<open>\<^verbatim>\<open>test_crc.c\<close> only prints the checksum of four bytes.\<close>
theorem test_crc_output:
  "test_crc s = (0, s\<lparr>printed := printed s @ [(stdout, ''crc=B3F1'' @ newline)]\<rparr>)"
proof -
  have "crc16_ansi 0 [0x00, 0x01, 0x7f, 0xfa] = 0xB3F1" by code_simp
  moreover have "radix_digits 16 46065 = [11, 3, 15, 1]"
    by (simp add: radix_digits.simps [of 16])
  then have "fmt_hex True 4 (unat (0xB3F1 :: 16 word)) = ''B3F1''"
    by (simp add: fmt_hex_def digit_char_def char_of_def bit_0)
  ultimately show ?thesis by (simp add: test_crc_def fprint_def)
qed

end
