(* ===== verification/Makename_Heap.thy ===== *)
theory Makename_Heap
  imports Tf_Makename
begin

text \<open>
  The memory of \<^verbatim>\<open>tf_makename\<close>. The function keeps its result in a block that a static pointer owns,
  and frees that block at the start of the next call, before it reads its arguments. Here the heap
  is a map from block addresses to the C strings in them; a pointer is a block and an offset;
  reading through a pointer into a freed block is undefined.
\<close>

section \<open>Definitions\<close>

type_synonym c_ptr = "nat \<times> nat"
type_synonym c_malloc = "(nat \<rightharpoonup> string) \<Rightarrow> nat option"

record c_heap =
  blocks :: "nat \<rightharpoonup> string"
  static_buf :: "nat option"

text \<open>The string that a pointer leads to.\<close>

fun c_read :: "(nat \<rightharpoonup> string) \<Rightarrow> c_ptr \<Rightarrow> string option" where
  "c_read m (b, i) = do {
     str \<leftarrow> m b;
     (if i \<le> length str then Some (drop i str) else None)
   }"

text \<open>What is left of the heap once the previous result has been freed: the caller's own blocks.\<close>

definition caller_blocks :: "c_heap \<Rightarrow> (nat \<rightharpoonup> string)" where
  "caller_blocks h = (case static_buf h of None \<Rightarrow> blocks h | Some b \<Rightarrow> (blocks h)(b := None))"

text \<open>A null \<^verbatim>\<open>filename\<close> is \<open>None\<close>. The result of \<^verbatim>\<open>malloc\<close> is not checked: \<open>None\<close>, a null pointer, is
  written to and so undefined.\<close>

definition tf_makename_heap ::
  "c_malloc \<Rightarrow> c_heap \<Rightarrow> c_ptr \<Rightarrow> c_ptr option \<Rightarrow> (c_ptr \<times> c_heap) option" where
  "tf_makename_heap malloc h dir filename = do {
     let m = caller_blocks h;
     d \<leftarrow> c_read m dir;
     f \<leftarrow> (case filename of None \<Rightarrow> Some None | Some p \<Rightarrow> map_option Some (c_read m p));
     b \<leftarrow> malloc m;
     path \<leftarrow> tf_makename d f;
     Some ((b, 0), \<lparr>blocks = m(b \<mapsto> path), static_buf = Some b\<rparr>)
   }"

text \<open>A caller that makes one call after the other and keeps all results. Every call has a \<^verbatim>\<open>malloc\<close> of
  its own, counted from the last one, so that nothing is assumed about the addresses.\<close>

fun makename_calls ::
  "(nat \<Rightarrow> c_malloc) \<Rightarrow> c_heap \<Rightarrow> (c_ptr \<times> c_ptr option) list \<Rightarrow> (c_ptr list \<times> c_heap) option" where
  "makename_calls malloc h [] = Some ([], h)"
| "makename_calls malloc h ((dir, filename) # cs) = do {
     (p, h) \<leftarrow> tf_makename_heap (malloc (length cs)) h dir filename;
     (ps, h) \<leftarrow> makename_calls malloc h cs;
     Some (p # ps, h)
   }"

text \<open>\<^verbatim>\<open>malloc\<close> succeeds, with a block that is not in use.\<close>

definition allocates :: "(nat \<Rightarrow> c_malloc) \<Rightarrow> (nat \<rightharpoonup> string) \<Rightarrow> bool" where
  "allocates malloc m \<longleftrightarrow> (\<forall>k. \<exists>b. malloc k m = Some b \<and> m b = None)"

text \<open>The specification of one call: the path of the two strings, if both are strings of \<open>m\<close>.\<close>

definition makename_at :: "(nat \<rightharpoonup> string) \<Rightarrow> c_ptr \<times> c_ptr option \<Rightarrow> string option" where
  "makename_at m c = do {
     d \<leftarrow> c_read m (fst c);
     f \<leftarrow> (case snd c of None \<Rightarrow> Some None | Some p \<Rightarrow> map_option Some (c_read m p));
     tf_makename d f
   }"

definition own_strings :: "(nat \<rightharpoonup> string) \<Rightarrow> c_ptr \<times> c_ptr option \<Rightarrow> bool" where
  "own_strings m c \<longleftrightarrow> c_read m (fst c) \<noteq> None \<and> (case snd c of None \<Rightarrow> True | Some p \<Rightarrow> c_read m p \<noteq> None)"

section \<open>One call\<close>

lemma makename_at_defined: "makename_at m c \<noteq> None \<longleftrightarrow> own_strings m c"
  by (auto simp: makename_at_def own_strings_def makename_resolved split: option.splits Option.bind_splits)

lemma caller_blocks_result:
  "m b = None \<Longrightarrow> caller_blocks \<lparr>blocks = m(b \<mapsto> path), static_buf = Some b\<rparr> = m"
  by (auto simp: caller_blocks_def)

lemma makename_heap_call:
  assumes "malloc (caller_blocks h) = Some b"
  shows "tf_makename_heap malloc h dir filename = map_option
    (\<lambda>path. ((b, 0), \<lparr>blocks = (caller_blocks h)(b \<mapsto> path), static_buf = Some b\<rparr>)) (makename_at (caller_blocks h) (dir, filename))"
  using assms by (simp add: tf_makename_heap_def makename_at_def Let_def map_option_bind bind_map_option
      split: option.split Option.bind_split)

text \<open>The heap after the calls \<open>cs\<close>: the latest result and nothing else beside the caller's blocks.\<close>

definition last_result :: "(nat \<rightharpoonup> string) \<Rightarrow> (c_ptr \<times> c_ptr option) list \<Rightarrow> c_ptr list \<Rightarrow> c_heap \<Rightarrow> bool" where
  "last_result m cs ps h \<longleftrightarrow> (\<exists>b path. last ps = (b, 0) \<and> m b = None \<and> makename_at m (last cs) = Some path
     \<and> h = \<lparr>blocks = m(b \<mapsto> path), static_buf = Some b\<rparr>)"

lemma makename_calls_heap:
  assumes "allocates malloc m" and "caller_blocks h = m"
  shows "if list_all (own_strings m) cs
    then \<exists>ps h'. makename_calls malloc h cs = Some (ps, h') \<and> length ps = length cs \<and> (cs \<noteq> [] \<longrightarrow> last_result m cs ps h')
    else makename_calls malloc h cs = None"
  using assms(2)
proof (induction cs arbitrary: h)
  case (Cons c cs)
  obtain dir filename where c: "c = (dir, filename)" by fastforce
  obtain b where b: "malloc (length cs) m = Some b" "m b = None" using assms(1) by (auto simp: allocates_def)
  have call: "tf_makename_heap (malloc (length cs)) h dir filename
      = map_option (\<lambda>path. ((b, 0), \<lparr>blocks = m(b \<mapsto> path), static_buf = Some b\<rparr>)) (makename_at m c)"
    using makename_heap_call [of "malloc (length cs)" h b dir filename] b(1) by (simp add: Cons.prems c)
  show ?case
  proof (cases "makename_at m c")
    case None
    then have "\<not> own_strings m c" using makename_at_defined [of m c] by simp
    with None call show ?thesis by (simp add: c)
  next
    case (Some path)
    then have own: "own_strings m c" using makename_at_defined [of m c] by simp
    have "caller_blocks \<lparr>blocks = m(b \<mapsto> path), static_buf = Some b\<rparr> = m"
      by (rule caller_blocks_result) (rule b)
    from Cons.IH [OF this] own call Some b(2) show ?thesis
      by (cases "cs = []") (auto simp: c last_result_def split: if_splits)
  qed
qed simp

section \<open>Properties\<close>

text \<open>C20. The memory of any number of calls of \<^verbatim>\<open>tf_makename\<close>, from the first one on: the calls are
  defined exactly if every argument is a string of the caller's own memory, so that no result, not
  even the latest, can be passed on; afterwards the heap is the caller's, unchanged, and one more
  block, which holds the path of the last call.\<close>

theorem makename_static_buffer:
  assumes "static_buf h = None" and "allocates malloc (blocks h)"
  shows "(makename_calls malloc h cs \<noteq> None \<longleftrightarrow> list_all (own_strings (blocks h)) cs)
    \<and> (\<forall>ps h'. makename_calls malloc h cs = Some (ps, h') \<longrightarrow> cs \<noteq> [] \<longrightarrow>
        (\<exists>b path. last ps = (b, 0) \<and> b \<notin> dom (blocks h) \<and> makename_at (blocks h) (last cs) = Some path
          \<and> h' = \<lparr>blocks = (blocks h)(b \<mapsto> path), static_buf = Some b\<rparr>))"
proof -
  have "caller_blocks h = blocks h" using assms(1) by (simp add: caller_blocks_def)
  from makename_calls_heap [OF assms(2) this, of cs] show ?thesis
    by (auto simp: last_result_def domIff split: if_splits)
qed

text \<open>The caller passes its own string, and then either that string again or the first result.\<close>

definition first_fit :: "nat \<Rightarrow> c_malloc" where
  "first_fit k m = (if m 1 = None then Some 1 else None)"

theorem makename_static_buffer_witness:
  "makename_calls first_fit \<lparr>blocks = [0 \<mapsto> ''dir''], static_buf = None\<rparr> [((0, 0), Some (0, 0)), ((0, 1), None)] \<noteq> None
    \<and> makename_calls first_fit \<lparr>blocks = [0 \<mapsto> ''dir''], static_buf = None\<rparr> [((0, 0), Some (0, 0)), ((1, 0), None)] = None"
proof -
  let ?h = "\<lparr>blocks = [0 \<mapsto> ''dir''], static_buf = None\<rparr>"
  have a: "allocates first_fit (blocks ?h)" by (simp add: allocates_def first_fit_def)
  have "list_all (own_strings (blocks ?h)) [((0, 0), Some (0, 0)), ((0, 1), None)]"
    "\<not> list_all (own_strings (blocks ?h)) [((0, 0), Some (0, 0)), ((1, 0), None)]"
    by (simp_all add: own_strings_def)
  with makename_static_buffer [of ?h first_fit, OF _ a] show ?thesis by (metis c_heap.select_convs(2))
qed

end
