(* ===== verification/Tf_Sort.thy ===== *)
theory Tf_Sort
  imports "HOL-Library.Multiset" Tf_Dir
begin

text \<open>
  Sorting a listing: the comparison functions and \<^verbatim>\<open>tf_sort_dirents\<close> of \<^verbatim>\<open>tf_util.c\<close>. The
  \<^verbatim>\<open>qsort\<close> of the C library is a parameter; its contract is the one of the standard, that it
  sorts whenever the comparison function is consistent on the elements.
\<close>

section \<open>Definitions\<close>

abbreviation (input) TF_SORT_NAME :: int where "TF_SORT_NAME \<equiv> 1"
abbreviation (input) TF_SORT_SIZE :: int where "TF_SORT_SIZE \<equiv> 2"
abbreviation (input) TF_SORT_TIME :: int where "TF_SORT_TIME \<equiv> 3"

text \<open>A \<^verbatim>\<open>char\<close> promoted to \<^verbatim>\<open>int\<close>, and \<^verbatim>\<open>strcasecmp\<close> in the C locale.\<close>

definition char_int :: "char \<Rightarrow> int" where
  "char_int c = sint (of_char c :: u8)"

definition lower :: "char \<Rightarrow> int" where
  "lower c = (let n = of_char c in if 65 \<le> n \<and> n \<le> 90 then n + 32 else n)"

fun strcasecmp :: "string \<Rightarrow> string \<Rightarrow> int" where
  "strcasecmp [] [] = 0"
| "strcasecmp [] (d # ds) = - lower d"
| "strcasecmp (c # cs) [] = lower c"
| "strcasecmp (c # cs) (d # ds) = (if lower c = lower d then strcasecmp cs ds else lower c - lower d)"

definition tf_cmp_dirent_by_type :: "tf_dirent \<Rightarrow> tf_dirent \<Rightarrow> int" where
  "tf_cmp_dirent_by_type de1 de2 = char_int (d_type de1) - char_int (d_type de2)"

definition tf_cmp_dirent_by_time :: "tf_dirent \<Rightarrow> tf_dirent \<Rightarrow> int" where
  "tf_cmp_dirent_by_time de1 de2 =
     (let ret = tf_cmp_dirent_by_type de1 de2
      in if ret = 0 then c_int (d_stamp de2 - d_stamp de1) else ret)"

definition tf_cmp_dirent_by_size :: "tf_dirent \<Rightarrow> tf_dirent \<Rightarrow> int" where
  "tf_cmp_dirent_by_size de1 de2 =
     (let ret = tf_cmp_dirent_by_type de1 de2
      in if ret = 0 then if d_size de1 < d_size de2 then 1 else if d_size de1 = d_size de2 then 0 else -1 else ret)"

definition tf_cmp_dirent_by_name :: "tf_dirent \<Rightarrow> tf_dirent \<Rightarrow> int" where
  "tf_cmp_dirent_by_name de1 de2 =
     (let ret = tf_cmp_dirent_by_type de1 de2
      in if ret = 0 then strcasecmp (d_name de1) (d_name de2) else ret)"

definition tf_cmp_dirent_by_reverse_name :: "tf_dirent \<Rightarrow> tf_dirent \<Rightarrow> int" where
  "tf_cmp_dirent_by_reverse_name de1 de2 =
     (let ret = tf_cmp_dirent_by_type de1 de2
      in if ret = 0 then - strcasecmp (d_name de1) (d_name de2) else ret)"

definition tf_cmp_dirent_by_reverse_time :: "tf_dirent \<Rightarrow> tf_dirent \<Rightarrow> int" where
  "tf_cmp_dirent_by_reverse_time de1 de2 =
     (let ret = tf_cmp_dirent_by_type de1 de2
      in if ret = 0 then c_int (d_stamp de1 - d_stamp de2) else ret)"

definition tf_cmp_dirent_by_reverse_size :: "tf_dirent \<Rightarrow> tf_dirent \<Rightarrow> int" where
  "tf_cmp_dirent_by_reverse_size de1 de2 =
     (let ret = tf_cmp_dirent_by_type de1 de2
      in if ret = 0 then if d_size de1 < d_size de2 then -1 else if d_size de1 = d_size de2 then 0 else 1 else ret)"

text \<open>The call \<^verbatim>\<open>qsort(entries->entry, entries->count, ...)\<close>; the count has to lie within the array.\<close>

type_synonym qsort = "(tf_dirent \<Rightarrow> tf_dirent \<Rightarrow> int) \<Rightarrow> tf_dirent list \<Rightarrow> tf_dirent list"

definition qsort_entries :: "qsort \<Rightarrow> tf_dir_entries \<Rightarrow> (tf_dirent \<Rightarrow> tf_dirent \<Rightarrow> int) \<Rightarrow> tf_dir_entries option" where
  "qsort_entries qsort entries cmp =
     (if 0 \<le> count entries \<and> nat (count entries) \<le> length (entry entries)
      then Some (entries\<lparr>entry := qsort cmp (take (nat (count entries)) (entry entries)) @ drop (nat (count entries)) (entry entries)\<rparr>)
      else None)"

definition tf_sort_dirents :: "qsort \<Rightarrow> tf_dir_entries \<Rightarrow> int \<Rightarrow> tf_dir_entries option" where
  "tf_sort_dirents qsort entries sort_type =
     (if sort_type = TF_SORT_NAME then qsort_entries qsort entries tf_cmp_dirent_by_name
      else if sort_type = TF_SORT_SIZE then qsort_entries qsort entries tf_cmp_dirent_by_size
      else if sort_type = TF_SORT_TIME then qsort_entries qsort entries tf_cmp_dirent_by_time
      else if sort_type = - TF_SORT_NAME then qsort_entries qsort entries tf_cmp_dirent_by_reverse_name
      else if sort_type = - TF_SORT_SIZE then qsort_entries qsort entries tf_cmp_dirent_by_reverse_size
      else if sort_type = - TF_SORT_TIME then qsort_entries qsort entries tf_cmp_dirent_by_reverse_time
      else Some entries)"

section \<open>Comparison functions\<close>

text \<open>What \<^verbatim>\<open>qsort\<close> demands of a comparison function on the elements \<open>D\<close> of its array.\<close>

locale c_comparator =
  fixes cmp :: "'a \<Rightarrow> 'a \<Rightarrow> int" and D :: "'a set"
  assumes swap: "x \<in> D \<Longrightarrow> y \<in> D \<Longrightarrow> cmp x y < 0 \<longleftrightarrow> 0 < cmp y x"
    and trans: "x \<in> D \<Longrightarrow> y \<in> D \<Longrightarrow> z \<in> D \<Longrightarrow> cmp x y \<le> 0 \<Longrightarrow> cmp y z \<le> 0 \<Longrightarrow> cmp x z \<le> 0"
begin

lemma zero_sym: "x \<in> D \<Longrightarrow> y \<in> D \<Longrightarrow> cmp x y = 0 \<Longrightarrow> cmp y x = 0"
  using swap [of x y] swap [of y x] by linarith

lemma total: "x \<in> D \<Longrightarrow> y \<in> D \<Longrightarrow> cmp x y \<le> 0 \<or> cmp y x \<le> 0"
  using swap [of y x] by linarith

lemma subset: "E \<subseteq> D \<Longrightarrow> c_comparator cmp E"
  by unfold_locales (use swap trans in \<open>simp_all add: subset_iff, blast\<close>)

lemma negated: "c_comparator (\<lambda>x y. - cmp x y) D"
proof unfold_locales
  fix x y assume "x \<in> D" "y \<in> D"
  then show "- cmp x y < 0 \<longleftrightarrow> 0 < - cmp y x" using swap [of y x] by auto
next
  fix x y z assume d: "x \<in> D" "y \<in> D" "z \<in> D" and "- cmp x y \<le> 0" "- cmp y z \<le> 0"
  then have "cmp z y \<le> 0" "cmp y x \<le> 0" using swap [of x y] swap [of y z] swap [of z y] swap [of y x] by linarith+
  then have "cmp z x \<le> 0" using trans d by blast
  then show "- cmp x z \<le> 0" using swap [of x z] swap [of z x] d by linarith
qed

end

text \<open>The fallback to a second comparison when the first is zero.\<close>

lemma c_comparator_lex:
  assumes "c_comparator f D" and "c_comparator g D"
  shows "c_comparator (\<lambda>x y. let ret = f x y in if ret = 0 then g x y else ret) D"
proof unfold_locales
  fix x y assume d: "x \<in> D" "y \<in> D"
  then show "(let ret = f x y in if ret = 0 then g x y else ret) < 0 \<longleftrightarrow> 0 < (let ret = f y x in if ret = 0 then g y x else ret)"
    using c_comparator.swap [OF assms(1) d] c_comparator.swap [OF assms(2) d] c_comparator.zero_sym [OF assms(1)]
    by (auto simp: Let_def)
next
  fix x y z assume d: "x \<in> D" "y \<in> D" "z \<in> D"
    and xy: "(let ret = f x y in if ret = 0 then g x y else ret) \<le> 0" and yz: "(let ret = f y z in if ret = 0 then g y z else ret) \<le> 0"
  then have f: "f x y \<le> 0" "f y z \<le> 0" by (auto simp: Let_def split: if_splits)
  then have fxz: "f x z \<le> 0" using c_comparator.trans [OF assms(1) d] by blast
  have "g x z \<le> 0" if "f x z = 0"
  proof -
    have "f z x = 0" using c_comparator.zero_sym [OF assms(1)] that d by blast
    then have "f y x \<le> 0" "f z y \<le> 0"
      using c_comparator.trans [OF assms(1) d(2,3,1)] c_comparator.trans [OF assms(1) d(3,1,2)] f by auto
    then have "f x y = 0" "f y z = 0"
      using c_comparator.swap [OF assms(1)] d f by (metis antisym_conv3 linorder_not_less order_le_less)+
    then have "g x y \<le> 0" "g y z \<le> 0" using xy yz by (auto simp: Let_def)
    then show ?thesis using c_comparator.trans [OF assms(2) d] by blast
  qed
  with fxz show "(let ret = f x z in if ret = 0 then g x z else ret) \<le> 0" by (simp add: Let_def)
qed

lemma c_comparator_key: "c_comparator (\<lambda>x y. f x - f y) D"
  by unfold_locales auto

interpretation type_cmp: c_comparator tf_cmp_dirent_by_type D for D
  unfolding tf_cmp_dirent_by_type_def by (rule c_comparator_key)

lemma sgn_size:
  "c_comparator (\<lambda>x y. if d_size x < d_size y then 1 else if d_size x = d_size y then 0 else -1) D"
  by unfold_locales (auto split: if_splits)

interpretation size_cmp: c_comparator tf_cmp_dirent_by_size D for D
  unfolding tf_cmp_dirent_by_size_def by (rule c_comparator_lex [OF type_cmp.c_comparator_axioms sgn_size])

interpretation reverse_size_cmp: c_comparator tf_cmp_dirent_by_reverse_size D for D
proof -
  have "c_comparator (\<lambda>x y. if d_size x < d_size y then -1 else if d_size x = d_size y then 0 else 1) D"
    by unfold_locales (auto split: if_splits)
  then show "c_comparator tf_cmp_dirent_by_reverse_size D"
    unfolding tf_cmp_dirent_by_reverse_size_def by (rule c_comparator_lex [OF type_cmp.c_comparator_axioms])
qed

lemma c_comparator_cong:
  assumes "c_comparator f D" and "\<And>x y. x \<in> D \<Longrightarrow> y \<in> D \<Longrightarrow> g x y = f x y"
  shows "c_comparator g D"
proof unfold_locales
  fix x y assume d: "x \<in> D" "y \<in> D"
  show "g x y < 0 \<longleftrightarrow> 0 < g y x"
    unfolding assms(2) [OF d] assms(2) [OF d(2,1)] using c_comparator.swap [OF assms(1) d] .
next
  fix x y z assume d: "x \<in> D" "y \<in> D" "z \<in> D" and "g x y \<le> 0" "g y z \<le> 0"
  then have "f x y \<le> 0" "f y z \<le> 0" by (simp_all add: assms(2))
  then have "f x z \<le> 0" by (rule c_comparator.trans [OF assms(1) d])
  then show "g x z \<le> 0" using d by (simp add: assms(2))
qed

text \<open>Names: the order of \<^verbatim>\<open>strcasecmp\<close> on strings without null characters.\<close>

lemma lower_nonneg [simp]: "0 \<le> lower c"
proof -
  have "0 \<le> (of_char c :: int)" by (metis of_nat_0_le_iff of_nat_of_char)
  then show ?thesis by (simp add: lower_def Let_def)
qed

lemma lower_pos: "c \<noteq> CHR 0x00 \<Longrightarrow> 0 < lower c"
proof -
  assume "c \<noteq> CHR 0x00"
  then have "(of_char c :: nat) \<noteq> of_char (CHR 0x00)" by (metis char_of_char)
  then have "0 < (of_char c :: nat)" by simp
  then have "0 < (of_char c :: int)" by (metis of_nat_0_less_iff of_nat_of_char)
  then show ?thesis by (simp add: lower_def Let_def)
qed

lemma strcasecmp_swap: "strcasecmp x y = - strcasecmp y x"
  by (induction x y rule: strcasecmp.induct) auto

lemma strcasecmp_trans:
  "CHR 0x00 \<notin> set x \<Longrightarrow> CHR 0x00 \<notin> set y \<Longrightarrow> strcasecmp x y \<le> 0 \<Longrightarrow> strcasecmp y z \<le> 0 \<Longrightarrow> strcasecmp x z \<le> 0"
proof (induction x y arbitrary: z rule: strcasecmp.induct)
  case (2 d ds)
  then show ?case by (cases z) simp_all
next
  case (3 c cs)
  then have "0 < lower c" by (intro lower_pos) auto
  with 3 show ?case by simp
next
  case (4 c cs d ds)
  have "0 < lower d" using 4(3) by (intro lower_pos) auto
  with 4 show ?case by (cases z) (auto split: if_splits)
qed

definition plain_name :: "tf_dirent set" where
  "plain_name = {d. CHR 0x00 \<notin> set (d_name d)}"

lemma name_order: "c_comparator (\<lambda>x y. strcasecmp (d_name x) (d_name y)) plain_name"
proof unfold_locales
  fix x y
  show "strcasecmp (d_name x) (d_name y) < 0 \<longleftrightarrow> 0 < strcasecmp (d_name y) (d_name x)"
    using strcasecmp_swap [of "d_name x" "d_name y"] by linarith
qed (auto simp: plain_name_def intro: strcasecmp_trans)

interpretation name_cmp: c_comparator tf_cmp_dirent_by_name plain_name
  unfolding tf_cmp_dirent_by_name_def by (rule c_comparator_lex [OF type_cmp.c_comparator_axioms name_order])

interpretation reverse_name_cmp: c_comparator tf_cmp_dirent_by_reverse_name plain_name
  unfolding tf_cmp_dirent_by_reverse_name_def
  by (rule c_comparator_lex [OF type_cmp.c_comparator_axioms c_comparator.negated [OF name_order]])

text \<open>Times: the difference is cut to an \<^verbatim>\<open>int\<close>, so the order holds for stamps that lie within 68
  years of each other.\<close>

definition stamp_window :: "int \<Rightarrow> tf_dirent set" where
  "stamp_window lo = {d. lo \<le> d_stamp d \<and> d_stamp d < lo + 2 ^ 31}"

lemma c_int_small: "- (2 ^ 31) \<le> i \<Longrightarrow> i < 2 ^ 31 \<Longrightarrow> c_int i = i"
  unfolding c_int_def by (rule signed_take_bit_int_eq_self) simp_all

lemma stamp_order:
  "c_comparator (\<lambda>x y. c_int (d_stamp x - d_stamp y)) (stamp_window lo)"
  "c_comparator (\<lambda>x y. c_int (d_stamp y - d_stamp x)) (stamp_window lo)"
proof -
  show "c_comparator (\<lambda>x y. c_int (d_stamp x - d_stamp y)) (stamp_window lo)"
    by (rule c_comparator_cong [OF c_comparator_key [of d_stamp]]) (rule c_int_small, auto simp: stamp_window_def)
  show "c_comparator (\<lambda>x y. c_int (d_stamp y - d_stamp x)) (stamp_window lo)"
    by (rule c_comparator_cong [OF c_comparator_key [of "\<lambda>d. - d_stamp d"]])
      (subst c_int_small, auto simp: stamp_window_def)
qed

interpretation time_cmp: c_comparator tf_cmp_dirent_by_time "stamp_window lo" for lo
  unfolding tf_cmp_dirent_by_time_def by (rule c_comparator_lex [OF type_cmp.c_comparator_axioms stamp_order(2)])

interpretation reverse_time_cmp: c_comparator tf_cmp_dirent_by_reverse_time "stamp_window lo" for lo
  unfolding tf_cmp_dirent_by_reverse_time_def by (rule c_comparator_lex [OF type_cmp.c_comparator_axioms stamp_order(1)])

section \<open>Sorting\<close>

text \<open>The contract of \<^verbatim>\<open>qsort\<close>, and an implementation that satisfies it.\<close>

definition qsort_contract :: "qsort \<Rightarrow> bool" where
  "qsort_contract qsort \<longleftrightarrow> (\<forall>cmp xs. c_comparator cmp (set xs) \<longrightarrow>
     mset (qsort cmp xs) = mset xs \<and> sorted_wrt (\<lambda>x y. cmp x y \<le> 0) (qsort cmp xs))"

fun insert_by :: "('a \<Rightarrow> 'a \<Rightarrow> int) \<Rightarrow> 'a \<Rightarrow> 'a list \<Rightarrow> 'a list" where
  "insert_by cmp x [] = [x]"
| "insert_by cmp x (y # ys) = (if cmp x y \<le> 0 then x # y # ys else y # insert_by cmp x ys)"

definition insertion_sort :: "('a \<Rightarrow> 'a \<Rightarrow> int) \<Rightarrow> 'a list \<Rightarrow> 'a list" where
  "insertion_sort cmp xs = foldr (insert_by cmp) xs []"

lemma mset_insert_by: "mset (insert_by cmp x xs) = add_mset x (mset xs)"
  by (induction xs) auto

lemma set_insert_by: "set (insert_by cmp x xs) = insert x (set xs)"
  using mset_insert_by [of cmp x xs] by (metis set_mset_add_mset_insert set_mset_mset)

lemma mset_insertion_sort: "mset (insertion_sort cmp xs) = mset xs"
  by (induction xs) (simp_all add: insertion_sort_def mset_insert_by)

context c_comparator
begin

lemma sorted_insert_by:
  "x \<in> D \<Longrightarrow> set xs \<subseteq> D \<Longrightarrow> sorted_wrt (\<lambda>x y. cmp x y \<le> 0) xs \<Longrightarrow> sorted_wrt (\<lambda>x y. cmp x y \<le> 0) (insert_by cmp x xs)"
proof (induction xs)
  case (Cons y ys)
  show ?case
  proof (cases "cmp x y \<le> 0")
    case True
    have "cmp x z \<le> 0" if "z \<in> set ys" for z
      using trans [of x y z] True Cons.prems that by auto
    with True Cons.prems show ?thesis by simp
  next
    case False
    then have "cmp y x \<le> 0" using total Cons.prems by auto
    with Cons False show ?thesis by (auto simp: set_insert_by)
  qed
qed simp

lemma sorted_insertion_sort: "set xs \<subseteq> D \<Longrightarrow> sorted_wrt (\<lambda>x y. cmp x y \<le> 0) (insertion_sort cmp xs)"
proof (induction xs)
  case (Cons x xs)
  have "set (insertion_sort cmp xs) = set xs" using mset_insertion_sort by (metis set_mset_mset)
  with Cons show ?case using sorted_insert_by [of x "insertion_sort cmp xs"] by (simp add: insertion_sort_def)
qed (simp add: insertion_sort_def)

end

lemma insertion_sort_contract: "qsort_contract insertion_sort"
  unfolding qsort_contract_def
  using mset_insertion_sort c_comparator.sorted_insertion_sort by blast

section \<open>Properties\<close>

text \<open>What the sort types promise: directories first, then the order by name, size (largest first) or
  time (newest first), reversed for a negative type; and the listings they apply to.\<close>

definition sort_before :: "int \<Rightarrow> tf_dirent \<Rightarrow> tf_dirent \<Rightarrow> bool" where
  "sort_before sort_type x y \<longleftrightarrow>
     (if d_type x \<noteq> d_type y then d_type x = CHR ''d''
      else if sort_type = TF_SORT_NAME then strcasecmp (d_name x) (d_name y) \<le> 0
      else if sort_type = - TF_SORT_NAME then strcasecmp (d_name y) (d_name x) \<le> 0
      else if sort_type = TF_SORT_SIZE then d_size y \<le> d_size x
      else if sort_type = - TF_SORT_SIZE then d_size x \<le> d_size y
      else if sort_type = TF_SORT_TIME then d_stamp y \<le> d_stamp x
      else d_stamp x \<le> d_stamp y)"

definition sortable :: "int \<Rightarrow> tf_dirent set \<Rightarrow> bool" where
  "sortable sort_type ds \<longleftrightarrow> sort_type \<in> {1, 2, 3, -1, -2, -3} \<and> d_type ` ds \<subseteq> {CHR ''d'', CHR ''f''}
     \<and> (sort_type \<in> {TF_SORT_NAME, - TF_SORT_NAME} \<longrightarrow> ds \<subseteq> plain_name)
     \<and> (sort_type \<in> {TF_SORT_TIME, - TF_SORT_TIME} \<longrightarrow> (\<exists>lo. ds \<subseteq> stamp_window lo))"

definition cmp_of :: "int \<Rightarrow> tf_dirent \<Rightarrow> tf_dirent \<Rightarrow> int" where
  "cmp_of sort_type =
     (if sort_type = TF_SORT_NAME then tf_cmp_dirent_by_name
      else if sort_type = TF_SORT_SIZE then tf_cmp_dirent_by_size
      else if sort_type = TF_SORT_TIME then tf_cmp_dirent_by_time
      else if sort_type = - TF_SORT_NAME then tf_cmp_dirent_by_reverse_name
      else if sort_type = - TF_SORT_SIZE then tf_cmp_dirent_by_reverse_size
      else tf_cmp_dirent_by_reverse_time)"

lemma sortable_comparator: "sortable sort_type ds \<Longrightarrow> c_comparator (cmp_of sort_type) ds"
  using name_cmp.subset reverse_name_cmp.subset time_cmp.subset reverse_time_cmp.subset
    size_cmp.c_comparator_axioms reverse_size_cmp.c_comparator_axioms
  by (auto simp: sortable_def cmp_of_def)

lemma type_cmp_cases:
  assumes "{d_type x, d_type y} \<subseteq> {CHR ''d'', CHR ''f''}"
  shows "tf_cmp_dirent_by_type x y =
    (if d_type x = d_type y then 0 else if d_type x = CHR ''d'' then -2 else 2)"
  using assms by (auto simp: tf_cmp_dirent_by_type_def char_int_def)

lemma stamp_window_diff: "x \<in> stamp_window lo \<Longrightarrow> y \<in> stamp_window lo \<Longrightarrow> c_int (d_stamp x - d_stamp y) = d_stamp x - d_stamp y"
  by (rule c_int_small) (auto simp: stamp_window_def)

lemma cmp_of_before:
  assumes "sortable sort_type ds" and "x \<in> ds" and "y \<in> ds" and "cmp_of sort_type x y \<le> 0"
  shows "sort_before sort_type x y"
proof -
  have types: "{d_type x, d_type y} \<subseteq> {CHR ''d'', CHR ''f''}"
    using assms(1-3) by (auto simp: sortable_def)
  have time: "c_int (d_stamp x - d_stamp y) = d_stamp x - d_stamp y \<and> c_int (d_stamp y - d_stamp x) = d_stamp y - d_stamp x"
    if "sort_type \<in> {3, -3}"
    using that assms(1-3) stamp_window_diff unfolding sortable_def by (metis subsetD)
  have name: "strcasecmp (d_name x) (d_name y) = - strcasecmp (d_name y) (d_name x)" by (rule strcasecmp_swap)
  have "sort_type \<in> {1, 2, 3, -1, -2, -3}" using assms(1) by (simp add: sortable_def)
  then consider "sort_type = 1" | "sort_type = 2" | "sort_type = 3" | "sort_type = -1" | "sort_type = -2" | "sort_type = -3"
    by auto
  then show ?thesis
    using assms(4) type_cmp_cases [OF types] time name
    by cases (auto simp: sort_before_def cmp_of_def Let_def tf_cmp_dirent_by_name_def tf_cmp_dirent_by_size_def
        tf_cmp_dirent_by_time_def tf_cmp_dirent_by_reverse_name_def tf_cmp_dirent_by_reverse_size_def
        tf_cmp_dirent_by_reverse_time_def split: if_splits)
qed

lemma stamps_within_window:
  assumes "finite ds" and "\<forall>x\<in>ds. \<forall>y\<in>ds. d_stamp x - d_stamp y < 2 ^ 31"
  shows "\<exists>lo. ds \<subseteq> stamp_window lo"
proof (cases "ds = {}")
  case False
  then have "Min (d_stamp ` ds) \<in> d_stamp ` ds" using assms(1) by (intro Min_in) auto
  then obtain y where y: "y \<in> ds" "d_stamp y = Min (d_stamp ` ds)" by auto
  have "ds \<subseteq> stamp_window (d_stamp y)"
  proof
    fix x assume "x \<in> ds"
    then have "d_stamp y \<le> d_stamp x" unfolding y(2) using assms(1) by simp
    moreover have "d_stamp x - d_stamp y < 2 ^ 31" using \<open>x \<in> ds\<close> assms(2) y(1) by blast
    ultimately show "x \<in> stamp_window (d_stamp y)" by (auto simp: stamp_window_def)
  qed
  then show ?thesis by blast
qed simp

lemma sortableI:
  assumes "sort_type \<in> {1, 2, 3, -1, -2, -3}" and "finite ds"
    and "\<forall>x\<in>ds. d_type x \<in> {CHR ''d'', CHR ''f''} \<and> CHR 0x00 \<notin> set (d_name x)"
    and "sort_type \<in> {TF_SORT_TIME, - TF_SORT_TIME} \<longrightarrow> (\<forall>x\<in>ds. \<forall>y\<in>ds. d_stamp x - d_stamp y < 2 ^ 31)"
  shows "sortable sort_type ds"
  using assms stamps_within_window [of ds] by (auto simp: sortable_def plain_name_def)

text \<open>C33. Sorting a listing of directories and files: with any \<^verbatim>\<open>qsort\<close> that meets its contract and
  for each of the six sort types, the entries of the listing are permuted into the promised order,
  directories first; the rest of the array is untouched. The two sorts by time need the stamps of
  the listing to lie within \<^verbatim>\<open>2^31\<close> seconds (68 years) of each other: the comparison cuts their
  difference to an \<^verbatim>\<open>int\<close>, and lemma \<^verbatim>\<open>time_order_cycle\<close> below shows that without the condition it
  is not an order.\<close>

theorem sort_dirents_sorted:
  assumes "qsort_contract qsort" and "n = nat (count e)" and "0 \<le> count e" and "n \<le> length (entry e)"
    and "sort_type \<in> {TF_SORT_NAME, TF_SORT_SIZE, TF_SORT_TIME, - TF_SORT_NAME, - TF_SORT_SIZE, - TF_SORT_TIME}"
    and "\<forall>x\<in>set (take n (entry e)). d_type x \<in> {CHR ''d'', CHR ''f''} \<and> CHR 0x00 \<notin> set (d_name x)"
    and "sort_type \<in> {TF_SORT_TIME, - TF_SORT_TIME} \<longrightarrow>
      (\<forall>x\<in>set (take n (entry e)). \<forall>y\<in>set (take n (entry e)). d_stamp x - d_stamp y < 2 ^ 31)"
  shows "\<exists>e'. tf_sort_dirents qsort e sort_type = Some e' \<and> count e' = count e
    \<and> mset (take n (entry e')) = mset (take n (entry e)) \<and> drop n (entry e') = drop n (entry e)
    \<and> sorted_wrt (sort_before sort_type) (take n (entry e'))"
proof -
  let ?xs = "take n (entry e)" and ?ys = "qsort (cmp_of sort_type) (take n (entry e))"
  have sortable: "sortable sort_type (set ?xs)" by (rule sortableI [OF assms(5) finite_set assms(6,7)])
  have q: "mset ?ys = mset ?xs" "sorted_wrt (\<lambda>x y. cmp_of sort_type x y \<le> 0) ?ys"
    using assms(1) sortable_comparator [OF sortable] unfolding qsort_contract_def by blast+
  then have set: "set ?ys = set ?xs" by (metis set_mset_mset)
  have len: "length ?ys = n" using q(1) assms(4) by (metis length_take min.absorb2 size_mset)
  have sorted: "sorted_wrt (sort_before sort_type) ?ys"
    using cmp_of_before [OF sortable] q(2) set by (auto intro: sorted_wrt_mono_rel [rotated])
  have "tf_sort_dirents qsort e sort_type = qsort_entries qsort e (cmp_of sort_type)"
    using assms(5) by (auto simp: tf_sort_dirents_def cmp_of_def)
  with q sorted len assms(2-4) show ?thesis
    by (simp add: qsort_entries_def)
qed

theorem sort_dirents_sorted_witness:
  "\<exists>e'. tf_sort_dirents insertion_sort \<lparr>count = 2, entry =
        [\<lparr>d_stamp = 1000, d_type = CHR ''f'', d_size = 4, d_name = ''b'', d_attrib = 0\<rparr>,
         \<lparr>d_stamp = 2000, d_type = CHR ''f'', d_size = 0, d_name = ''c'', d_attrib = 0\<rparr>]\<rparr> TF_SORT_TIME = Some e'
      \<and> map d_name (entry e') = [''c'', ''b'']"
proof -
  let ?b = "\<lparr>d_stamp = 1000, d_type = CHR ''f'', d_size = 4, d_name = ''b'', d_attrib = 0\<rparr> :: tf_dirent"
  let ?c = "\<lparr>d_stamp = 2000, d_type = CHR ''f'', d_size = 0, d_name = ''c'', d_attrib = 0\<rparr> :: tf_dirent"
  obtain e' where e': "tf_sort_dirents insertion_sort \<lparr>count = 2, entry = [?b, ?c]\<rparr> TF_SORT_TIME = Some e'"
    "mset (take 2 (entry e')) = mset [?b, ?c]" "drop 2 (entry e') = []" "sorted_wrt (sort_before TF_SORT_TIME) (take 2 (entry e'))"
    using sort_dirents_sorted [OF insertion_sort_contract, of 2 "\<lparr>count = 2, entry = [?b, ?c]\<rparr>" TF_SORT_TIME] by auto
  then have "take 2 (entry e') = entry e'" by (metis append.right_neutral append_take_drop_id)
  with e' have m: "mset (entry e') = mset [?b, ?c]" and sorted: "sorted_wrt (sort_before TF_SORT_TIME) (entry e')" by simp_all
  have "length (entry e') = 2" using m by (metis One_nat_def Suc_1 length_Cons list.size(3) size_mset)
  then obtain a b where ab: "entry e' = [a, b]" by (metis One_nat_def Suc_1 length_0_conv length_Suc_conv)
  with m have "a = ?b \<and> b = ?c \<or> a = ?c \<and> b = ?b" by (auto simp: add_eq_conv_ex)
  with sorted ab e'(1) show ?thesis by (auto simp: sort_before_def)
qed

text \<open>Sorting by time is not a consistent order on all listings: for three files of 2015, 1970
  and 1924 the comparison runs in a circle, because the difference of the time stamps is cut to
  32 bits.\<close>

theorem time_order_cycle:
  "tf_cmp_dirent_by_time (d\<lparr>d_stamp := 1431655765\<rparr>) (d\<lparr>d_stamp := 0\<rparr>) < 0
   \<and> tf_cmp_dirent_by_time (d\<lparr>d_stamp := 0\<rparr>) (d\<lparr>d_stamp := - 1431655765\<rparr>) < 0
   \<and> tf_cmp_dirent_by_time (d\<lparr>d_stamp := - 1431655765\<rparr>) (d\<lparr>d_stamp := 1431655765\<rparr>) < 0"
  by (simp add: tf_cmp_dirent_by_time_def tf_cmp_dirent_by_type_def c_int_def signed_take_bit_int_eq_self
      signed_take_bit_numeral_of_1)

end
