(* ===== verification/Usbutil.thy ===== *)
theory Usbutil
  imports Usb_Open
begin

text \<open>
  The build on the USB library, \<^verbatim>\<open>usbutil.c\<close>: finding the device in the library's lists of busses
  and devices, and opening and closing it. The library is a parameter: its calls are the fields of
  a record over a world and a type of handles. Of the library only what its documentation says of
  handles is used: opening makes a new handle of the device, closing ends it.
\<close>

section \<open>Definitions\<close>

text \<open>A device as the library lists it: its descriptor's numbers, and what identifies it.\<close>

record usb_device =
  idVendor :: u16
  idProduct :: u16
  filename :: string

record ('w, 'h) libusb =
  lu_init :: "'w \<Rightarrow> 'w"
  lu_find_busses :: "'w \<Rightarrow> 'w"
  lu_find_devices :: "'w \<Rightarrow> 'w"
  lu_busses :: "'w \<Rightarrow> usb_device list list"
  lu_open :: "usb_device \<Rightarrow> 'w \<Rightarrow> 'h option \<times> 'w"
  lu_close :: "'h \<Rightarrow> 'w \<Rightarrow> 'w"
  lu_claim :: "'h \<Rightarrow> int \<Rightarrow> 'w \<Rightarrow> int \<times> 'w"
  lu_release :: "'h \<Rightarrow> int \<Rightarrow> 'w \<Rightarrow> int \<times> 'w"
  lu_reset :: "'h \<Rightarrow> 'w \<Rightarrow> 'w"

text \<open>The loop over the devices of a bus, with the number of matches so far, and the loop over the
  busses.\<close>

fun find_on_bus :: "int \<Rightarrow> int \<Rightarrow> int \<Rightarrow> int \<Rightarrow> usb_device list \<Rightarrow> int \<times> usb_device option" where
  "find_on_bus vendor_id product_id index num [] = (num, None)"
| "find_on_bus vendor_id product_id index num (d # ds) =
     (if uint (idVendor d) = vendor_id \<and> uint (idProduct d) = product_id
      then if num = index then (num + 1, Some d) else find_on_bus vendor_id product_id index (num + 1) ds
      else find_on_bus vendor_id product_id index num ds)"

fun find_on_busses :: "int \<Rightarrow> int \<Rightarrow> int \<Rightarrow> int \<Rightarrow> usb_device list list \<Rightarrow> usb_device option" where
  "find_on_busses vendor_id product_id index num [] = None"
| "find_on_busses vendor_id product_id index num (bus # bs) =
     (case find_on_bus vendor_id product_id index num bus of
        (num, Some d) \<Rightarrow> Some d
      | (num, None) \<Rightarrow> find_on_busses vendor_id product_id index num bs)"

definition lu_open_usb_dev :: "('w, 'h) libusb \<Rightarrow> int \<Rightarrow> int \<Rightarrow> int \<Rightarrow> 'w sys \<Rightarrow> 'h option \<times> 'w sys" where
  "lu_open_usb_dev lu vendor_id product_id index s =
     (let s = s\<lparr>world := lu_find_devices lu (lu_find_busses lu (lu_init lu (world s)))\<rparr>
      in case find_on_busses vendor_id product_id index 0 (lu_busses lu (world s)) of
           None \<Rightarrow> (None, s)
         | Some usb_dev \<Rightarrow>
             let (devh, s) = sys_call (lu_open lu usb_dev) s
             in case devh of
                  None \<Rightarrow> (None, fprint stderr (''usb_open returned failure'' @ newline) s)
                | Some h \<Rightarrow>
                    let (err, s) = sys_call (lu_claim lu h 0) s
                    in if err \<noteq> 0 then
                         let s = fprint stderr (''usb_claim_interface returned an error ('' @ fmt_int err @ '')'' @ newline) s
                         in (None, s\<lparr>world := lu_close lu h (world s)\<rparr>)
                       else (Some h, s))"

definition lu_close_usb_dev :: "('w, 'h) libusb \<Rightarrow> nat \<Rightarrow> 'h \<Rightarrow> 'w sys \<Rightarrow> 'w sys" where
  "lu_close_usb_dev lu linux h s =
     (if linux \<ge> KERNEL_VERSION 2 6 0 \<and> linux \<le> KERNEL_VERSION 2 6 10
      then s\<lparr>world := lu_reset lu h (world s)\<rparr>
      else let (r, s) = sys_call (lu_release lu h 0) s;
               s = (if r \<noteq> 0 then fprint stderr (''usb_release_interface returned an error!'' @ newline) s else s)
           in s\<lparr>world := lu_close lu h (world s)\<rparr>)"

section \<open>The search\<close>

definition device_is :: "int \<Rightarrow> int \<Rightarrow> usb_device \<Rightarrow> bool" where
  "device_is v p d \<longleftrightarrow> uint (idVendor d) = v \<and> uint (idProduct d) = p"

lemma find_on_bus_spec:
  "find_on_bus v p i num ds =
     (let ms = filter (device_is v p) ds
      in if num \<le> i \<and> nat (i - num) < length ms then (i + 1, Some (ms ! nat (i - num)))
         else (num + int (length ms), None))"
proof (induction ds arbitrary: num)
  case (Cons d ds)
  show ?case
  proof (cases "device_is v p d \<and> num \<noteq> i")
    case True
    then have "num + 1 \<le> i \<longleftrightarrow> num \<le> i" and shift: "num \<le> i \<Longrightarrow> nat (i - num) = Suc (nat (i - (num + 1)))"
      by auto
    with True Cons.IH [of "num + 1"] show ?thesis by (auto simp: device_is_def Let_def)
  next
    case False
    with Cons.IH [of num] show ?thesis by (auto simp: device_is_def Let_def)
  qed
qed simp

lemma find_on_busses_spec:
  "find_on_busses v p i num bs =
     (let ms = filter (device_is v p) (concat bs)
      in if num \<le> i \<and> nat (i - num) < length ms then Some (ms ! nat (i - num)) else None)"
proof (induction bs arbitrary: num)
  case (Cons bus bs)
  let ?ms = "filter (device_is v p) bus"
  show ?case
  proof (cases "num \<le> i \<and> nat (i - num) < length ?ms")
    case True
    then show ?thesis by (simp add: find_on_bus_spec Let_def nth_append)
  next
    case False
    have "num + int (length ?ms) \<le> i \<longleftrightarrow> num \<le> i" and "num \<le> i \<Longrightarrow> nat (i - (num + int (length ?ms))) = nat (i - num) - length ?ms"
      if "num \<le> i \<Longrightarrow> length ?ms \<le> nat (i - num)" using that by auto
    with False Cons.IH [of "num + int (length ?ms)"] show ?thesis
      by (auto simp: find_on_bus_spec Let_def nth_append not_less)
  qed
qed simp

section \<open>Handles of the library\<close>

text \<open>What the library documents of its handles: \<open>handles w\<close> maps each open handle to its device.\<close>

definition handle_table :: "('w, 'h) libusb \<Rightarrow> ('w \<Rightarrow> 'h \<rightharpoonup> usb_device) \<Rightarrow> bool" where
  "handle_table lu handles \<longleftrightarrow>
     (\<forall>w. handles (lu_init lu w) = handles w \<and> handles (lu_find_busses lu w) = handles w
       \<and> handles (lu_find_devices lu w) = handles w)
   \<and> (\<forall>d w w'. lu_open lu d w = (None, w') \<longrightarrow> handles w' = handles w)
   \<and> (\<forall>d w h w'. lu_open lu d w = (Some h, w') \<longrightarrow> h \<notin> dom (handles w) \<and> handles w' = (handles w)(h \<mapsto> d))
   \<and> (\<forall>h i w. handles (snd (lu_claim lu h i w)) = handles w \<and> handles (snd (lu_release lu h i w)) = handles w)
   \<and> (\<forall>h w. handles (lu_close lu h w) = (handles w)(h := None))"

lemma handle_table_open:
  assumes "handle_table lu handles" and "lu_open lu d w = (devh, w1)"
  shows "case devh of None \<Rightarrow> handles w1 = handles w
    | Some h \<Rightarrow> h \<notin> dom (handles w) \<and> handles w1 = (handles w)(h \<mapsto> d)"
  using assms unfolding handle_table_def by (cases devh) (simp_all only: option.case, blast+)

lemma handle_table_calls:
  assumes "handle_table lu handles"
  shows "handles (lu_find_devices lu (lu_find_busses lu (lu_init lu w))) = handles w"
    and "lu_claim lu h i w = (err, w1) \<Longrightarrow> handles w1 = handles w"
    and "lu_release lu h i w = (err, w1) \<Longrightarrow> handles w1 = handles w"
    and "handles (lu_close lu h w) = (handles w)(h := None)"
  using assms by (simp_all add: handle_table_def) (metis snd_conv)+

text \<open>A library whose handles are places in a list of the devices opened so far, and on which the
  interface of a device can be claimed if its file name is not empty.\<close>

definition listed :: "usb_device option list \<Rightarrow> nat \<rightharpoonup> usb_device" where
  "listed w h = (if h < length w then w ! h else None)"

definition script_lu :: "usb_device list list \<Rightarrow> (usb_device option list, nat) libusb" where
  "script_lu busses = \<lparr>lu_init = (\<lambda>w. w), lu_find_busses = (\<lambda>w. w), lu_find_devices = (\<lambda>w. w), lu_busses = (\<lambda>w. busses),
     lu_open = (\<lambda>d w. (Some (length w), w @ [Some d])), lu_close = (\<lambda>h w. w[h := None]),
     lu_claim = (\<lambda>h i w. (case listed w h of Some d \<Rightarrow> if filename d = [] then -1 else 0 | None \<Rightarrow> -1, w)),
     lu_release = (\<lambda>h i w. (0, w)), lu_reset = (\<lambda>h w. w)\<rparr>"

lemma script_lu_handles: "handle_table (script_lu busses) listed"
  by (auto simp: handle_table_def script_lu_def listed_def fun_eq_iff nth_append nth_list_update less_Suc_eq)

lemma lu_open_usb_dev_run:
  assumes "w = lu_find_devices lu (lu_find_busses lu (lu_init lu (world s)))"
    and "ms = filter (device_is v p) (concat (lu_busses lu w))"
  shows "lu_open_usb_dev lu v p index s =
    (if 0 \<le> index \<and> nat index < length ms then
       let (devh, w1) = lu_open lu (ms ! nat index) w
       in case devh of
            None \<Rightarrow> (None, fprint stderr (''usb_open returned failure'' @ newline) (s\<lparr>world := w1\<rparr>))
          | Some h \<Rightarrow>
              let (err, w2) = lu_claim lu h 0 w1
              in if err \<noteq> 0 then
                   (None, (fprint stderr (''usb_claim_interface returned an error ('' @ fmt_int err @ '')'' @ newline)
                      (s\<lparr>world := w2\<rparr>))\<lparr>world := lu_close lu h w2\<rparr>)
                 else (Some h, s\<lparr>world := w2\<rparr>)
     else (None, s\<lparr>world := w\<rparr>))"
proof -
  have f: "find_on_busses v p index 0 (lu_busses lu w) = (if 0 \<le> index \<and> nat index < length ms then Some (ms ! nat index) else None)"
    by (simp add: find_on_busses_spec assms(2) Let_def)
  note run = lu_open_usb_dev_def [of lu v p index s, folded assms(1)]
  show ?thesis
  proof (cases "0 \<le> index \<and> nat index < length ms")
    case True
    with f have f: "find_on_busses v p index 0 (lu_busses lu w) = Some (ms ! nat index)" by simp
    obtain devh w1 where op: "lu_open lu (ms ! nat index) w = (devh, w1)" by fastforce
    show ?thesis
    proof (cases devh)
      case None
      with True op f show ?thesis by (simp add: run sys_call_def)
    next
      case (Some h)
      obtain err w2 where "lu_claim lu h 0 w1 = (err, w2)" by fastforce
      with True op f Some show ?thesis by (cases "err = 0") (simp_all add: run sys_call_def Let_def)
    qed
  next
    case False
    then have "find_on_busses v p index 0 (lu_busses lu w) = None" using f by auto
    moreover have "world (s\<lparr>world := w\<rparr>) = w" by simp
    ultimately show ?thesis unfolding run using False by (simp only: Let_def if_False option.case)
  qed
qed

lemma lu_close_handles:
  assumes "handle_table lu handles" and "linux < KERNEL_VERSION 2 6 0 \<or> KERNEL_VERSION 2 6 10 < linux"
  shows "handles (world (lu_close_usb_dev lu linux h s)) = (handles (world s))(h := None)"
proof -
  obtain r w1 where rel: "lu_release lu h 0 (world s) = (r, w1)" by fastforce
  have "(linux \<ge> KERNEL_VERSION 2 6 0 \<and> linux \<le> KERNEL_VERSION 2 6 10) = False" using assms(2) by auto
  then have "world (lu_close_usb_dev lu linux h s) = lu_close lu h w1"
    using rel unfolding lu_close_usb_dev_def by (simp only: if_False) (simp add: sys_call_def Let_def)
  then show ?thesis using handle_table_calls(3) [OF assms(1) rel] handle_table_calls(4) [OF assms(1), of h w1] by simp
qed

section \<open>Properties\<close>

text \<open>C32. Opening the device through the library: of all devices with the vendor and product number, in
  the order of the busses and of the devices on them, exactly the one with number \<open>index\<close> is opened.
  A result is a new handle of that device, with interface 0 claimed, and the only new open handle;
  closing it ends it, except on the kernels for which the device is reset instead.
  There is no result, and no handle is left open, exactly if there are not so many devices, the
  library does not open this one, or its interface cannot be claimed.\<close>

theorem lu_open_usb_dev_selects:
  assumes "handle_table lu handles" and "w = lu_find_devices lu (lu_find_busses lu (lu_init lu (world s)))"
    and "ms = filter (device_is v p) (concat (lu_busses lu w))"
    and "lu_open_usb_dev lu v p index s = (devh, s')"
  shows "case devh of
      Some h \<Rightarrow> 0 \<le> index \<and> nat index < length ms
        \<and> h \<notin> dom (handles (world s)) \<and> handles (world s') = (handles (world s))(h \<mapsto> ms ! nat index)
        \<and> (\<exists>w1. lu_open lu (ms ! nat index) w = (Some h, w1) \<and> lu_claim lu h 0 w1 = (0, world s'))
        \<and> (linux < KERNEL_VERSION 2 6 0 \<or> KERNEL_VERSION 2 6 10 < linux \<longrightarrow>
             handles (world (lu_close_usb_dev lu linux h s')) = handles (world s))
    | None \<Rightarrow> handles (world s') = handles (world s)
        \<and> (index < 0 \<or> length ms \<le> nat index \<or> fst (lu_open lu (ms ! nat index) w) = None
           \<or> (\<exists>h w1. lu_open lu (ms ! nat index) w = (Some h, w1) \<and> fst (lu_claim lu h 0 w1) \<noteq> 0))"
proof -
  have w: "handles w = handles (world s)" using handle_table_calls(1) [OF assms(1)] assms(2) by simp
  note run = lu_open_usb_dev_run [OF assms(2,3), of index, unfolded assms(4)]
  show ?thesis
  proof (cases "0 \<le> index \<and> nat index < length ms")
    case False
    with run w show ?thesis by auto
  next
    case True
    obtain dh w1 where op: "lu_open lu (ms ! nat index) w = (dh, w1)" by fastforce
    note open1 = handle_table_open [OF assms(1) op]
    show ?thesis
    proof (cases dh)
      case None
      with True run op open1 w show ?thesis by simp
    next
      case (Some h)
      obtain err w2 where cl: "lu_claim lu h 0 w1 = (err, w2)" by fastforce
      have w2: "h \<notin> dom (handles w)" "handles w2 = (handles w)(h \<mapsto> ms ! nat index)"
        using handle_table_calls(2) [OF assms(1) cl] open1 Some by simp_all
      then have "handles (lu_close lu h w2) = handles w"
        using handle_table_calls(4) [OF assms(1)] by (auto simp: fun_eq_iff domIff)
      moreover have "handles (world (lu_close_usb_dev lu linux h s')) = handles w"
        if "handles (world s') = handles w2" "linux < KERNEL_VERSION 2 6 0 \<or> KERNEL_VERSION 2 6 10 < linux"
        using lu_close_handles [OF assms(1) that(2)] that(1) w2 by (auto simp: fun_eq_iff domIff)
      ultimately show ?thesis using True run op Some cl w2 w by (cases "err = 0") simp_all
    qed
  qed
qed

theorem lu_open_usb_dev_selects_witness:
  "\<exists>s'. lu_open_usb_dev (script_lu [[\<lparr>idVendor = 0, idProduct = 0, filename = ''001''\<rparr>, \<lparr>idVendor = 0x11DB, idProduct = 0x1000, filename = ''005''\<rparr>],
        [\<lparr>idVendor = 0x11DB, idProduct = 0x1000, filename = ''012''\<rparr>]]) 0x11DB 0x1000 1 \<lparr>world = [], printed = []\<rparr> = (Some 0, s')
    \<and> listed (world s') 0 = Some \<lparr>idVendor = 0x11DB, idProduct = 0x1000, filename = ''012''\<rparr>"
proof -
  let ?d1 = "\<lparr>idVendor = 0x11DB, idProduct = 0x1000, filename = ''005''\<rparr>" and ?d2 = "\<lparr>idVendor = 0x11DB, idProduct = 0x1000, filename = ''012''\<rparr>"
  let ?lu = "script_lu [[\<lparr>idVendor = 0, idProduct = 0, filename = ''001''\<rparr>, ?d1], [?d2]]" and ?s = "\<lparr>world = [], printed = []\<rparr>"
  have w: "[] = lu_find_devices ?lu (lu_find_busses ?lu (lu_init ?lu (world ?s)))" by (simp add: script_lu_def)
  have ms: "[?d1, ?d2] = filter (device_is 0x11DB 0x1000) (concat (lu_busses ?lu []))" by (simp add: script_lu_def device_is_def)
  have opened: "lu_open ?lu ?d2 [] = (Some 0, [Some ?d2])" "lu_claim ?lu 0 0 [Some ?d2] = (0, [Some ?d2])"
    by (simp_all add: script_lu_def listed_def)
  obtain devh s' where run: "lu_open_usb_dev ?lu 0x11DB 0x1000 1 ?s = (devh, s')" by fastforce
  note selects = lu_open_usb_dev_selects [OF script_lu_handles w ms run]
  show ?thesis
  proof (cases devh)
    case None
    with selects opened show ?thesis by simp
  next
    case (Some h)
    with selects opened have "h = 0" "listed (world s') h = Some ?d2" by simp_all
    with run Some show ?thesis by simp
  qed
qed

end
