(* ===== verification/Tf_Fwio.thy ===== *)
theory Tf_Fwio
  imports Tf_Handle
begin

text \<open>
  Firmware upload through the boot loader, \<^verbatim>\<open>tf_fwio.c\<close>. The boot loader speaks a protocol of its
  own: big endian packets without byte swapping, marked \<^verbatim>\<open>ToFi\<close>, with a sequence number and a
  byte sum as checksum. The packet structure is raw memory of 32777 bytes: \<^verbatim>\<open>tofi\<close> at offset 0,
  \<^verbatim>\<open>seq\<close> at 4, \<^verbatim>\<open>cmd\<close> at 5, \<^verbatim>\<open>length\<close> at 6 (in host order until the packet is finished) and
  \<^verbatim>\<open>data\<close> at 8. The static functions whose names \<^verbatim>\<open>tf_io.c\<close> uses too are called \<open>fw_\<dots>\<close> here.
\<close>

section \<open>Definitions\<close>

abbreviation (input) MAX_DATA_SIZE :: nat where "MAX_DATA_SIZE \<equiv> 0x8000"
abbreviation (input) MAX_SEND_SIZE :: nat where "MAX_SEND_SIZE \<equiv> 0x4000"
abbreviation (input) FW_HEAD_SIZE :: nat where "FW_HEAD_SIZE \<equiv> 8"
abbreviation (input) sizeof_fw_packet :: nat where "sizeof_fw_packet \<equiv> 32777"

abbreviation (input) TF_FW_ID :: u8 where "TF_FW_ID \<equiv> 0x02"
abbreviation (input) TF_FW_PC_TO_STB :: u8 where "TF_FW_PC_TO_STB \<equiv> 0x01"
abbreviation (input) TF_FW_STB_TO_PC :: u8 where "TF_FW_STB_TO_PC \<equiv> 0x03"
abbreviation (input) TF_FW_REQ_DATA :: u8 where "TF_FW_REQ_DATA \<equiv> 0x04"
abbreviation (input) TF_FW_DATA :: u8 where "TF_FW_DATA \<equiv> 0x05"
abbreviation (input) TF_FW_END :: u8 where "TF_FW_END \<equiv> 0x06"
abbreviation (input) TF_FW_REBOOT :: u8 where "TF_FW_REBOOT \<equiv> 0x0B"

record tf_fw_data =
  fw_seq :: u32
  fw_len :: u32
  fw_offset :: u64

definition fw_command_name :: "u8 \<Rightarrow> string" where
  "fw_command_name cmd =
     (if cmd = TF_FW_ID then ''ID''
      else if cmd = TF_FW_PC_TO_STB then ''PC_TO_STB''
      else if cmd = TF_FW_STB_TO_PC then ''STB_TO_PC''
      else if cmd = TF_FW_REQ_DATA then ''REQ_DATA''
      else if cmd = TF_FW_DATA then ''DATA''
      else if cmd = TF_FW_END then ''END''
      else ''UNKNOWN('' @ fmt_hex True 2 (unat cmd) @ '')'')"

definition fw_print_packet ::
  "'w os \<Rightarrow> stream option \<Rightarrow> string \<Rightarrow> int \<Rightarrow> mem \<Rightarrow> 'w sys \<Rightarrow> 'w sys" where
  "fw_print_packet os fh prefix level packet s =
     (case fh of
        None \<Rightarrow> s
      | Some fh \<Rightarrow>
          if level > 0 then
            let len = unat (get_u16 packet 6);
                cmd = packet 5;
                num = min 64 ((len + 8 + 1 + 1) div 2 * 2)
            in fprint fh (''('' @ fmt_int (os_time os (world s)) @ '') '' @ prefix @ '': cmd='' @ fw_command_name cmd
                 @ ''(0x'' @ fmt_hex True 2 (unat cmd) @ ''), len='' @ fmt_int (int len)
                 @ '', seq=0x'' @ fmt_hex True 2 (unat (packet 4)) @ newline
                 @ ''HEADER:'' @ concat (map (\<lambda>b. CHR '' '' # fmt_hex False 2 (unat b)) (bytes_at packet 0 8))
                 @ fmt_bytes (bytes_at packet 0 num) @ newline) s
          else s)"

definition fw_req_init :: "mem \<Rightarrow> u8 \<Rightarrow> u8 \<Rightarrow> mem" where
  "fw_req_init req cmd seq =
     (let req = memset req 0 sizeof_fw_packet;
          req = store req 0 (map of_char ''ToFi'');
          req = req(5 := cmd)
      in req(4 := seq))"

text \<open>The checksum loop, with the sum so far.\<close>

fun checksum_loop :: "u8 \<Rightarrow> u8 list \<Rightarrow> u8" where
  "checksum_loop acc [] = acc"
| "checksum_loop acc (b # bs) = checksum_loop (acc + b) bs"

definition calc_checksum :: "u8 list \<Rightarrow> u8" where
  "calc_checksum bs = checksum_loop 0x00 bs"

definition fw_req_done :: "'w os \<Rightarrow> tf_handle \<Rightarrow> mem \<Rightarrow> 'w sys \<Rightarrow> (mem \<times> 'w sys) option" where
  "fw_req_done os tf req s =
     (let len = host_u16 req 6;
          req = put_u16 req 6 len;
          n = unat len
      in if FW_HEAD_SIZE + n < sizeof_fw_packet
         then let req = req(FW_HEAD_SIZE + n := calc_checksum (bytes_at req 4 (n + 4)))
              in Some (req, fw_print_packet os (tracefh tf) ''>>'' (trace_level tf) req s)
         else None)"

definition fw_req_putdata :: "mem \<Rightarrow> u8 list \<Rightarrow> mem option" where
  "fw_req_putdata req data =
     (let a = FW_HEAD_SIZE + unat (host_u16 req 6)
      in if a + length data \<le> sizeof_fw_packet
         then let b = store req a data in Some (set_host_u16 b 6 (host_u16 b 6 + of_nat (length data)))
         else None)"

text \<open>The number of bytes \<^verbatim>\<open>tf_send\<close> transmits: the packet, its checksum and the padding.\<close>

definition fw_send_length :: "mem \<Rightarrow> nat" where
  "fw_send_length req =
     (let len = FW_HEAD_SIZE + unat (get_u16 req 6) + 1;
          pad = (if len mod 2 \<noteq> 0 then 1 else 0);
          pad = (if (len + pad) mod 0x200 = 0 \<and> pad + len \<noteq> MAX_SEND_SIZE then pad + 2 else pad)
      in len + pad)"

text \<open>The loop over the chunks: \<open>at\<close> is how far the data pointer has moved, \<open>len\<close> what is left. A
  chunk that reaches past the packet structure is undefined.\<close>

function fw_send_loop ::
  "'w os \<Rightarrow> int \<Rightarrow> mem \<Rightarrow> nat \<Rightarrow> nat \<Rightarrow> int \<Rightarrow> 'w sys \<Rightarrow> (int \<times> 'w sys) option" where
  "fw_send_loop os fd req at len t s =
     (let tosend = min len MAX_SEND_SIZE
      in if at + tosend > sizeof_fw_packet then None
         else let (ret, s) = usb_bulk_write os fd 0x01 (bytes_at req at tosend) t s
              in if ret \<noteq> int tosend then Some (-1, s)
                 else if len - tosend \<noteq> 0 then fw_send_loop os fd req (at + tosend) (len - tosend) t s
                 else Some (0, s))"
  by pat_completeness auto
termination
  by (relation "measure (\<lambda>(os, fd, req, at, len, t, s). len)") auto

declare fw_send_loop.simps [simp del]

definition fw_send :: "'w os \<Rightarrow> tf_handle \<Rightarrow> mem \<Rightarrow> 'w sys \<Rightarrow> (int \<times> tf_handle \<times> 'w sys) option" where
  "fw_send os tf req s =
     (case dev tf of
        Some fd \<Rightarrow> do {
          (err, s) \<leftarrow> fw_send_loop os fd req 0 (fw_send_length req) (timeout tf) s;
          Some (err, tf\<lparr>error := err\<rparr>, s)
        }
      | None \<Rightarrow> Some (-2, tf\<lparr>error := -2\<rparr>, s))"

definition fw_get_response :: "'w os \<Rightarrow> tf_handle \<Rightarrow> mem \<Rightarrow> 'w sys \<Rightarrow> int \<times> mem \<times> tf_handle \<times> 'w sys" where
  "fw_get_response os tf reply s =
     (case dev tf of
        None \<Rightarrow> (-2, reply, tf\<lparr>error := -2\<rparr>, s)
      | Some fd \<Rightarrow>
          let (ret, reply, s) = usb_bulk_read os fd 0x82 reply sizeof_fw_packet (timeout tf) s
          in if ret < int FW_HEAD_SIZE then (-1, reply, tf\<lparr>error := -1\<rparr>, s)
             else let len = unat (get_u16 reply 6)
                  in if ret < int len then (-1, reply, tf\<lparr>error := -1\<rparr>, s)
                     else (0, reply, tf\<lparr>error := 0\<rparr>,
                       fw_print_packet os (tracefh tf) ''<<'' (trace_level tf) reply s))"

definition tf_wait_for_req_data ::
  "'w os \<Rightarrow> tf_handle \<Rightarrow> tf_fw_data \<Rightarrow> 'w sys \<Rightarrow> int \<times> tf_fw_data \<times> tf_handle \<times> 'w sys" where
  "tf_wait_for_req_data os tf fw_data s =
     (let (ret, reply, tf, s) = fw_get_response os tf (os_junk os ''reply'' (world s)) s
      in if ret \<noteq> 0 then (-1, fw_data, tf, s)
         else if reply 5 = TF_FW_REQ_DATA then
           (0, \<lparr>fw_seq = ucast (reply 4), fw_len = ucast (get_u16 reply 8), fw_offset = ucast (get_u24 reply 10)\<rparr>, tf, s)
         else if reply 5 = TF_FW_END then (1, fw_data, tf, s)
         else (-1, fw_data, tf, s))"

definition tf_fw_upload ::
  "'w os \<Rightarrow> tf_handle \<Rightarrow> tf_fw_data \<Rightarrow> 'w sys \<Rightarrow> (int \<times> tf_fw_data \<times> tf_handle \<times> 'w sys) option" where
  "tf_fw_upload os tf fw_data s = do {
     (req, s) \<leftarrow> fw_req_done os tf (fw_req_init (os_junk os ''req'' (world s)) TF_FW_PC_TO_STB 0) s;
     (ret, tf, s) \<leftarrow> fw_send os tf req s;
     (if ret = 0 then
        let (ret, reply, tf, s) = fw_get_response os tf (os_junk os ''reply'' (world s)) s
        in if ret \<noteq> 0 \<or> reply 5 \<noteq> TF_FW_ID then Some (-1, fw_data, tf, s)
           else Some (tf_wait_for_req_data os tf fw_data s)
      else Some (-1, fw_data, tf, s))
   }"

text \<open>Messages to the system log are kept apart as stream 0, which no open file is.\<close>

abbreviation (input) syslog :: stream where "syslog \<equiv> 0"

definition tf_fw_upload_next ::
  "'w os \<Rightarrow> tf_handle \<Rightarrow> u8 list \<Rightarrow> tf_fw_data \<Rightarrow> 'w sys \<Rightarrow> (int \<times> tf_fw_data \<times> tf_handle \<times> 'w sys) option" where
  "tf_fw_upload_next os tf data fw_data s =
     (if length data > MAX_DATA_SIZE then
        Some (-1, fw_data, tf,
          fprint syslog (''Attempt to send too much data ('' @ fmt_int (int (length data)) @ '')'') s)
      else do {
        req \<leftarrow> fw_req_putdata (fw_req_init (os_junk os ''req'' (world s)) TF_FW_DATA (ucast (fw_seq fw_data))) data;
        (req, s) \<leftarrow> fw_req_done os tf req s;
        (ret, tf, s) \<leftarrow> fw_send os tf req s;
        (if ret \<noteq> 0 then Some (-1, fw_data, tf, s)
         else Some (tf_wait_for_req_data os tf fw_data s))
      })"

definition tf_fw_reboot :: "'w os \<Rightarrow> tf_handle \<Rightarrow> 'w sys \<Rightarrow> (int \<times> tf_handle \<times> 'w sys) option" where
  "tf_fw_reboot os tf s = do {
     (req, s) \<leftarrow> fw_req_done os tf (fw_req_init (os_junk os ''req'' (world s)) TF_FW_REBOOT 0) s;
     fw_send os tf req s
   }"

text \<open>
  Specification. A packet is the mark, sequence number, command and length of the data, the data
  and the byte sum of everything behind the mark; zeros follow, so that the whole is even and no
  multiple of 512 unless it fills one transfer. \<open>fw_building m seq cmd data\<close>: the buffer holds an
  unfinished request.
\<close>

definition fw_frame :: "u8 \<Rightarrow> u8 \<Rightarrow> u8 list \<Rightarrow> u8 list" where
  "fw_frame seq cmd data =
     (let body = [seq, cmd] @ be16 (of_nat (length data)) @ data in map of_char ''ToFi'' @ body @ [sum_list body])"

definition fw_padding :: "nat \<Rightarrow> nat" where
  "fw_padding n = (let p = n mod 2 in if (n + p) mod 512 = 0 \<and> n + p \<noteq> 16384 then p + 2 else p)"

definition fw_wire :: "u8 \<Rightarrow> u8 \<Rightarrow> u8 list \<Rightarrow> u8 list" where
  "fw_wire seq cmd data = fw_frame seq cmd data @ replicate (fw_padding (length (fw_frame seq cmd data))) 0"

definition fw_building :: "mem \<Rightarrow> u8 \<Rightarrow> u8 \<Rightarrow> u8 list \<Rightarrow> bool" where
  "fw_building m seq cmd data \<longleftrightarrow> length data \<le> MAX_DATA_SIZE
     \<and> bytes_at m 0 4 = map of_char ''ToFi'' \<and> bytes_at m 4 2 = [seq, cmd]
     \<and> host_u16 m 6 = of_nat (length data) \<and> bytes_at m 8 (length data) = data
     \<and> (\<forall>i. 8 + length data \<le> i \<longrightarrow> i < sizeof_fw_packet \<longrightarrow> m i = 0)"

section \<open>Building a request\<close>

lemma checksum_loop_sum: "checksum_loop acc bs = acc + sum_list bs"
  by (induction bs arbitrary: acc) (simp_all add: add.assoc)

lemma calc_checksum_sum: "calc_checksum bs = sum_list bs"
  by (simp add: calc_checksum_def checksum_loop_sum)

lemma fw_print_packet_world [simp]: "world (fw_print_packet os fh prefix level p s) = world s"
  by (simp add: fw_print_packet_def fprint_def Let_def split: option.split)

lemma fw_print_packet_silent: "level \<le> 0 \<Longrightarrow> fw_print_packet os fh prefix level p s = s"
  by (simp add: fw_print_packet_def split: option.split)

lemma length_fw_frame [simp]: "length (fw_frame seq cmd data) = 9 + length data"
  by (simp add: fw_frame_def Let_def)

lemma fw_building_init: "fw_building (fw_req_init junk cmd seq) seq cmd []"
proof -
  have "fw_req_init junk cmd seq i = 0" if "8 \<le> i" "i < sizeof_fw_packet" for i
    using that by (simp add: fw_req_init_def Let_def store_other memset_def)
  moreover have "fw_req_init junk cmd seq 6 = 0" "fw_req_init junk cmd seq 7 = 0"
    by (simp_all add: fw_req_init_def Let_def store_other memset_def)
  ultimately show ?thesis
    by (simp add: fw_building_def host_u16_def bytes_at_fields, simp add: fw_req_init_def Let_def store_def)
qed

lemma fw_building_putdata:
  assumes "fw_building m seq cmd []" and "length data \<le> MAX_DATA_SIZE"
  shows "\<exists>m'. fw_req_putdata m data = Some m' \<and> fw_building m' seq cmd data"
proof -
  let ?b = "store m 8 data"
  let ?m = "set_host_u16 ?b 6 (of_nat (length data))"
  have zero: "host_u16 m 6 = 0" using assms(1) by (simp add: fw_building_def)
  then have "fw_req_putdata m data = Some ?m"
    using assms(2) by (simp add: fw_req_putdata_def host_u16_store_other Let_def)
  moreover have "fw_building ?m seq cmd data"
    using assms by (auto simp: fw_building_def host_u16_set bytes_at_set_host_u16_other bytes_at_store_other
        bytes_at_store_same set_host_u16_other store_other)
  ultimately show ?thesis by blast
qed

lemma fw_building_done:
  assumes "fw_building m seq cmd data"
  shows "\<exists>m' s'. fw_req_done os tf m s = Some (m', s') \<and> bytes_at m' 0 (9 + length data) = fw_frame seq cmd data
    \<and> (\<forall>i. 9 + length data \<le> i \<longrightarrow> i < sizeof_fw_packet \<longrightarrow> m' i = 0)
    \<and> world s' = world s \<and> (trace_level tf \<le> 0 \<longrightarrow> s' = s)"
proof -
  note b = assms [unfolded fw_building_def]
  let ?n = "length data"
  define p where "p = put_u16 m 6 (of_nat ?n)"
  define m' where "m' = p(8 + ?n := sum_list (bytes_at p 4 (?n + 4)))"
  have n: "unat (host_u16 m 6) = ?n"
    using b by (simp add: unat_of_nat16)
  have parts: "bytes_at p 0 4 = map of_char ''ToFi''" "bytes_at p 4 2 = [seq, cmd]"
      "bytes_at p 6 2 = be16 (of_nat ?n)" "bytes_at p 8 ?n = data"
    using b by (simp_all add: p_def put_u16_store bytes_at_store_other bytes_at_store_same)
  have body: "bytes_at p 4 (?n + 4) = [seq, cmd] @ be16 (of_nat ?n) @ data"
  proof -
    have "?n + 4 = 2 + (2 + ?n)" by simp
    then show ?thesis by (simp only: bytes_at_append) (simp add: parts)
  qed
  have "9 + ?n = 4 + ((?n + 4) + 1)" by simp
  then have "bytes_at m' 0 (9 + ?n) = bytes_at m' 0 4 @ bytes_at m' 4 (?n + 4) @ [m' (8 + ?n)]"
    by (simp only: bytes_at_append) (simp add: bytes_at_Suc add.commute [of 8])
  also have "\<dots> = bytes_at p 0 4 @ bytes_at p 4 (?n + 4) @ [sum_list (bytes_at p 4 (?n + 4))]"
    by (intro arg_cong2 [of _ _ _ _ "(@)"] bytes_at_cong) (auto simp: m'_def)
  also have "\<dots> = fw_frame seq cmd data"
    by (simp add: parts(1) body fw_frame_def Let_def)
  finally have frame: "bytes_at m' 0 (9 + ?n) = fw_frame seq cmd data" .
  have zero: "m' i = 0" if "9 + ?n \<le> i" "i < sizeof_fw_packet" for i
    using that b by (simp add: m'_def p_def put_u16_store store_other)
  have "fw_req_done os tf m s = Some (m', fw_print_packet os (tracefh tf) ''>>'' (trace_level tf) m' s)"
    using b n by (simp add: fw_req_done_def Let_def p_def m'_def calc_checksum_sum)
  then show ?thesis
    using frame zero by (auto simp: fw_print_packet_world fw_print_packet_silent)
qed

section \<open>Sending\<close>

lemma length_fw_wire: "length (fw_wire seq cmd data) = 9 + length data + fw_padding (9 + length data)"
  by (simp add: fw_wire_def)

lemma even_fw_wire: "even (length (fw_wire seq cmd data))"
proof -
  have "even (k + fw_padding k)" for k
    by (simp add: fw_padding_def Let_def)
  then show ?thesis by (simp only: length_fw_wire)
qed

text \<open>The padding of the largest block alone passes the end of the packet structure.\<close>

lemma fw_wire_fits_iff:
  assumes "length data \<le> MAX_DATA_SIZE"
  shows "length (fw_wire seq cmd data) \<le> sizeof_fw_packet \<longleftrightarrow> length data \<noteq> MAX_DATA_SIZE"
proof -
  define n where "n = length data"
  have "9 + n + fw_padding (9 + n) \<le> 32777 \<longleftrightarrow> n \<noteq> 32768" if "n \<le> 32768"
  proof (cases "n = 32768")
    case True
    then show ?thesis by (simp add: fw_padding_def)
  next
    case False
    with that have lt: "n < 32768" by simp
    let ?k = "9 + n + (9 + n) mod 2"
    show ?thesis
    proof (cases "?k mod 512 = 0")
      case True
      then obtain q where q: "?k = 512 * q" by (metis mod_0_imp_dvd dvd_def)
      with lt have "q \<le> 64" by (auto simp: mod2_eq_if split: if_splits)
      with q have "?k \<le> 32768" by simp
      then show ?thesis using lt by (simp add: fw_padding_def Let_def)
    next
      case nz: False
      then have "fw_padding (9 + n) = (9 + n) mod 2" by (simp add: fw_padding_def Let_def)
      moreover have "9 + n = 32777 \<Longrightarrow> False" using lt by simp
      ultimately show ?thesis using lt by (auto simp: mod2_eq_if)
    qed
  qed
  then show ?thesis using assms by (simp add: length_fw_wire n_def)
qed

text \<open>A finished request in memory.\<close>

definition fw_finished :: "mem \<Rightarrow> u8 \<Rightarrow> u8 \<Rightarrow> u8 list \<Rightarrow> bool" where
  "fw_finished m seq cmd data \<longleftrightarrow> length data \<le> MAX_DATA_SIZE
     \<and> bytes_at m 0 (9 + length data) = fw_frame seq cmd data
     \<and> (\<forall>i. 9 + length data \<le> i \<longrightarrow> i < sizeof_fw_packet \<longrightarrow> m i = 0)"

lemma fw_frame_fields:
  assumes "bytes_at m 0 (9 + length data) = fw_frame seq cmd data"
  shows "m 4 = seq" "m 5 = cmd" "get_u16 m 6 = of_nat (length data)" "bytes_at m 8 (length data) = data"
proof -
  have f: "fw_frame seq cmd data = map of_char ''ToFi'' @ [seq, cmd] @ be16 (of_nat (length data)) @ data
      @ [sum_list ([seq, cmd] @ be16 (of_nat (length data)) @ data)]"
    by (simp add: fw_frame_def Let_def)
  have at: "m (0 + i) = fw_frame seq cmd data ! i" if "i < 9 + length data" for i
    by (rule bytes_at_eq_nthD [OF assms that])
  show "m 4 = seq" "m 5 = cmd" using at [of 4] at [of 5] by (simp_all add: f)
  have "bytes_at m 6 2 = be16 (of_nat (length data))"
    using at [of 6] at [of 7] by (simp add: f bytes_at_fields nth_append be16_def)
  then show "get_u16 m 6 = of_nat (length data)" by (rule get_u16_bytes_at)
  show "bytes_at m 8 (length data) = data"
    using at [of "8 + i" for i] by (intro nth_equalityI) (auto simp: f nth_append be16_def)
qed

lemma fw_request:
  assumes "length data \<le> MAX_DATA_SIZE"
  shows "\<exists>r m s'. fw_req_putdata (fw_req_init junk cmd seq) data = Some r \<and> fw_req_done os tf r s = Some (m, s')
    \<and> fw_finished m seq cmd data \<and> world s' = world s \<and> (trace_level tf \<le> 0 \<longrightarrow> s' = s)"
  using fw_building_putdata [OF fw_building_init assms, of junk cmd seq]
    fw_building_done [of _ seq cmd data os tf s] assms unfolding fw_finished_def by meson

lemma fw_request_nodata:
  "\<exists>m s'. fw_req_done os tf (fw_req_init junk cmd seq) s = Some (m, s')
    \<and> fw_finished m seq cmd [] \<and> world s' = world s \<and> (trace_level tf \<le> 0 \<longrightarrow> s' = s)"
  using fw_building_done [OF fw_building_init, of os tf junk cmd seq s] by (auto simp: fw_finished_def)

lemma fw_finished_length:
  assumes "fw_finished m seq cmd data"
  shows "fw_send_length m = length (fw_wire seq cmd data)"
proof -
  have "unat (get_u16 m 6) = length data"
    using fw_frame_fields(3) [of m data seq cmd] assms by (simp add: fw_finished_def unat_of_nat16)
  then show ?thesis
    by (simp add: fw_send_length_def length_fw_wire fw_padding_def Let_def mod2_eq_if add.commute)
qed

lemma fw_finished_bytes:
  assumes "fw_finished m seq cmd data" and "length data \<noteq> MAX_DATA_SIZE"
  shows "bytes_at m 0 (length (fw_wire seq cmd data)) = fw_wire seq cmd data"
proof -
  have n: "length data \<le> MAX_DATA_SIZE" and f: "bytes_at m 0 (9 + length data) = fw_frame seq cmd data"
    and z: "\<And>i. 9 + length data \<le> i \<Longrightarrow> i < sizeof_fw_packet \<Longrightarrow> m i = 0"
    using assms(1) by (auto simp: fw_finished_def)
  have "9 + length data + fw_padding (9 + length data) \<le> sizeof_fw_packet"
    using fw_wire_fits_iff [OF n] assms(2) by (simp add: length_fw_wire)
  then have "bytes_at m (9 + length data) (fw_padding (9 + length data)) = replicate (fw_padding (9 + length data)) 0"
    by (intro nth_equalityI) (auto intro: z)
  then show ?thesis
    unfolding length_fw_wire bytes_at_append [of m 0 "9 + length data"] by (simp only: f) (simp add: fw_wire_def)
qed

text \<open>Whatever the device takes of each chunk: result 0 means that everything has arrived, in order,
  and otherwise a proper prefix of it has.\<close>

lemma fw_send_loop_result:
  assumes "out_pipe os fd (0x01 AND NOT 0x80) got" and "at + len \<le> sizeof_fw_packet" and "0 < len"
  shows "\<exists>err s'. fw_send_loop os fd req at len t s = Some (err, s') \<and> (err = 0 \<or> err = -1)
    \<and> (err = 0 \<longrightarrow> got (world s') = got (world s) @ bytes_at req at len)
    \<and> (err \<noteq> 0 \<longrightarrow> (\<exists>k<len. got (world s') = got (world s) @ bytes_at req at k))"
  using assms(2,3)
proof (induction len arbitrary: at s rule: less_induct)
  case (less len)
  let ?c = "min len MAX_SEND_SIZE"
  obtain ret s1 where w: "usb_bulk_write os fd 0x01 (bytes_at req at ?c) t s = (ret, s1)" by fastforce
  note r = usb_bulk_write_result [OF assms(1) w, simplified]
  have fits: "at + ?c \<le> sizeof_fw_packet" using less.prems(1) by simp
  consider "ret \<noteq> int ?c" | "ret = int ?c" "len - ?c = 0" | "ret = int ?c" "len - ?c \<noteq> 0" by blast
  then show ?case
  proof cases
    case 1
    have k: "nat ret \<le> ?c" "nat ret < len" using r 1 by auto
    then have "got (world s1) = got (world s) @ bytes_at req at (nat ret)"
      using r by (simp only: take_bytes_at)
    with 1 w fits k(2) show ?thesis by (subst fw_send_loop.simps) auto
  next
    case 2
    then have "?c = len" by simp
    with 2 w fits r show ?thesis by (subst fw_send_loop.simps) simp
  next
    case 3
    let ?l = "len - MAX_SEND_SIZE"
    from 3 have c: "?c = MAX_SEND_SIZE" and l: "0 < ?l" by auto
    obtain err s' where ih: "fw_send_loop os fd req (at + MAX_SEND_SIZE) ?l t s1 = Some (err, s')" "err = 0 \<or> err = -1"
        "err = 0 \<longrightarrow> got (world s') = got (world s1) @ bytes_at req (at + MAX_SEND_SIZE) ?l"
        "err \<noteq> 0 \<longrightarrow> (\<exists>k<?l. got (world s') = got (world s1) @ bytes_at req (at + MAX_SEND_SIZE) k)"
      using less.IH [of ?l "at + MAX_SEND_SIZE" s1] less.prems l by auto
    have step: "fw_send_loop os fd req at len t s = Some (err, s')"
      using 3 w fits ih(1) c by (subst fw_send_loop.simps) (simp add: Let_def)
    have got1: "got (world s1) = got (world s) @ bytes_at req at MAX_SEND_SIZE"
      using r 3 c by simp
    have join: "bytes_at req at MAX_SEND_SIZE @ bytes_at req (at + MAX_SEND_SIZE) k = bytes_at req at (MAX_SEND_SIZE + k)" for k
      by (simp only: bytes_at_append)
    have "MAX_SEND_SIZE + ?l = len" using l by simp
    with step ih got1 show ?thesis
      by (auto simp: join less_diff_conv add.commute)
  qed
qed

lemma fw_send_result:
  assumes "out_pipe os fd (0x01 AND NOT 0x80) got" and "dev tf = Some fd"
    and "fw_finished req seq cmd data" and "length data \<noteq> MAX_DATA_SIZE"
  shows "\<exists>err s'. fw_send os tf req s = Some (err, tf\<lparr>error := err\<rparr>, s') \<and> (err = 0 \<or> err = -1)
    \<and> (err = 0 \<longleftrightarrow> got (world s') = got (world s) @ fw_wire seq cmd data)
    \<and> (\<exists>k. got (world s') = got (world s) @ take k (fw_wire seq cmd data))"
proof -
  let ?w = "fw_wire seq cmd data"
  have n: "length data \<le> MAX_DATA_SIZE" using assms(3) by (simp add: fw_finished_def)
  note bytes = fw_finished_bytes [OF assms(3,4)] and len = fw_finished_length [OF assms(3)]
  have "0 + length ?w \<le> sizeof_fw_packet" "0 < length ?w"
    using fw_wire_fits_iff [OF n] assms(4) by (auto simp: length_fw_wire)
  from fw_send_loop_result [OF assms(1) this, of req "timeout tf" s]
  obtain err s' where l: "fw_send_loop os fd req 0 (length ?w) (timeout tf) s = Some (err, s')" "err = 0 \<or> err = -1"
      "err = 0 \<longrightarrow> got (world s') = got (world s) @ ?w"
      "err \<noteq> 0 \<longrightarrow> (\<exists>k<length ?w. got (world s') = got (world s) @ bytes_at req 0 k)"
    unfolding bytes by blast
  have pre: "bytes_at req 0 k = take k ?w" if "k < length ?w" for k
    using that take_bytes_at [of k "length ?w" req 0] unfolding bytes by simp
  have "err = 0 \<longleftrightarrow> got (world s') = got (world s) @ ?w"
    using l(3,4) pre by (metis append_same_eq length_append length_bytes_at nat_neq_iff add_left_cancel)
  moreover have "\<exists>k. got (world s') = got (world s) @ take k ?w"
    using l(3,4) pre by (cases "err = 0") (auto intro: exI [of _ "length ?w"])
  ultimately show ?thesis
    using l(1,2) assms(2) by (auto simp: fw_send_def len)
qed

section \<open>A boot loader that asks for blocks\<close>

text \<open>
  What the device does, from world \<open>w\<close> on. \<open>fw_takes\<close>: it takes the bytes in transfers of at most
  16384; \<open>fw_delivers\<close>: the next read gets a packet; \<open>W\<close> holds afterwards.
\<close>

function fw_pieces :: "u8 list \<Rightarrow> u8 list list" where
  "fw_pieces bs = (if length bs \<le> 16384 then [bs] else take 16384 bs # fw_pieces (drop 16384 bs))"
  by pat_completeness auto
termination
  by (relation "measure length") auto

declare fw_pieces.simps [simp del]

primrec fw_takes :: "'w os \<Rightarrow> int \<Rightarrow> int \<Rightarrow> ('w \<Rightarrow> bool) \<Rightarrow> u8 list list \<Rightarrow> 'w \<Rightarrow> bool" where
  "fw_takes os fd t W [] w = W w"
| "fw_takes os fd t W (c # cs) w =
     (\<forall>s. world s = w \<longrightarrow> (\<exists>s1. usb_bulk_write os fd 0x01 c t s = (int (length c), s1) \<and> fw_takes os fd t W cs (world s1)))"

definition fw_delivers :: "'w os \<Rightarrow> int \<Rightarrow> int \<Rightarrow> u8 \<Rightarrow> u8 \<Rightarrow> u8 list \<Rightarrow> ('w \<Rightarrow> bool) \<Rightarrow> 'w \<Rightarrow> bool" where
  "fw_delivers os fd t seq cmd data W w \<longleftrightarrow> length data \<le> MAX_DATA_SIZE \<and>
     (\<forall>s. world s = w \<longrightarrow> (\<exists>s1. W (world s1) \<and>
       (\<forall>reply. \<exists>m. usb_bulk_read os fd 0x82 reply sizeof_fw_packet t s = (int (9 + length data), m, s1)
          \<and> bytes_at m 0 (9 + length data) = fw_frame seq cmd data)))"

lemma fw_send_loop_takes:
  assumes "bytes_at req at (length bs) = bs" and "at + length bs \<le> sizeof_fw_packet" and "0 < length bs"
    and "fw_takes os fd t W (fw_pieces bs) (world s)"
  shows "\<exists>s'. fw_send_loop os fd req at (length bs) t s = Some (0, s') \<and> W (world s')"
  using assms
proof (induction bs arbitrary: at s rule: fw_pieces.induct)
  case (1 bs)
  show ?case
  proof (cases "length bs \<le> 16384")
    case True
    with "1.prems" obtain s1 where "usb_bulk_write os fd 0x01 bs t s = (int (length bs), s1)" "W (world s1)"
      by (auto simp: fw_pieces.simps [of bs])
    with "1.prems" True show ?thesis
      by (subst fw_send_loop.simps) (simp add: min_def)
  next
    case False
    with "1.prems"(4) obtain s1 where w: "usb_bulk_write os fd 0x01 (take 16384 bs) t s = (16384, s1)"
      and rest: "fw_takes os fd t W (fw_pieces (drop 16384 bs)) (world s1)"
      by (auto simp: fw_pieces.simps [of bs] min_def)
    have first: "bytes_at req at 16384 = take 16384 bs"
      using False "1.prems"(1) take_bytes_at [of 16384 "length bs" req at] by simp
    have "bytes_at req (at + 16384) (length (drop 16384 bs)) = drop 16384 bs"
      using "1.prems"(1) drop_bytes_at [of 16384 req at "length bs"] by simp
    with "1.IH" [OF False _ _ _ rest, of "at + 16384"] "1.prems"(2) False
    obtain s' where "fw_send_loop os fd req (at + 16384) (length bs - 16384) t s1 = Some (0, s')" "W (world s')"
      by auto
    with w first False "1.prems"(2) show ?thesis
      by (subst fw_send_loop.simps) (simp add: min_def)
  qed
qed

lemma fw_send_takes:
  assumes "dev tf = Some fd" and "fw_finished req seq cmd data" and "length data \<noteq> MAX_DATA_SIZE"
    and "fw_takes os fd (timeout tf) W (fw_pieces (fw_wire seq cmd data)) (world s)"
  shows "\<exists>s'. fw_send os tf req s = Some (0, tf\<lparr>error := 0\<rparr>, s') \<and> W (world s')"
proof -
  have n: "length data \<le> MAX_DATA_SIZE" using assms(2) by (simp add: fw_finished_def)
  have "0 + length (fw_wire seq cmd data) \<le> sizeof_fw_packet" "0 < length (fw_wire seq cmd data)"
    using fw_wire_fits_iff [OF n] assms(3) by (auto simp: length_fw_wire)
  from fw_send_loop_takes [OF fw_finished_bytes [OF assms(2,3)] this assms(4)] assms(1)
  show ?thesis by (auto simp: fw_send_def fw_finished_length [OF assms(2)])
qed

lemma fw_get_response_delivers:
  assumes "dev tf = Some fd" and "fw_delivers os fd (timeout tf) seq cmd data W (world s)"
  shows "\<exists>m s'. fw_get_response os tf reply s = (0, m, tf\<lparr>error := 0\<rparr>, s') \<and> m 4 = seq \<and> m 5 = cmd
    \<and> bytes_at m 8 (length data) = data \<and> W (world s')"
proof -
  obtain m s1 where r: "usb_bulk_read os fd 0x82 reply sizeof_fw_packet (timeout tf) s = (int (9 + length data), m, s1)"
    and m: "bytes_at m 0 (9 + length data) = fw_frame seq cmd data" and W: "W (world s1)" and n: "length data \<le> MAX_DATA_SIZE"
    using assms(2) unfolding fw_delivers_def by blast
  note f = fw_frame_fields [OF m]
  have "unat (get_u16 m 6) = length data" using f(3) n by (simp add: unat_of_nat16)
  then have "uint (get_u16 m 6) = int (length data)" by (metis uint_nat)
  with r assms(1) f(1,2,4) W show ?thesis by (simp add: fw_get_response_def)
qed

section \<open>An upload session\<close>

definition be24 :: "u32 \<Rightarrow> u8 list" where
  "be24 v = [ucast (drop_bit 16 v), ucast (drop_bit 8 v), ucast v]"

lemma get_u24_be24:
  assumes "bytes_at b a 3 = be24 v"
  shows "get_u24 b a = take_bit 24 v"
proof -
  have "b a = ucast (drop_bit 16 v)" "b (a + 1) = ucast (drop_bit 8 v)" "b (a + 2) = ucast v"
    using assms by (simp_all add: bytes_at_numeral bytes_at_Suc be24_def)
  then have "get_u24 b a = push_bit 16 (ucast (ucast (drop_bit 16 v) :: u8)) OR push_bit 8 (ucast (ucast (drop_bit 8 v) :: u8))
      OR ucast (ucast v :: u8)"
    by (simp add: get_u24_def)
  also have "\<dots> = take_bit 24 v"
  proof (rule bit_word_eqI)
    fix n assume "n < LENGTH(32)"
    consider "n < 8" | "8 \<le> n" "n < 16" | "16 \<le> n" "n < 24" | "24 \<le> n" by linarith
    then show "bit (push_bit 16 (ucast (ucast (drop_bit 16 v) :: u8)) OR push_bit 8 (ucast (ucast (drop_bit 8 v) :: u8))
      OR ucast (ucast v :: u8) :: u32) n = bit (take_bit 24 v) n"
      by cases (use \<open>n < LENGTH(32)\<close> in \<open>auto simp: bit_simps\<close>)
  qed
  finally show ?thesis .
qed

text \<open>A request whose three numbers fit their fields of the packet, with a block that is sent
  whole (the largest one is not, see below), and the encoding of the request.\<close>

definition fw_block_ok :: "(tf_fw_data \<Rightarrow> u8 list) \<Rightarrow> tf_fw_data \<Rightarrow> bool" where
  "fw_block_ok block d \<longleftrightarrow> fw_seq d < 0x100 \<and> fw_len d < 0x10000 \<and> fw_offset d < 0x1000000
     \<and> length (block d) < MAX_DATA_SIZE"

definition enc_fw_request :: "tf_fw_data \<Rightarrow> u8 list" where
  "enc_fw_request d = be16 (ucast (fw_len d)) @ be24 (ucast (fw_offset d))"

lemma ucast_ucast_small:
  "v < 0x100 \<Longrightarrow> ucast (ucast v :: u8) = (v :: u32)"
  "v < 0x10000 \<Longrightarrow> ucast (ucast v :: u16) = (v :: u32)"
  "x < 0x1000000 \<Longrightarrow> ucast (take_bit 24 (ucast x :: u32)) = (x :: u64)"
proof -
  assume "v < 0x100"
  then have "uint v < 2 ^ 8" by (simp add: word_less_def)
  then show "ucast (ucast v :: u8) = v"
    by (simp add: word_eq_iff_unsigned [where 'a = int] unsigned_ucast_eq unsigned_take_bit_eq take_bit_int_eq_self)
next
  assume "v < 0x10000"
  then have "uint v < 2 ^ 16" by (simp add: word_less_def)
  then show "ucast (ucast v :: u16) = v"
    by (simp add: word_eq_iff_unsigned [where 'a = int] unsigned_ucast_eq unsigned_take_bit_eq take_bit_int_eq_self)
next
  assume "x < 0x1000000"
  then have "uint x < 2 ^ 24" by (simp add: word_less_def)
  then show "ucast (take_bit 24 (ucast x :: u32)) = x"
    by (simp add: word_eq_iff_unsigned [where 'a = int] unsigned_ucast_eq unsigned_take_bit_eq take_bit_int_eq_self)
qed

lemma wait_for_request:
  assumes "dev tf = Some fd" and "fw_block_ok block d"
    and "fw_delivers os fd (timeout tf) (ucast (fw_seq d)) TF_FW_REQ_DATA (enc_fw_request d) W (world s)"
  shows "\<exists>s'. tf_wait_for_req_data os tf d0 s = (0, d, tf\<lparr>error := 0\<rparr>, s') \<and> W (world s')"
proof -
  obtain m s' where r: "fw_get_response os tf (os_junk os ''reply'' (world s)) s = (0, m, tf\<lparr>error := 0\<rparr>, s')"
    and m: "m 4 = ucast (fw_seq d)" "m 5 = TF_FW_REQ_DATA" "W (world s')"
    and q: "bytes_at m 8 (length (enc_fw_request d)) = enc_fw_request d"
    using fw_get_response_delivers [OF assms(1,3)] by blast
  have "length (enc_fw_request d) = 2 + 3" by (simp add: enc_fw_request_def be24_def)
  with q have "bytes_at m 8 2 @ bytes_at m (8 + 2) 3 = be16 (ucast (fw_len d)) @ be24 (ucast (fw_offset d))"
    by (simp only: bytes_at_append enc_fw_request_def)
  then have "bytes_at m 8 2 = be16 (ucast (fw_len d))" "bytes_at m 10 3 = be24 (ucast (fw_offset d))"
    by (auto simp: append_eq_append_conv)
  then have "get_u16 m 8 = ucast (fw_len d)" "get_u24 m 10 = take_bit 24 (ucast (fw_offset d))"
    by (simp_all add: get_u16_bytes_at get_u24_be24)
  with r m assms(2) show ?thesis
    by (simp add: tf_wait_for_req_data_def fw_block_ok_def ucast_ucast_small)
qed

lemma wait_for_end:
  assumes "dev tf = Some fd" and "fw_delivers os fd (timeout tf) seq TF_FW_END data W (world s)"
  shows "\<exists>s'. tf_wait_for_req_data os tf d0 s = (1, d0, tf\<lparr>error := 0\<rparr>, s') \<and> W (world s')"
proof -
  obtain m s' where r: "fw_get_response os tf (os_junk os ''reply'' (world s)) s = (0, m, tf\<lparr>error := 0\<rparr>, s')"
    and m: "m 5 = TF_FW_END" "W (world s')"
    using fw_get_response_delivers [OF assms] by blast
  then show ?thesis by (simp add: tf_wait_for_req_data_def)
qed

text \<open>The client that the interface asks for: answer every request until there is none, and the
  boot loader on the other side.\<close>

primrec fw_serve :: "nat \<Rightarrow> 'w os \<Rightarrow> (tf_fw_data \<Rightarrow> u8 list) \<Rightarrow> int \<times> tf_fw_data \<times> tf_handle \<times> 'w sys
    \<Rightarrow> (int \<times> tf_fw_data list \<times> tf_handle \<times> 'w sys) option" where
  "fw_serve 0 os block r = (case r of (ret, d, tf, s) \<Rightarrow> Some (ret, [], tf, s))"
| "fw_serve (Suc n) os block r = (case r of (ret, d, tf, s) \<Rightarrow>
     if ret = 0 then do {
       r \<leftarrow> tf_fw_upload_next os tf (block d) d s;
       (ret, ds, tf, s) \<leftarrow> fw_serve n os block r;
       Some (ret, d # ds, tf, s)
     }
     else Some (ret, [], tf, s))"

definition fw_client :: "nat \<Rightarrow> 'w os \<Rightarrow> tf_handle \<Rightarrow> (tf_fw_data \<Rightarrow> u8 list) \<Rightarrow> tf_fw_data \<Rightarrow> 'w sys
    \<Rightarrow> (int \<times> tf_fw_data list \<times> tf_handle \<times> 'w sys) option" where
  "fw_client n os tf block d s = do {
     r \<leftarrow> tf_fw_upload os tf d s;
     fw_serve n os block r
   }"

primrec fw_asks :: "'w os \<Rightarrow> int \<Rightarrow> int \<Rightarrow> (tf_fw_data \<Rightarrow> u8 list) \<Rightarrow> ('w \<Rightarrow> bool) \<Rightarrow> tf_fw_data list \<Rightarrow> 'w \<Rightarrow> bool" where
  "fw_asks os fd t block W [] = (\<lambda>w. \<exists>seq data. fw_delivers os fd t seq TF_FW_END data W w)"
| "fw_asks os fd t block W (d # ds) =
     fw_delivers os fd t (ucast (fw_seq d)) TF_FW_REQ_DATA (enc_fw_request d)
       (fw_takes os fd t (fw_asks os fd t block W ds) (fw_pieces (fw_wire (ucast (fw_seq d)) TF_FW_DATA (block d))))"

definition fw_session :: "'w os \<Rightarrow> int \<Rightarrow> int \<Rightarrow> (tf_fw_data \<Rightarrow> u8 list) \<Rightarrow> ('w \<Rightarrow> bool) \<Rightarrow> tf_fw_data list \<Rightarrow> 'w \<Rightarrow> bool" where
  "fw_session os fd t block W ds = fw_takes os fd t
     (\<lambda>w. \<exists>seq data. fw_delivers os fd t seq TF_FW_ID data (fw_asks os fd t block W ds) w)
     (fw_pieces (fw_wire 0 TF_FW_PC_TO_STB []))"

text \<open>What \<^verbatim>\<open>tf_wait_for_req_data\<close> makes of the rest of a session.\<close>

definition fw_waited :: "(tf_fw_data \<Rightarrow> u8 list) \<Rightarrow> 'w os \<Rightarrow> int \<Rightarrow> ('w \<Rightarrow> bool) \<Rightarrow> tf_handle \<Rightarrow> tf_fw_data list
    \<Rightarrow> int \<times> tf_fw_data \<times> tf_handle \<times> 'w sys \<Rightarrow> bool" where
  "fw_waited block os fd W tf ds r = (case (ds, r) of
       ([], (ret, d', tf', s')) \<Rightarrow> ret = 1 \<and> tf' = tf\<lparr>error := 0\<rparr> \<and> W (world s')
     | (d # ds, (ret, d', tf', s')) \<Rightarrow> ret = 0 \<and> d' = d \<and> tf' = tf\<lparr>error := 0\<rparr>
         \<and> fw_takes os fd (timeout tf) (fw_asks os fd (timeout tf) block W ds)
             (fw_pieces (fw_wire (ucast (fw_seq d)) TF_FW_DATA (block d))) (world s'))"

lemma wait_asks:
  assumes "dev tf = Some fd" and "\<forall>d\<in>set ds. fw_block_ok block d"
    and "fw_asks os fd (timeout tf) block W ds (world s)"
  shows "fw_waited block os fd W tf ds (tf_wait_for_req_data os tf d0 s)"
proof (cases ds)
  case Nil
  with assms(3) obtain seq data where "fw_delivers os fd (timeout tf) seq TF_FW_END data W (world s)" by auto
  from wait_for_end [OF assms(1) this, of d0] Nil show ?thesis by (auto simp: fw_waited_def)
next
  case (Cons d ds')
  with assms(2,3) have "fw_block_ok block d" and "fw_delivers os fd (timeout tf) (ucast (fw_seq d)) TF_FW_REQ_DATA (enc_fw_request d)
       (fw_takes os fd (timeout tf) (fw_asks os fd (timeout tf) block W ds')
         (fw_pieces (fw_wire (ucast (fw_seq d)) TF_FW_DATA (block d)))) (world s)" by simp_all
  from wait_for_request [OF assms(1) this, of d0] Cons show ?thesis by (auto simp: fw_waited_def)
qed

lemma upload_next_waited:
  assumes "dev tf = Some fd" and "\<forall>d\<in>set (d # ds). fw_block_ok block d"
    and "fw_takes os fd (timeout tf) (fw_asks os fd (timeout tf) block W ds)
      (fw_pieces (fw_wire (ucast (fw_seq d)) TF_FW_DATA (block d))) (world s)"
  shows "\<exists>r. tf_fw_upload_next os tf (block d) d s = Some r \<and> fw_waited block os fd W tf ds r"
proof -
  have n: "length (block d) < MAX_DATA_SIZE" using assms(2) by (simp add: fw_block_ok_def)
  obtain r m s1 where req: "fw_req_putdata (fw_req_init (os_junk os ''req'' (world s)) TF_FW_DATA (ucast (fw_seq d))) (block d) = Some r"
      "fw_req_done os tf r s = Some (m, s1)" "world s1 = world s"
    and fin: "fw_finished m (ucast (fw_seq d)) TF_FW_DATA (block d)"
    using fw_request [of "block d" "os_junk os ''req'' (world s)" TF_FW_DATA "ucast (fw_seq d)" os tf s] n by auto
  obtain s2 where send: "fw_send os tf m s1 = Some (0, tf\<lparr>error := 0\<rparr>, s2)"
    and asks: "fw_asks os fd (timeout tf) block W ds (world s2)"
    using fw_send_takes [OF assms(1) fin _ assms(3) [folded req(3)]] n by auto
  have "fw_waited block os fd W (tf\<lparr>error := 0\<rparr>) ds (tf_wait_for_req_data os (tf\<lparr>error := 0\<rparr>) d s2)"
    using wait_asks [of "tf\<lparr>error := 0\<rparr>" fd ds block os W s2 d] assms(1,2) asks by simp
  with req send n show ?thesis
    by (simp add: tf_fw_upload_next_def fw_waited_def split: list.splits)
qed

lemma fw_serve_asks:
  assumes "dev tf = Some fd" and "\<forall>d\<in>set ds. fw_block_ok block d" and "length ds \<le> n"
    and "fw_waited block os fd W tf ds r"
  shows "\<exists>tf' s'. fw_serve n os block r = Some (1, ds, tf', s') \<and> tf' = tf\<lparr>error := 0\<rparr> \<and> W (world s')"
  using assms
proof (induction ds arbitrary: n r tf)
  case Nil
  then show ?case by (cases n) (auto simp: fw_waited_def split: prod.splits)
next
  case (Cons d ds)
  obtain s where r: "r = (0, d, tf\<lparr>error := 0\<rparr>, s)"
    and takes: "fw_takes os fd (timeout tf) (fw_asks os fd (timeout tf) block W ds)
      (fw_pieces (fw_wire (ucast (fw_seq d)) TF_FW_DATA (block d))) (world s)"
    using Cons.prems(4) by (cases r) (auto simp: fw_waited_def)
  obtain n' where n: "n = Suc n'" using Cons.prems(3) by (cases n) auto
  obtain r' where nxt: "tf_fw_upload_next os (tf\<lparr>error := 0\<rparr>) (block d) d s = Some r'"
    and w: "fw_waited block os fd W (tf\<lparr>error := 0\<rparr>) ds r'"
    using upload_next_waited [of "tf\<lparr>error := 0\<rparr>" fd d ds block os W s] Cons.prems(1,2) takes by auto
  obtain tf' s' where "fw_serve n' os block r' = Some (1, ds, tf', s')" "tf' = tf\<lparr>error := 0\<rparr>" "W (world s')"
    using Cons.IH [OF _ _ _ w, of n'] Cons.prems n by auto
  with nxt show ?case by (simp add: r n)
qed

section \<open>Blocks at the limit\<close>

lemma fw_send_loop_Some:
  "at + len \<le> sizeof_fw_packet \<Longrightarrow> fw_send_loop os fd req at len t s \<noteq> None"
proof (induction len arbitrary: at s rule: less_induct)
  case (less len)
  then show ?case by (subst fw_send_loop.simps) (auto simp: Let_def min_def split: prod.splits)
qed

lemma fw_send_loop_overrun:
  assumes "\<And>c s. fst (usb_bulk_write os fd 0x01 c t s) = int (length c)"
  shows "sizeof_fw_packet < at + len \<Longrightarrow> fw_send_loop os fd req at len t s = None"
proof (induction len arbitrary: at s rule: less_induct)
  case (less len)
  let ?c = "min len MAX_SEND_SIZE"
  obtain s1 where w: "usb_bulk_write os fd 0x01 (bytes_at req at ?c) t s = (int ?c, s1)"
    using assms [of "bytes_at req at ?c" s] by (cases "usb_bulk_write os fd 0x01 (bytes_at req at ?c) t s") simp
  show ?case
  proof (cases "at + ?c > sizeof_fw_packet")
    case True
    then show ?thesis by (subst fw_send_loop.simps) simp
  next
    case False
    with less.prems have c: "?c = MAX_SEND_SIZE" "len - ?c \<noteq> 0" by auto
    with less.IH [of "len - ?c" "at + ?c" s1] less.prems have "fw_send_loop os fd req (at + ?c) (len - ?c) t s1 = None" by simp
    with w c False show ?thesis by (subst fw_send_loop.simps) (simp add: Let_def)
  qed
qed

lemma upload_next_undefined:
  assumes "dev tf = Some fd" and "\<And>c s. fst (usb_bulk_write os fd 0x01 c (timeout tf) s) = int (length c)"
  shows "tf_fw_upload_next os tf data d s = None \<longleftrightarrow> length data = MAX_DATA_SIZE"
proof (cases "length data \<le> MAX_DATA_SIZE")
  case True
  obtain r m s1 where req: "fw_req_putdata (fw_req_init (os_junk os ''req'' (world s)) TF_FW_DATA (ucast (fw_seq d))) data = Some r"
      "fw_req_done os tf r s = Some (m, s1)" and fin: "fw_finished m (ucast (fw_seq d)) TF_FW_DATA data"
    using fw_request [OF True, of "os_junk os ''req'' (world s)" TF_FW_DATA "ucast (fw_seq d)" os tf s] by blast
  have "fw_send_loop os fd m 0 (fw_send_length m) (timeout tf) s1 = None \<longleftrightarrow> length data = MAX_DATA_SIZE"
    using fw_wire_fits_iff [OF True, of "ucast (fw_seq d)" TF_FW_DATA] fw_finished_length [OF fin]
      fw_send_loop_Some [of 0 "fw_send_length m"] fw_send_loop_overrun [OF assms(2), of 0 "fw_send_length m"]
    by (metis add_0 not_le)
  with req assms(1) True show ?thesis
    by (auto simp: tf_fw_upload_next_def fw_send_def split: bind_splits if_splits)
qed (simp add: tf_fw_upload_next_def)

text \<open>The scripted device of the witnesses, in the terms of this protocol.\<close>

lemma script_write_all: "fst (usb_bulk_write script_os fd 0x01 c t s) = int (length c)"
proof -
  have "fst (bulk_write_loop script_os fd ep c sent t w) = length c" if "sent \<le> length c" for ep sent w
    using that
  proof (induction "length c - sent" arbitrary: sent w rule: less_induct)
    case less
    then show ?case
      by (subst bulk_write_loop.simps) (auto simp: ioctl_bulk_out_def script_os_def script_out_def Let_def min_def)
  qed
  then show ?thesis
    by (auto simp: usb_bulk_write_def Let_def split: prod.splits) (metis fst_conv zero_le)
qed

lemma script_fw_takes:
  assumes "length bs < 512" and "0 < length bs" and "W (w\<lparr>outbox := outbox w @ [bs]\<rparr>)"
  shows "fw_takes script_os fd t W (fw_pieces bs) w"
proof -
  have "bulk_write_loop script_os fd ep bs 0 t w = (length bs, w\<lparr>outbox := outbox w @ [bs]\<rparr>)" for ep
    using assms by (subst bulk_write_loop.simps) (simp add: ioctl_bulk_out_def script_os_def script_out_def)
  with assms show ?thesis
    by (auto simp: fw_pieces.simps [of bs] usb_bulk_write_def intro!: exI [of _ "_\<lparr>world := _\<rparr>"])
qed

lemma script_fw_delivers:
  assumes "length data < 16300" and "inbox w = fw_frame seq cmd data # ps" and "W (w\<lparr>inbox := ps\<rparr>)"
  shows "fw_delivers script_os fd t seq cmd data W w"
proof -
  have "bulk_read_loop script_os fd ep m 0 sizeof_fw_packet t w
      = (9 + length data, store m 0 (fw_frame seq cmd data), w\<lparr>inbox := ps\<rparr>)" for ep m
    using assms(1,2) by (subst bulk_read_loop.simps) (simp add: ioctl_bulk_in_def script_os_def script_in_def)
  then have "usb_bulk_read script_os fd ep reply sizeof_fw_packet t s
      = (int (9 + length data), store (memset reply 0 sizeof_fw_packet) 0 (fw_frame seq cmd data), s\<lparr>world := w\<lparr>inbox := ps\<rparr>\<rparr>)"
    if "world s = w" for ep reply s
    using that by (simp add: usb_bulk_read_def)
  then show ?thesis
    unfolding fw_delivers_def using assms(1,3)
    by (auto simp: bytes_at_store_same intro!: exI [of _ "_\<lparr>world := _\<rparr>"])
qed

section \<open>Properties\<close>

text \<open>C15. A whole upload: for every sequence of requests of the boot loader and blocks of less than
  \<^verbatim>\<open>MAX_DATA_SIZE\<close> bytes to answer them with, a client that answers each request through
  \<^verbatim>\<open>tf_fw_upload_next\<close> gets exactly these requests, the boot loader gets each block in a packet with
  its sequence number, and the upload ends with 1. A block of \<^verbatim>\<open>MAX_DATA_SIZE\<close> bytes, which the
  interface allows, is left out: sending it is undefined, as a property below shows.\<close>

theorem fw_upload_complete:
  assumes "dev tf = Some fd" and "fw_session os fd (timeout tf) block W ds (world s)" and "length ds \<le> n"
    and "\<forall>d\<in>set ds. fw_seq d < 0x100 \<and> fw_len d < 0x10000 \<and> fw_offset d < 0x1000000"
    and "\<forall>d\<in>set ds. length (block d) < MAX_DATA_SIZE"
  shows "\<exists>tf' s'. fw_client n os tf block d0 s = Some (1, ds, tf', s') \<and> error tf' = 0 \<and> W (world s')"
proof -
  have ok: "\<forall>d\<in>set ds. fw_block_ok block d" using assms(4,5) by (simp add: fw_block_ok_def)
  obtain m s1 where req: "fw_req_done os tf (fw_req_init (os_junk os ''req'' (world s)) TF_FW_PC_TO_STB 0) s = Some (m, s1)"
      "fw_finished m 0 TF_FW_PC_TO_STB []" "world s1 = world s"
    using fw_request_nodata by blast
  let ?tf = "tf\<lparr>error := 0\<rparr>"
  obtain s2 seq data where send: "fw_send os tf m s1 = Some (0, ?tf, s2)"
    and id: "fw_delivers os fd (timeout tf) seq TF_FW_ID data (fw_asks os fd (timeout tf) block W ds) (world s2)"
    using fw_send_takes [OF assms(1) req(2) _ assms(2) [unfolded fw_session_def, folded req(3)]] by auto
  obtain r s3 where resp: "fw_get_response os ?tf (os_junk os ''reply'' (world s2)) s2 = (0, r, ?tf, s3)" "r 5 = TF_FW_ID"
    and asks: "fw_asks os fd (timeout tf) block W ds (world s3)"
    using fw_get_response_delivers [of ?tf fd os seq TF_FW_ID data _ s2] assms(1) id by fastforce
  let ?w = "tf_wait_for_req_data os ?tf d0 s3"
  have "fw_waited block os fd W ?tf ds ?w"
    using wait_asks [of ?tf fd ds block os W s3 d0] assms(1) ok asks by simp
  from fw_serve_asks [OF _ ok assms(3) this] assms(1)
  obtain tf' s' where "fw_serve n os block ?w = Some (1, ds, tf', s')" "error tf' = 0" "W (world s')" by auto
  with req(1) send resp show ?thesis
    by (simp add: fw_client_def tf_fw_upload_def)
qed

theorem fw_upload_complete_witness:
  "\<exists>tf' s'. fw_client 1 script_os script_handle (\<lambda>d. [1, 2, 3]) \<lparr>fw_seq = 0, fw_len = 0, fw_offset = 0\<rparr>
      (script_sys [fw_frame 0 TF_FW_ID [], fw_frame 7 TF_FW_REQ_DATA (be16 3 @ be24 256), fw_frame 8 TF_FW_END []])
      = Some (1, [\<lparr>fw_seq = 7, fw_len = 3, fw_offset = 256\<rparr>], tf', s')
    \<and> outbox (world s') = [fw_wire 0 TF_FW_PC_TO_STB [], fw_wire 7 TF_FW_DATA [1, 2, 3]]"
proof -
  let ?d = "\<lparr>fw_seq = 7, fw_len = 3, fw_offset = 256\<rparr>"
  let ?s = "script_sys [fw_frame 0 TF_FW_ID [], fw_frame 7 TF_FW_REQ_DATA (be16 3 @ be24 256), fw_frame 8 TF_FW_END []]"
  let ?W = "\<lambda>w. outbox w = [fw_wire 0 TF_FW_PC_TO_STB [], fw_wire 7 TF_FW_DATA [1, 2, 3]]"
  have enc: "enc_fw_request ?d = be16 3 @ be24 256" by (simp add: enc_fw_request_def)
  have "fw_session script_os 3 (timeout script_handle) (\<lambda>d. [1, 2, 3]) ?W [?d] (world ?s)"
    unfolding fw_session_def fw_asks.simps enc
    by (rule script_fw_takes, simp add: length_fw_wire fw_padding_def, simp add: length_fw_wire,
        rule exI [of _ 0], rule exI [of _ "[]"], rule script_fw_delivers, simp, simp add: script_sys_def,
        rule script_fw_delivers, simp add: be24_def, simp,
        rule script_fw_takes, simp add: length_fw_wire fw_padding_def, simp add: length_fw_wire,
        rule exI [of _ 8], rule exI [of _ "[]"], rule script_fw_delivers, simp, simp, simp add: script_sys_def)
  from fw_upload_complete [OF script_handle_simps(1) this, of 1 \<open>\<lparr>fw_seq = 0, fw_len = 0, fw_offset = 0\<rparr>\<close>] show ?thesis by auto
qed

text \<open>C31. Every request with less than the largest block reaches the device whole exactly if the
  result is 0, in chunks of at most 16384 bytes: the marked packet with sequence number, command,
  length, data and checksum, padded to even size; otherwise a prefix of it.\<close>

theorem fw_send_delivers:
  assumes "out_pipe os fd (0x01 AND NOT 0x80) got" and "dev tf = Some fd" and "length data < MAX_DATA_SIZE"
    and "fw_req_putdata (fw_req_init junk cmd seq) data = Some r" and "fw_req_done os tf r s = Some (req, s1)"
  shows "\<exists>err s'. fw_send os tf req s1 = Some (err, tf\<lparr>error := err\<rparr>, s') \<and> (err = 0 \<or> err = -1)
    \<and> (err = 0 \<longleftrightarrow> got (world s') = got (world s) @ fw_wire seq cmd data)
    \<and> (\<exists>k. got (world s') = got (world s) @ take k (fw_wire seq cmd data))"
  using fw_send_result [OF assms(1,2), of req seq cmd data s1] fw_request [of data junk cmd seq os tf s] assms(3-5) by auto

theorem fw_send_delivers_witness:
  "\<exists>r req s1 err s'. fw_req_putdata (fw_req_init (\<lambda>i. 0xEE) TF_FW_DATA 7) [1, 2, 3] = Some r
    \<and> fw_req_done script_os script_handle r (script_sys []) = Some (req, s1)
    \<and> fw_send script_os script_handle req s1 = Some (err, script_handle\<lparr>error := err\<rparr>, s')
    \<and> (err = 0 \<longleftrightarrow> concat (outbox (world s')) = fw_wire 7 TF_FW_DATA [1, 2, 3])"
proof -
  obtain r req s1 where req: "fw_req_putdata (fw_req_init (\<lambda>i. 0xEE) TF_FW_DATA 7) [1, 2, 3] = Some r"
      "fw_req_done script_os script_handle r (script_sys []) = Some (req, s1)"
    using fw_request [of "[1, 2, 3]" "\<lambda>i. 0xEE" TF_FW_DATA 7 script_os script_handle "script_sys []"] by auto
  from fw_send_delivers [OF script_out_pipe script_handle_simps(1) _ req] req show ?thesis
    by (auto simp: script_sys_def)
qed

text \<open>C39. Sending a block of exactly the largest size reads past the packet structure, and no other
  block does, when the device takes everything.\<close>

theorem fw_largest_block_undefined:
  assumes "dev tf = Some fd" and "\<And>c s. fst (usb_bulk_write os fd 0x01 c (timeout tf) s) = int (length c)"
  shows "tf_fw_upload_next os tf data d s = None \<longleftrightarrow> length data = MAX_DATA_SIZE"
  using assms by (rule upload_next_undefined)

theorem fw_largest_block_undefined_witness:
  "tf_fw_upload_next script_os script_handle (replicate 32768 0) \<lparr>fw_seq = 0, fw_len = 32768, fw_offset = 0\<rparr> (script_sys []) = None"
  using fw_largest_block_undefined [OF script_handle_simps(1) script_write_all, of "replicate 32768 0"] by simp

text \<open>C40. A reply that is marked as a data request is accepted whatever its mark and checksum are,
  even if it breaks off: a bare header counts as a request for no bytes at offset 0.\<close>

theorem fw_reply_unchecked:
  assumes "dev tf = Some fd"
    and "usb_bulk_read os fd 0x82 (os_junk os ''reply'' (world s)) sizeof_fw_packet (timeout tf) s = (int n, m, s1)"
    and "8 \<le> n" and "unat (get_u16 m 6) \<le> n" and "m 5 = TF_FW_REQ_DATA"
  shows "\<exists>s'. tf_wait_for_req_data os tf d s = (0, \<lparr>fw_seq = ucast (m 4), fw_len = ucast (get_u16 m 8),
       fw_offset = ucast (get_u24 m 10)\<rparr>, tf\<lparr>error := 0\<rparr>, s')
    \<and> (n = 8 \<longrightarrow> get_u16 m 8 = 0 \<and> get_u24 m 10 = 0)"
proof -
  have "uint (get_u16 m 6) \<le> int n" using assms(4) by (metis of_nat_le_iff uint_nat)
  moreover have "get_u16 m 8 = 0" "get_u24 m 10 = 0" if "n = 8"
    using usb.read_zero [OF assms(2)] that by (simp_all add: get_u16_def get_u24_def)
  ultimately show ?thesis
    using assms by (simp add: tf_wait_for_req_data_def fw_get_response_def)
qed

theorem fw_reply_unchecked_witness:
  "\<exists>s'. tf_wait_for_req_data script_os script_handle \<lparr>fw_seq = 0, fw_len = 0, fw_offset = 0\<rparr>
      (script_sys [[0, 0, 0, 0, 7, 4, 0, 5]]) = (0, \<lparr>fw_seq = 7, fw_len = 0, fw_offset = 0\<rparr>, script_handle\<lparr>error := 0\<rparr>, s')"
proof -
  let ?p = "[0, 0, 0, 0, 7, 4, 0, 5] :: u8 list" and ?reply = "os_junk script_os ''reply'' (world (script_sys [[0, 0, 0, 0, 7, 4, 0, 5]]))"
  obtain m s1 where r: "usb_bulk_read script_os 3 0x82 ?reply sizeof_fw_packet (timeout script_handle) (script_sys [?p]) = (int 8, m, s1)"
    and m: "bytes_at m 0 sizeof_fw_packet = ?p @ replicate (sizeof_fw_packet - 8) 0"
    using usb_bulk_read_result [OF script_in_pipe, where s = "script_sys [?p]" and sz = sizeof_fw_packet
        and fd = 3 and ep = "0x82" and m = ?reply and t = "timeout script_handle"] by (auto simp: script_sys_def)
  have "take 8 (bytes_at m 0 sizeof_fw_packet) = ?p"
    unfolding m by simp
  then have "bytes_at m 0 8 = ?p" by (simp add: take_bytes_at)
  then have "m (0 + i) = ?p ! i" if "i < 8" for i
    using that by (rule bytes_at_eq_nthD)
  from this [of 4] this [of 5] this [of 6] this [of 7] have f: "m 4 = 7" "m 5 = TF_FW_REQ_DATA" "m 6 = 0" "m 7 = 5" by simp_all
  from fw_reply_unchecked [OF script_handle_simps(1) r] f show ?thesis by (fastforce simp: get_u16_def)
qed

end
