(* ===== verification/Fw_Session.thy ===== *)
theory Fw_Session
  imports Tf_Session Tf_Fwio
begin

text \<open>
  Sessions with the boot loader: the three calls of \<^verbatim>\<open>tf_fwio.h\<close> on one handle and one request
  structure, in any order and with any blocks, and what holds after every sequence of them.
\<close>

section \<open>The step relation\<close>

datatype fw_call = Fw_upload | Fw_upload_next "u8 list" | Fw_reboot

inductive fw_step ::
  "'w os \<Rightarrow> tf_handle \<Rightarrow> tf_fw_data \<Rightarrow> 'w sys \<Rightarrow> fw_call \<Rightarrow> int \<Rightarrow> tf_handle \<Rightarrow> tf_fw_data \<Rightarrow> 'w sys \<Rightarrow> bool"
  for os tf d s where
  step_upload: "fw_step os tf d s Fw_upload ret tf' d' s'" if "tf_fw_upload os tf d s = Some (ret, d', tf', s')"
| step_upload_next: "fw_step os tf d s (Fw_upload_next data) ret tf' d' s'"
    if "tf_fw_upload_next os tf data d s = Some (ret, d', tf', s')"
| step_reboot: "fw_step os tf d s Fw_reboot ret tf' d s'" if "tf_fw_reboot os tf s = Some (ret, tf', s')"

inductive_cases fw_stepE: "fw_step os tf d s c ret tf' d' s'"

inductive fw_run ::
  "'w os \<Rightarrow> tf_handle \<Rightarrow> tf_fw_data \<Rightarrow> 'w sys \<Rightarrow> (fw_call \<times> int) list \<Rightarrow> tf_handle \<Rightarrow> tf_fw_data \<Rightarrow> 'w sys \<Rightarrow> bool"
  for os tf d s where
  fw_run_start: "fw_run os tf d s [] tf d s"
| fw_run_call: "fw_run os tf d s (calls @ [(c, ret)]) tf2 d2 s2"
    if "fw_run os tf d s calls tf1 d1 s1" and "fw_step os tf1 d1 s1 c ret tf2 d2 s2"

text \<open>The fields of a request have the width that the packet gives them. The length is not compared
  with \<^verbatim>\<open>MAX_DATA_SIZE\<close>, so any 16 bit length is handed to the caller.\<close>

definition fw_request_ok :: "tf_fw_data \<Rightarrow> bool" where
  "fw_request_ok d \<longleftrightarrow> fw_seq d < 0x100 \<and> fw_len d < 0x10000 \<and> fw_offset d < 0x1000000"

section \<open>Sending and receiving\<close>

definition fw_moved :: "'w os \<Rightarrow> tf_handle \<Rightarrow> 'w sys \<Rightarrow> int \<Rightarrow> tf_handle \<Rightarrow> 'w sys \<Rightarrow> bool" where
  "fw_moved os tf s ret tf' s' \<longleftrightarrow> quiet os tf s tf' s' \<and> error tf' = ret \<and> ret \<in> (if dev tf = None then {-2} else {-1, 0})"

lemma fw_send_loop_step:
  assumes "usb_bulk_write os fd 0x01 (bytes_at req at (min len MAX_SEND_SIZE)) t s = (ret, s1)"
  shows "fw_send_loop os fd req at len t s =
      (if at + min len MAX_SEND_SIZE > sizeof_fw_packet then None
       else if ret \<noteq> int (min len MAX_SEND_SIZE) then Some (-1, s1)
       else if len - min len MAX_SEND_SIZE \<noteq> 0 then fw_send_loop os fd req (at + min len MAX_SEND_SIZE) (len - min len MAX_SEND_SIZE) t s1
       else Some (0, s1))"
  by (subst fw_send_loop.simps) (simp only: Let_def assms prod.case)

lemma fw_send_loop_io:
  "fw_send_loop os fd req at len t s = Some (err, s') \<Longrightarrow>
     device_io os (Some fd) (world s) (world s') \<and> err \<in> {0, -1}"
proof (induction os fd req at len t s rule: fw_send_loop.induct)
  case (1 os fd req at len t s)
  obtain ret s1 where w: "usb_bulk_write os fd 0x01 (bytes_at req at (min len MAX_SEND_SIZE)) t s = (ret, s1)" by fastforce
  with bulk_io(1) [of os fd s "bytes_at req at (min len MAX_SEND_SIZE)" t]
  have io: "device_io os (Some fd) (world s) (world s1)" by simp
  note run = fw_send_loop_step [OF w]
  from "1.prems" run consider "err = -1" "s' = s1" | "err = 0" "s' = s1"
    | "\<not> at + min len MAX_SEND_SIZE > sizeof_fw_packet" "\<not> ret \<noteq> int (min len MAX_SEND_SIZE)" "len - min len MAX_SEND_SIZE \<noteq> 0"
      "fw_send_loop os fd req (at + min len MAX_SEND_SIZE) (len - min len MAX_SEND_SIZE) t s1 = Some (err, s')"
    by (simp only:) (auto split: if_splits)
  then show ?case
  proof cases
    case 3
    from "1.IH" [OF refl 3(1) refl w [symmetric] 3(2,3,4)] show ?thesis using device_io_trans [OF _ io] by blast
  qed (use io in simp_all)
qed

lemma fw_send_moved:
  assumes "fw_send os tf req s = Some (ret, tf', s')"
  shows "fw_moved os tf s ret tf' s'"
  using assms by (auto simp: fw_send_def fw_moved_def quiet_def io_refl split: option.splits Option.bind_splits dest!: fw_send_loop_io)

lemma fw_get_response_moved:
  assumes "fw_get_response os tf reply s = (ret, m, tf', s')"
  shows "fw_moved os tf s ret tf' s'"
proof (cases "dev tf")
  case None
  with assms show ?thesis by (auto simp: fw_get_response_def fw_moved_def quiet_def io_refl)
next
  case (Some fd)
  with assms bulk_io(2) [of os fd s reply sizeof_fw_packet "timeout tf"] show ?thesis
    by (auto simp: fw_get_response_def fw_moved_def quiet_def fw_print_packet_world Let_def split: prod.splits if_splits)
qed

lemma fw_req_done_world: "fw_req_done os tf req s = Some (req', s') \<Longrightarrow> world s' = world s"
  by (auto simp: fw_req_done_def Let_def fw_print_packet_world split: if_splits)

lemma get_u24_less: "uint (get_u24 b a) < 2 ^ 24"
proof -
  have "get_u24 b a = take_bit 24 (get_u24 b a)"
    by (rule bit_word_eqI) (auto simp: get_u24_def bit_simps)
  then have "uint (get_u24 b a) = take_bit 24 (uint (get_u24 b a))" by (metis unsigned_take_bit_eq)
  then show ?thesis by (metis take_bit_int_less_exp)
qed

lemma fw_wait_moved:
  assumes "tf_wait_for_req_data os tf d s = (ret, d', tf', s')"
  shows "quiet os tf s tf' s' \<and> error tf' \<in> (if dev tf = None then {-2} else {-1, 0})
    \<and> ret \<in> (if dev tf = None then {-1} else {-1, 0, 1})
    \<and> (ret \<noteq> -1 \<longrightarrow> error tf' = 0) \<and> (if ret = 0 then fw_request_ok d' else d' = d)"
proof -
  obtain r m tf1 s1 where g: "fw_get_response os tf (os_junk os ''reply'' (world s)) s = (r, m, tf1, s1)"
    using prod_cases4 by blast
  have "uint (get_u24 m 10) < 2 ^ 24" by (rule get_u24_less)
  moreover have "uint (m 4) mod 4294967296 < 256" "uint (get_u16 m 8) mod 4294967296 < 65536"
    using uint_bounded [of "m 4"] uint_bounded [of "get_u16 m 8"]
    by (simp_all add: le_less_trans [OF zmod_le_nonneg_dividend])
  ultimately show ?thesis using fw_get_response_moved [OF g] assms g
    by (auto simp: tf_wait_for_req_data_def fw_moved_def fw_request_ok_def word_less_def unsigned_ucast_eq take_bit_eq_mod split: if_splits)
qed

section \<open>Every call\<close>

text \<open>What one call leaves behind: only the error of the handle has changed, only the device was
  used, and the request structure is as before or holds a request.\<close>

definition fw_results :: "tf_handle \<Rightarrow> fw_call \<Rightarrow> int set" where
  "fw_results tf c = (if dev tf = None then if c = Fw_reboot then {-2} else {-1}
     else if c = Fw_reboot then {-1, 0} else {-1, 0, 1})"

definition fw_errors :: "tf_handle \<Rightarrow> int set" where
  "fw_errors tf = {error tf} \<union> (if dev tf = None then {-2} else {-1, 0})"

definition fw_steady ::
  "'w os \<Rightarrow> tf_handle \<Rightarrow> tf_fw_data \<Rightarrow> 'w sys \<Rightarrow> fw_call \<Rightarrow> int \<Rightarrow> tf_handle \<Rightarrow> tf_fw_data \<Rightarrow> 'w sys \<Rightarrow> bool" where
  "fw_steady os tf d s c ret tf' d' s' \<longleftrightarrow> quiet os tf s tf' s' \<and> error tf' \<in> fw_errors tf
     \<and> ret \<in> fw_results tf c \<and> (0 \<le> ret \<longrightarrow> error tf' = 0) \<and> (d' = d \<or> fw_request_ok d')"

lemmas fw_steady_defs = fw_steady_def fw_results_def fw_errors_def

lemma quiet_dev: "quiet os tf s tf' s' \<Longrightarrow> dev tf' = dev tf"
  by (metis quiet_def tf_handle.select_convs(7) tf_handle.surjective tf_handle.update_convs(5))

lemma fw_wait_steady:
  assumes "c \<noteq> Fw_reboot" and "quiet os tf s tf1 s1" and "tf_wait_for_req_data os tf1 d s1 = (ret, d', tf', s')"
  shows "fw_steady os tf d s c ret tf' d' s'"
  using fw_wait_moved [OF assms(3)] quiet_trans [OF _ assms(2)] quiet_dev [OF assms(2)] assms(1)
  by (auto simp: fw_steady_defs split: if_splits)

lemma fw_done_quiet: "fw_req_done os tf1 req s1 = Some (req', s2) \<Longrightarrow> quiet os tf s tf1 s1 \<Longrightarrow> quiet os tf s tf1 s2"
  by (rule quiet_world [OF fw_req_done_world])

lemma fw_moved_after:
  assumes "fw_moved os tf1 s1 ret tf2 s2" and "quiet os tf s tf1 s1"
  shows "fw_moved os tf s ret tf2 s2"
  using assms quiet_trans [OF _ assms(2)] quiet_dev [OF assms(2)] by (auto simp: fw_moved_def)

lemma fw_moved_steady: "fw_moved os tf s ret tf' s' \<Longrightarrow> fw_steady os tf d s Fw_reboot ret tf' d s'"
  by (auto simp: fw_moved_def fw_steady_defs)

lemma fw_moved_failed: "c \<noteq> Fw_reboot \<Longrightarrow> fw_moved os tf s r tf' s' \<Longrightarrow> fw_steady os tf d s c (-1) tf' d s'"
  by (auto simp: fw_moved_def fw_steady_defs)

lemma fw_upload_steady:
  assumes "tf_fw_upload os tf d s = Some (ret, d', tf', s')"
  shows "fw_steady os tf d s Fw_upload ret tf' d' s'"
proof -
  obtain req s1 r tf2 s2 where fin: "fw_req_done os tf (fw_req_init (os_junk os ''req'' (world s)) TF_FW_PC_TO_STB 0) s = Some (req, s1)"
    and send: "fw_send os tf req s1 = Some (r, tf2, s2)"
    using assms by (auto simp: tf_fw_upload_def split: Option.bind_splits)
  have m2: "fw_moved os tf s r tf2 s2" by (rule fw_moved_after [OF fw_send_moved [OF send] fw_done_quiet [OF fin quiet_refl]])
  obtain r3 m tf3 s3 where get: "fw_get_response os tf2 (os_junk os ''reply'' (world s2)) s2 = (r3, m, tf3, s3)"
    using prod_cases4 by blast
  from m2 have q2: "quiet os tf s tf2 s2" by (simp add: fw_moved_def)
  have m3: "fw_moved os tf s r3 tf3 s3" by (rule fw_moved_after [OF fw_get_response_moved [OF get] q2])
  then have q3: "quiet os tf s tf3 s3" by (simp add: fw_moved_def)
  show ?thesis
    using assms fin send get fw_moved_failed [OF _ m2] fw_moved_failed [OF _ m3] fw_wait_steady [OF _ q3]
    by (auto simp: tf_fw_upload_def split: if_splits)
qed

lemma fw_upload_next_steady:
  assumes "tf_fw_upload_next os tf data d s = Some (ret, d', tf', s')"
  shows "fw_steady os tf d s (Fw_upload_next data) ret tf' d' s'"
proof (cases "length data > MAX_DATA_SIZE")
  case True
  with assms show ?thesis by (auto simp: tf_fw_upload_next_def fw_steady_defs intro: quiet_fprint)
next
  case False
  then obtain r0 req s1 r tf2 s2 where
    put: "fw_req_putdata (fw_req_init (os_junk os ''req'' (world s)) TF_FW_DATA (ucast (fw_seq d))) data = Some r0"
    and fin: "fw_req_done os tf r0 s = Some (req, s1)" and send: "fw_send os tf req s1 = Some (r, tf2, s2)"
    using assms by (auto simp: tf_fw_upload_next_def split: Option.bind_splits)
  have m2: "fw_moved os tf s r tf2 s2" by (rule fw_moved_after [OF fw_send_moved [OF send] fw_done_quiet [OF fin quiet_refl]])
  then have q2: "quiet os tf s tf2 s2" by (simp add: fw_moved_def)
  show ?thesis
    using assms False put fin send fw_moved_failed [OF _ m2] fw_wait_steady [OF _ q2]
    by (auto simp: tf_fw_upload_next_def split: if_splits)
qed

lemma fw_reboot_steady:
  assumes "tf_fw_reboot os tf s = Some (ret, tf', s')"
  shows "fw_steady os tf d s Fw_reboot ret tf' d s'"
proof -
  obtain req s1 where fin: "fw_req_done os tf (fw_req_init (os_junk os ''req'' (world s)) TF_FW_REBOOT 0) s = Some (req, s1)"
    and send: "fw_send os tf req s1 = Some (ret, tf', s')"
    using assms by (auto simp: tf_fw_reboot_def split: Option.bind_splits)
  show ?thesis by (rule fw_moved_steady [OF fw_moved_after [OF fw_send_moved [OF send] fw_done_quiet [OF fin quiet_refl]]])
qed

lemma fw_step_steady: "fw_step os tf d s c ret tf' d' s' \<Longrightarrow> fw_steady os tf d s c ret tf' d' s'"
  by (erule fw_stepE) (auto intro: fw_upload_steady fw_upload_next_steady fw_reboot_steady)

lemma fw_run_steady:
  assumes "fw_run os tf d s calls tf' d' s'"
  shows "quiet os tf s tf' s' \<and> error tf' \<in> fw_errors tf \<and> (d' = d \<or> fw_request_ok d')"
  using assms
proof (induction rule: fw_run.induct)
  case (fw_run_call calls tf1 d1 s1 c ret tf2 d2 s2)
  note step = fw_step_steady [OF fw_run_call.hyps(2)]
  then have "quiet os tf s tf2 s2" using fw_run_call.IH unfolding fw_steady_defs by (blast intro: quiet_trans [of os tf1 s1])
  moreover have "dev tf1 = dev tf" using fw_run_call.IH quiet_dev by blast
  ultimately show ?case using step fw_run_call.IH by (auto simp: fw_steady_def fw_errors_def)
qed (simp add: fw_errors_def)

lemma fw_run_results:
  assumes "fw_run os tf d s calls tf' d' s'"
  shows "\<forall>(c, ret) \<in> set calls. ret \<in> fw_results tf c"
  using assms
proof (induction rule: fw_run.induct)
  case (fw_run_call calls tf1 d1 s1 c ret tf2 d2 s2)
  have "dev tf1 = dev tf" using fw_run_steady [OF fw_run_call.hyps(1)] quiet_dev by blast
  with fw_run_call fw_step_steady [OF fw_run_call.hyps(2)] show ?case by (auto simp: fw_steady_defs)
qed simp

section \<open>Properties\<close>

text \<open>A run of the protocol: the reboot request, sent as one piece.\<close>

lemma script_reboot_run:
  "\<exists>s'. fw_run script_os script_handle \<lparr>fw_seq = 0, fw_len = 0, fw_offset = 0\<rparr> (script_sys []) [(Fw_reboot, 0)]
      (script_handle\<lparr>error := 0\<rparr>) \<lparr>fw_seq = 0, fw_len = 0, fw_offset = 0\<rparr> s'"
proof -
  let ?s = "script_sys []"
  obtain req s1 where req: "fw_req_done script_os script_handle (fw_req_init (os_junk script_os ''req'' (world ?s)) TF_FW_REBOOT 0) ?s
      = Some (req, s1)" and fin: "fw_finished req 0 TF_FW_REBOOT []"
    using fw_request_nodata by blast
  have "fw_takes script_os 3 (timeout script_handle) (\<lambda>w. True) (fw_pieces (fw_wire 0 TF_FW_REBOOT [])) (world s1)"
    by (rule script_fw_takes) (simp_all add: length_fw_wire fw_padding_def)
  from fw_send_takes [OF script_handle_simps(1) fin _ this] obtain s2 where
    "fw_send script_os script_handle req s1 = Some (0, script_handle\<lparr>error := 0\<rparr>, s2)" by auto
  with req have "tf_fw_reboot script_os script_handle ?s = Some (0, script_handle\<lparr>error := 0\<rparr>, s2)"
    by (simp add: tf_fw_reboot_def)
  from fw_run_call [OF fw_run_start step_reboot [OF this]] show ?thesis by auto
qed

text \<open>C16. After any sequence of boot loader calls, with any blocks and any replies: of the handle only
  the error has changed, to 0 or \<^verbatim>\<open>-1\<close> with a device and to \<^verbatim>\<open>-2\<close> without one; only the two endpoints of
  the device were used. The two upload calls return 0, 1 or \<^verbatim>\<open>-1\<close> as documented, and \<^verbatim>\<open>-1\<close> without a
  device; \<^verbatim>\<open>tf_fw_reboot\<close> returns 0 or \<^verbatim>\<open>-1\<close>, but \<^verbatim>\<open>-2\<close> without a device, where the header says \<^verbatim>\<open>-1\<close>.
  The request structure is the caller's own or holds fields of the widths of the packet (8, 16 and 24
  bits; the length is not limited to \<^verbatim>\<open>MAX_DATA_SIZE\<close>), and a last call that succeeded left no
  error.\<close>

theorem fw_session_invariant:
  assumes "fw_run os tf d s calls tf' d' s'"
  shows "tf' = tf\<lparr>error := error tf'\<rparr> \<and> error tf' \<in> {error tf} \<union> (if dev tf = None then {-2} else {-1, 0})
    \<and> device_io os (dev tf) (world s) (world s')
    \<and> (\<forall>(c, ret) \<in> set calls. ret \<in> (if dev tf = None then if c = Fw_reboot then {-2} else {-1}
         else if c = Fw_reboot then {-1, 0} else {-1, 0, 1}))
    \<and> (d' = d \<or> fw_seq d' < 0x100 \<and> fw_len d' < 0x10000 \<and> fw_offset d' < 0x1000000)
    \<and> (calls \<noteq> [] \<and> 0 \<le> snd (last calls) \<longrightarrow> error tf' = 0)"
proof -
  have "calls \<noteq> [] \<and> 0 \<le> snd (last calls) \<longrightarrow> error tf' = 0"
    using assms by (cases rule: fw_run.cases) (auto dest!: fw_step_steady simp: fw_steady_def)
  with fw_run_steady [OF assms] fw_run_results [OF assms] show ?thesis
    unfolding fw_errors_def fw_results_def fw_request_ok_def by (simp only: quiet_def)
qed

theorem fw_session_invariant_witness:
  "\<exists>tf' s'. fw_run script_os script_handle \<lparr>fw_seq = 0, fw_len = 0, fw_offset = 0\<rparr> (script_sys [])
      [(Fw_reboot, 0)] tf' \<lparr>fw_seq = 0, fw_len = 0, fw_offset = 0\<rparr> s'
    \<and> error tf' = 0 \<and> device_io script_os (Some 3) (world (script_sys [])) (world s')"
proof -
  obtain s2 where run: "fw_run script_os script_handle \<lparr>fw_seq = 0, fw_len = 0, fw_offset = 0\<rparr> (script_sys [])
      [(Fw_reboot, 0)] (script_handle\<lparr>error := 0\<rparr>) \<lparr>fw_seq = 0, fw_len = 0, fw_offset = 0\<rparr> s2"
    using script_reboot_run by blast
  have "device_io script_os (Some 3) (world (script_sys [])) (world s2)" using fw_session_invariant [OF run] by simp
  with run show ?thesis by (intro exI [of _ "script_handle\<lparr>error := 0\<rparr>"] exI [of _ s2] conjI) simp_all
qed

end
