(* ===== verification/Tf_Trace.thy ===== *)
theory Tf_Trace
  imports Fw_Session
begin

text \<open>
  Tracing does not change what the library does. Of two runs of an operation, from handles that
  differ only in the settings of the trace and from systems that differ only in what was printed,
  the second one does what the first one does. Each operation is shown to be parametric in these two relations.
\<close>

section \<open>The relations\<close>

text \<open>A trace needs a stream: \<^verbatim>\<open>tf_send_success\<close> prints without looking.\<close>

definition traceable :: "tf_handle \<Rightarrow> bool" where
  "traceable tf \<longleftrightarrow> (trace_level tf > 0 \<longrightarrow> tracefh tf \<noteq> None)"

definition but_trace :: "tf_handle \<Rightarrow> tf_handle \<Rightarrow> bool" where
  "but_trace tf tf' \<longleftrightarrow> traceable tf' \<and> timeout tf = timeout tf' \<and> nocrc tf = nocrc tf'
     \<and> error tf = error tf' \<and> lock_fd tf = lock_fd tf' \<and> dev tf = dev tf' \<and> pending tf = pending tf' \<and> buf tf = buf tf'"

definition but_printed :: "'w sys \<Rightarrow> 'w sys \<Rightarrow> bool" where
  "but_printed s s' \<longleftrightarrow> world s = world s'"

text \<open>
  The second of two runs attains the first: if the first gives a result, so does the second, and
  the results are related. Only this direction holds, because a handle that is to trace without a
  stream is undefined where it acknowledges a packet.
\<close>

definition attains :: "('a \<Rightarrow> 'b \<Rightarrow> bool) \<Rightarrow> 'a option \<Rightarrow> 'b option \<Rightarrow> bool" where
  "attains R x y \<longleftrightarrow> (\<forall>a. x = Some a \<longrightarrow> (\<exists>b. y = Some b \<and> R a b))"

lemma attains_None [simp]: "attains R None y"
  by (simp add: attains_def)

lemma attains_Some [simp]: "attains R (Some a) y \<longleftrightarrow> (\<exists>b. y = Some b \<and> R a b)"
  by (simp add: attains_def)

lemma attains_refl: "attains (=) x x"
  by (simp add: attains_def)

lemma attains_option [transfer_rule]:
  "attains R None None" "rel_fun R (attains R) Some Some"
  "rel_fun (attains R) (rel_fun (rel_fun R (attains R')) (attains R')) Option.bind Option.bind"
  by (auto simp: rel_fun_def attains_def split: Option.bind_splits)

text \<open>What does not depend on the handle and the system is the same in both runs.\<close>

lemma pure_lockstep [transfer_rule]:
  "rel_fun (=) (rel_fun (=) (attains (=))) tf_req_put8 tf_req_put8"
  "rel_fun (=) (rel_fun (=) (attains (=))) tf_req_put32 tf_req_put32"
  "rel_fun (=) (rel_fun (=) (attains (=))) tf_req_put64 tf_req_put64"
  "rel_fun (=) (rel_fun (=) (attains (=))) tf_req_putdata tf_req_putdata"
  "rel_fun (=) (rel_fun (=) (rel_fun (=) (attains (=)))) tf_req_putfilename tf_req_putfilename"
  "rel_fun (=) (rel_fun (=) (rel_fun (=) (attains (=)))) unpack_dirent unpack_dirent"
  "rel_fun (=) (rel_fun (=) (rel_fun (=) (rel_fun (=) (attains (=))))) unpack_entries unpack_entries"
  "rel_fun (=) (rel_fun (=) (rel_fun (=) (rel_fun (=) (rel_fun (=) (attains (=)))))) put_typefile put_typefile"
  "rel_fun (=) (rel_fun (=) (attains (=))) fw_req_putdata fw_req_putdata"
  by (simp_all add: rel_fun_def attains_refl)

section \<open>Reading and writing the handle and the system\<close>

lemma handle_lockstep [transfer_rule]:
  "rel_fun but_trace (=) timeout timeout" "rel_fun but_trace (=) nocrc nocrc" "rel_fun but_trace (=) error error"
  "rel_fun but_trace (=) dev dev" "rel_fun but_trace (=) pending pending" "rel_fun but_trace (=) buf buf"
  "rel_fun (rel_fun (=) (=)) (rel_fun but_trace but_trace) timeout_update timeout_update"
  "rel_fun (rel_fun (=) (=)) (rel_fun but_trace but_trace) error_update error_update"
  "rel_fun (rel_fun (=) (=)) (rel_fun but_trace but_trace) pending_update pending_update"
  "rel_fun (rel_fun (=) (=)) (rel_fun but_trace but_trace) buf_update buf_update"
  by (simp_all add: rel_fun_def but_trace_def traceable_def)

lemma sys_lockstep [transfer_rule]:
  "rel_fun but_printed (=) world world"
  "rel_fun (rel_fun (=) (=)) (rel_fun but_printed but_printed) world_update world_update"
  "rel_fun (=) (rel_fun (=) (rel_fun but_printed but_printed)) fprint fprint"
  by (simp_all add: rel_fun_def but_printed_def fprint_def)

lemma print_world: "world (print_packet os fh prefix level packet s) = world s"
  by (simp add: print_packet_def fprint_def Let_def split: option.split)

lemma bulk_lockstep [transfer_rule]:
  "rel_fun (=) (rel_fun (=) (rel_fun (=) (rel_fun (=) (rel_fun (=) (rel_fun but_printed (rel_prod (=) but_printed)))))) usb_bulk_write usb_bulk_write"
  "rel_fun (=) (rel_fun (=) (rel_fun (=) (rel_fun (=) (rel_fun (=) (rel_fun (=) (rel_fun but_printed (rel_prod (=) (rel_prod (=) but_printed))))))))
     usb_bulk_read usb_bulk_read"
  unfolding usb_bulk_write_def usb_bulk_read_def by transfer_prover+

section \<open>Every operation\<close>

text \<open>The result, what the operation returns, and the final handle and system.\<close>

abbreviation (input) lockstep_result ::
  "(int \<times> 'a \<times> tf_handle \<times> 'w sys) option \<Rightarrow> (int \<times> 'a \<times> tf_handle \<times> 'w sys) option \<Rightarrow> bool" where
  "lockstep_result \<equiv> attains (rel_prod (=) (rel_prod (=) (rel_prod but_trace but_printed)))"

abbreviation (input) lockstep ::
  "(int \<times> tf_handle \<times> 'w sys) option \<Rightarrow> (int \<times> tf_handle \<times> 'w sys) option \<Rightarrow> bool" where
  "lockstep \<equiv> attains (rel_prod (=) (rel_prod but_trace but_printed))"

text \<open>What relates two operations that take the handle and the system, and in between the given number of
  arguments.\<close>

abbreviation (input) call0 where
  "call0 R \<equiv> rel_fun (=) (rel_fun but_trace (rel_fun but_printed R))"

abbreviation (input) call1 where
  "call1 R \<equiv> rel_fun (=) (rel_fun but_trace (rel_fun (=) (rel_fun but_printed R)))"

abbreviation (input) call2 where
  "call2 R \<equiv> rel_fun (=) (rel_fun but_trace (rel_fun (=) (rel_fun (=) (rel_fun but_printed R))))"

abbreviation (input) call3 where
  "call3 R \<equiv> rel_fun (=) (rel_fun but_trace (rel_fun (=) (rel_fun (=) (rel_fun (=) (rel_fun but_printed R)))))"

abbreviation (input) call4 where
  "call4 R \<equiv> rel_fun (=) (rel_fun but_trace (rel_fun (=) (rel_fun (=) (rel_fun (=) (rel_fun (=) (rel_fun but_printed R))))))"

lemma req_done_lockstep [transfer_rule]:
  "call1 (attains (rel_prod (=) but_printed)) tf_req_done tf_req_done"
  by (auto simp: rel_fun_def req_done_eq Let_def but_printed_def print_world)

lemma send_lockstep [transfer_rule]:
  "call1 (rel_prod (=) (rel_prod but_trace but_printed)) tf_send tf_send"
  unfolding tf_send_def by transfer_prover

lemma print_lockstep [transfer_rule]:
  "call2 but_printed
     (\<lambda>os tf prefix. print_packet os (tracefh tf) prefix (trace_level tf))
     (\<lambda>os tf prefix. print_packet os (tracefh tf) prefix (trace_level tf))"
  by (simp add: rel_fun_def but_printed_def print_world)

lemma response_lockstep [transfer_rule]:
  "call1 lockstep_result tf_get_response tf_get_response"
proof (intro rel_funI, simp)
  fix os reply and tf tf2 :: tf_handle and s s2 :: "'w sys"
  assume h: "but_trace tf tf2" and s: "but_printed s s2"
  show "lockstep_result (tf_get_response os tf reply s) (tf_get_response os tf2 reply s2)"
  proof (cases "dev tf")
    case None
    with h s show ?thesis by (simp add: get_response_noconn but_trace_def traceable_def)
  next
    case (Some fd)
    with h have d: "dev tf2 = Some fd" and t: "timeout tf2 = timeout tf" and c: "nocrc tf2 = nocrc tf" by (simp_all add: but_trace_def)
    obtain n m s1 where 1: "usb_bulk_read os fd 0x82 reply sizeof_packet (timeout tf) s = (n, m, s1)"
      by (metis prod_cases3)
    with s obtain s3 where 2: "usb_bulk_read os fd 0x82 reply sizeof_packet (timeout tf2) s2 = (n, m, s3)" and p: "but_printed s1 s3"
      unfolding t by (auto simp: usb_bulk_read_def but_printed_def Let_def split: prod.splits)
    have e: "but_trace (tf\<lparr>error := e\<rparr>) (tf2\<lparr>error := e\<rparr>)" for e using h by (simp add: but_trace_def traceable_def)
    show ?thesis
      unfolding get_response_eq [OF Some 1] get_response_eq [OF d 2] c Let_def
      using e p by (auto simp: but_printed_def print_world)
  qed
qed

lemma success_lockstep [transfer_rule]:
  "call0 lockstep tf_send_success tf_send_success"
proof (intro rel_funI, simp)
  fix os and tf tf2 :: tf_handle and s s2 :: "'w sys"
  assume h: "but_trace tf tf2" and s: "but_printed s s2"
  have run: "(\<not> traceable t \<and> tf_send_success os t u = None) \<or>
      (\<exists>u'. tf_send_success os t u = Some (tf_send os t success_packet u') \<and> but_printed u u')" for t and u :: "'w sys"
  proof (cases "traceable t")
    case True
    then show ?thesis by (auto simp: tf_send_success_def traceable_def but_printed_def fprint_def)
  qed (auto simp: tf_send_success_def traceable_def)
  show "lockstep (tf_send_success os tf s) (tf_send_success os tf2 s2)"
  proof (cases "tf_send_success os tf s")
    case (Some r)
    then obtain s1 where 1: "tf_send_success os tf s = Some (tf_send os tf success_packet s1)" "but_printed s s1"
      using run [of tf s] by auto
    obtain s3 where 2: "tf_send_success os tf2 s2 = Some (tf_send os tf2 success_packet s3)" "but_printed s2 s3"
      using run [of tf2 s2] h by (auto simp: but_trace_def)
    have "but_printed s1 s3" using s 1 2 by (simp add: but_printed_def)
    from rel_funD [OF rel_funD [OF rel_funD [OF rel_funD [OF send_lockstep refl] h] refl] this]
    show ?thesis unfolding 1 2 attains_Some by blast
  qed simp
qed

lemma fail_lockstep [transfer_rule]:
  "call1 lockstep tf_send_fail tf_send_fail"
  unfolding tf_send_fail_def by transfer_prover

lemma cmd_lockstep [transfer_rule]:
  "call1 lockstep tf_cmd tf_cmd"
  unfolding tf_cmd_def by transfer_prover

lemma command_lockstep [transfer_rule]:
  "call0 lockstep tf_cmd_cancel tf_cmd_cancel"
  "call0 lockstep tf_cmd_ready tf_cmd_ready"
  "call0 lockstep tf_cmd_reset tf_cmd_reset"
  "call1 lockstep tf_cmd_turbo tf_cmd_turbo"
  "call1 lockstep tf_cmd_delete tf_cmd_delete"
  "call1 lockstep tf_cmd_mkdir tf_cmd_mkdir"
  "call2 lockstep tf_cmd_rename tf_cmd_rename"
  "call1 lockstep_result tf_cmd_size tf_cmd_size"
  unfolding tf_cmd_cancel_def tf_cmd_ready_def tf_cmd_reset_def tf_cmd_turbo_def tf_cmd_delete_def tf_cmd_mkdir_def
    tf_cmd_rename_def tf_cmd_size_def
  by transfer_prover+

lemma init_lockstep [transfer_rule]:
  "call0 lockstep tf_init tf_init"
  unfolding tf_init_def by transfer_prover

lemma dirents_lockstep [transfer_rule]:
  "call1 lockstep_result get_dirents get_dirents"
  unfolding get_dirents_def by transfer_prover

lemma dir_lockstep [transfer_rule]:
  "call2 lockstep_result tf_cmd_dir_first tf_cmd_dir_first"
  "call1 lockstep_result tf_cmd_dir_next tf_cmd_dir_next"
  "call0 lockstep tf_cmd_dir_cancel tf_cmd_dir_cancel"
  unfolding tf_cmd_dir_first_def tf_cmd_dir_next_def tf_cmd_dir_cancel_def by transfer_prover+

lemma sleep_lockstep [transfer_rule]:
  "rel_fun (=) (rel_fun (=) (rel_fun but_printed but_printed)) sleep sleep"
  unfolding sleep_def by transfer_prover

lemma put_lockstep [transfer_rule]:
  "call4 lockstep tf_cmd_put tf_cmd_put"
  "call2 lockstep tf_cmd_put_data tf_cmd_put_data"
  "call0 lockstep tf_cmd_put_done tf_cmd_put_done"
  "call0 lockstep tf_cmd_put_cancel tf_cmd_put_cancel"
  unfolding tf_cmd_put_def tf_cmd_put_data_def tf_cmd_put_done_def tf_cmd_put_cancel_def by transfer_prover+

lemma get_lockstep [transfer_rule]:
  "call3 lockstep_result tf_cmd_get tf_cmd_get"
  "call0 lockstep_result buf_response buf_response"
  "rel_fun (=) (rel_fun (=) (rel_fun (=) (rel_fun but_trace (rel_fun but_printed lockstep_result)))) handle_next handle_next"
  unfolding tf_cmd_get_def buf_response_def handle_next_def by transfer_prover+

lemma get_next_lockstep [transfer_rule]:
  "call1 lockstep_result tf_cmd_get_next tf_cmd_get_next"
  unfolding tf_cmd_get_next_def by transfer_prover

lemma get_cancel_loop_lockstep:
  assumes "but_trace tf tf2" and "but_printed s s2"
  shows "lockstep (get_cancel_loop os n ret tf s) (get_cancel_loop os n ret tf2 s2)"
  using assms
proof (induction n arbitrary: ret tf tf2 s s2)
  case (Suc n)
  note [transfer_rule] = Suc.prems
  have [transfer_rule]: "call0 lockstep (get_cancel_loop os n) (get_cancel_loop os n)"
    using Suc.IH by (simp add: rel_fun_def)
  show ?case unfolding get_cancel_loop.simps by transfer_prover
qed simp

lemma get_cancel_lockstep [transfer_rule]:
  "call0 lockstep tf_cmd_get_cancel tf_cmd_get_cancel"
proof -
  have [transfer_rule]: "rel_fun (=) (rel_fun (=) (rel_fun (=) (rel_fun but_trace (rel_fun but_printed lockstep)))) get_cancel_loop get_cancel_loop"
    by (auto intro!: rel_funI get_cancel_loop_lockstep)
  show ?thesis unfolding tf_cmd_get_cancel_def by transfer_prover
qed

text \<open>The page loop of \<^verbatim>\<open>tf_stat\<close> need not return; the second run returns if the first does.\<close>

lemma stat_loop_follows:
  assumes "stat_loop os tf path entries d s = Some r" and "but_trace tf tf2" and "but_printed s s2"
  shows "lockstep_result (Some r) (stat_loop os tf2 path entries d s2)"
proof -
  let ?P = "\<lambda>os tf path entries d s r. \<forall>tf2 s2. but_trace tf tf2 \<longrightarrow> but_printed s s2 \<longrightarrow>
    lockstep_result (Some r) (stat_loop os tf2 path entries d s2)"
  have "?P os tf path entries d s r"
  proof (rule stat_loop.raw_induct [where P = ?P, OF _ assms(1)], intro allI impI)
    fix stat and os :: "'a os" and tf path entries d s r tf2 s2
    assume IH: "\<And>os tf path entries d s r. stat os tf path entries d s = Some r \<Longrightarrow> ?P os tf path entries d s r"
      and run: "(case find_entry entries path 0 of
        Some d \<Rightarrow> Option.bind (tf_cmd_dir_cancel os tf s) (\<lambda>(_, tf, s). Some (0, d, tf, s))
      | None \<Rightarrow> Option.bind (tf_cmd_dir_next os tf entries s) (\<lambda>(ret, entries, tf, s).
          if ret = 0 then stat os tf path entries d s else Some (1, d, tf, s))) = Some r"
      and h: "but_trace tf tf2" and s: "but_printed s s2"
    note [transfer_rule] = h s
    show "lockstep_result (Some r) (stat_loop os tf2 path entries d s2)"
    proof (cases "find_entry entries path 0")
      case (Some e)
      have "lockstep (tf_cmd_dir_cancel os tf s) (tf_cmd_dir_cancel os tf2 s2)" by transfer_prover
      with run Some show ?thesis
        by (subst stat_loop.simps) (auto split: Option.bind_splits elim!: option.rel_cases)
    next
      case None
      have next_page: "lockstep_result (tf_cmd_dir_next os tf entries s) (tf_cmd_dir_next os tf2 entries s2)" by transfer_prover
      obtain ret es tf1 s1 where 1: "tf_cmd_dir_next os tf entries s = Some (ret, es, tf1, s1)"
        and r: "(if ret = 0 then stat os tf1 path es d s1 else Some (1, d, tf1, s1)) = Some r"
        using run None by (auto split: Option.bind_splits)
      from next_page 1 obtain tf3 s3 where 2: "tf_cmd_dir_next os tf2 entries s2 = Some (ret, es, tf3, s3)"
        and rel: "but_trace tf1 tf3" "but_printed s1 s3"
        by (auto elim!: option.rel_cases)
      show ?thesis
      proof (cases "ret = 0")
        case True
        with r have "stat os tf1 path es d s1 = Some r" by simp
        from IH [OF this] rel None 2 True show ?thesis by (subst stat_loop.simps) simp
      next
        case False
        with r rel None 2 show ?thesis by (subst stat_loop.simps) auto
      qed
    qed
  qed
  with assms(2,3) show ?thesis by blast
qed

lemma stat_loop_lockstep [transfer_rule]:
  "call3 lockstep_result stat_loop stat_loop"
proof (intro rel_funI, simp)
  fix os and tf tf2 :: tf_handle and path entries d and s s2 :: "'w sys"
  assume h: "but_trace tf tf2" and s: "but_printed s s2"
  show "lockstep_result (stat_loop os tf path entries d s) (stat_loop os tf2 path entries d s2)"
  proof (cases "stat_loop os tf path entries d s")
    case (Some r)
    with stat_loop_follows [OF Some h s] show ?thesis by simp
  qed simp
qed

lemma stat_lockstep [transfer_rule]:
  "call3 lockstep_result tf_stat tf_stat"
  unfolding tf_stat_def by transfer_prover

section \<open>The boot loader protocol\<close>

lemma fw_done_lockstep [transfer_rule]:
  "call1 (attains (rel_prod (=) but_printed)) fw_req_done fw_req_done"
  by (auto simp: rel_fun_def fw_req_done_def Let_def but_printed_def)

lemma fw_send_loop_lockstep:
  assumes "but_printed s s2"
  shows "attains (rel_prod (=) but_printed) (fw_send_loop os fd req at len t s) (fw_send_loop os fd req at len t s2)"
  using assms
proof (induction os fd req at len t s arbitrary: s2 rule: fw_send_loop.induct)
  case (1 os fd req at len t s)
  let ?n = "min len MAX_SEND_SIZE"
  note [transfer_rule] = "1.prems"
  have "rel_prod (=) but_printed (usb_bulk_write os fd 0x01 (bytes_at req at ?n) t s) (usb_bulk_write os fd 0x01 (bytes_at req at ?n) t s2)"
    by transfer_prover
  then obtain ret s1 s3 where w: "usb_bulk_write os fd 0x01 (bytes_at req at ?n) t s = (ret, s1)"
      "usb_bulk_write os fd 0x01 (bytes_at req at ?n) t s2 = (ret, s3)" and p: "but_printed s1 s3"
    by (auto elim!: rel_prod.cases)
  show ?case
    unfolding fw_send_loop_step [OF w(1)] fw_send_loop_step [OF w(2)]
    using "1.IH" [OF refl _ refl w(1) [symmetric] _ _ p] p by (simp only: split: if_split) simp
qed

lemma fw_link_lockstep [transfer_rule]:
  "call1 lockstep fw_send fw_send"
  "call1 (rel_prod (=) (rel_prod (=) (rel_prod but_trace but_printed)))
     fw_get_response fw_get_response"
proof -
  have [transfer_rule]: "rel_fun (=) (rel_fun (=) (rel_fun (=) (rel_fun (=) (rel_fun (=) (rel_fun (=) (rel_fun but_printed (attains (rel_prod (=) but_printed))))))))
      fw_send_loop fw_send_loop"
    by (auto intro!: rel_funI fw_send_loop_lockstep)
  show "call1 lockstep fw_send fw_send"
    unfolding fw_send_def by transfer_prover
  show "call1 (rel_prod (=) (rel_prod (=) (rel_prod but_trace but_printed)))
     fw_get_response fw_get_response"
  proof (intro rel_funI, simp)
    fix os reply and tf tf2 :: tf_handle and s s2 :: "'w sys"
    assume "but_trace tf tf2" and "but_printed s s2"
    then show "rel_prod (=) (rel_prod (=) (rel_prod but_trace but_printed)) (fw_get_response os tf reply s) (fw_get_response os tf2 reply s2)"
      by (auto simp: fw_get_response_def but_trace_def but_printed_def traceable_def usb_bulk_read_def Let_def split: prod.split option.split)
  qed
qed

lemma fw_wait_lockstep [transfer_rule]:
  "call1 (rel_prod (=) (rel_prod (=) (rel_prod but_trace but_printed)))
     tf_wait_for_req_data tf_wait_for_req_data"
  unfolding tf_wait_for_req_data_def by transfer_prover

lemma fw_call_lockstep [transfer_rule]:
  "call1 lockstep_result tf_fw_upload tf_fw_upload"
  "call2 lockstep_result tf_fw_upload_next tf_fw_upload_next"
  "call0 lockstep tf_fw_reboot tf_fw_reboot"
  unfolding tf_fw_upload_def tf_fw_upload_next_def tf_fw_reboot_def by transfer_prover+

section \<open>Sessions\<close>

lemma lockstep_follows:
  "lockstep x y \<Longrightarrow> x = Some (ret, tf, s) \<Longrightarrow> \<exists>tf2 s2. y = Some (ret, tf2, s2) \<and> but_trace tf tf2 \<and> but_printed s s2"
  by (cases y) auto

lemma lockstep_result_follows:
  "lockstep_result x y \<Longrightarrow> x = Some (ret, r, tf, s) \<Longrightarrow>
     \<exists>tf2 s2. y = Some (ret, r, tf2, s2) \<and> but_trace tf tf2 \<and> but_printed s s2"
  by (cases y) auto

lemma call_step_lockstep:
  assumes "call_step os tf s c ret tf' s'" and h: "but_trace tf tf2" and s: "but_printed s s2"
  shows "\<exists>tf2' s2'. call_step os tf2 s2 c ret tf2' s2' \<and> but_trace tf' tf2' \<and> but_printed s' s2'"
proof -
  note [transfer_rule] = h s
  have "lockstep (tf_init os tf s) (tf_init os tf2 s2)"
    "lockstep (tf_cmd_cancel os tf s) (tf_cmd_cancel os tf2 s2)"
    "lockstep (tf_cmd_ready os tf s) (tf_cmd_ready os tf2 s2)"
    "lockstep (tf_cmd_reset os tf s) (tf_cmd_reset os tf2 s2)"
    "lockstep (tf_cmd_turbo os tf on s) (tf_cmd_turbo os tf2 on s2)"
    "lockstep (tf_cmd_delete os tf path s) (tf_cmd_delete os tf2 path s2)"
    "lockstep (tf_cmd_rename os tf path dest s) (tf_cmd_rename os tf2 path dest s2)"
    "lockstep (tf_cmd_mkdir os tf path s) (tf_cmd_mkdir os tf2 path s2)"
    "lockstep (tf_cmd_dir_cancel os tf s) (tf_cmd_dir_cancel os tf2 s2)"
    "lockstep (tf_cmd_get_cancel os tf s) (tf_cmd_get_cancel os tf2 s2)"
    "lockstep (tf_cmd_put os tf path sz stamp offset s) (tf_cmd_put os tf2 path sz stamp offset s2)"
    "lockstep (tf_cmd_put_data os tf offset data s) (tf_cmd_put_data os tf2 offset data s2)"
    "lockstep (tf_cmd_put_done os tf s) (tf_cmd_put_done os tf2 s2)"
    "lockstep (tf_cmd_put_cancel os tf s) (tf_cmd_put_cancel os tf2 s2)"
    "lockstep (tf_send_success os tf s) (tf_send_success os tf2 s2)"
    "lockstep (tf_send_fail os tf reason s) (tf_send_fail os tf2 reason s2)"
    for on path dest sz stamp offset data reason by transfer_prover+
  note plain = this [THEN lockstep_follows]
  have "lockstep_result (tf_cmd_size os tf r s) (tf_cmd_size os tf2 r s2)"
    "lockstep_result (tf_cmd_dir_first os tf path es s) (tf_cmd_dir_first os tf2 path es s2)"
    "lockstep_result (tf_cmd_dir_next os tf es s) (tf_cmd_dir_next os tf2 es s2)"
    "lockstep_result (tf_stat os tf path es d s) (tf_stat os tf2 path es d s2)"
    "lockstep_result (tf_cmd_get os tf path offset d s) (tf_cmd_get os tf2 path offset d s2)"
    "lockstep_result (tf_cmd_get_next os tf b s) (tf_cmd_get_next os tf2 b s2)"
    for r path es offset d b by transfer_prover+
  note result = this [THEN lockstep_result_follows]
  from assms(1) show ?thesis
    by cases (auto dest!: plain result intro: call_step.intros)
qed

lemma session_lockstep:
  assumes "session os tf s calls tf' s'" and "but_trace tf tf2" and "but_printed s s2"
  shows "\<exists>tf2' s2'. session os tf2 s2 calls tf2' s2' \<and> but_trace tf' tf2' \<and> but_printed s' s2'"
  using assms
proof (induction rule: session.induct)
  case session_start
  then show ?case by (blast intro: session.session_start)
next
  case (session_call calls tf1 s1 c ret tf2' s2')
  then obtain tf3 s3 where "session os tf2 s2 calls tf3 s3" "but_trace tf1 tf3" "but_printed s1 s3" by blast
  with call_step_lockstep [OF session_call.hyps(2)] show ?case by (blast intro: session.session_call)
qed

lemma fw_step_lockstep:
  assumes "fw_step os tf d s c ret tf' d' s'" and h: "but_trace tf tf2" and s: "but_printed s s2"
  shows "\<exists>tf2' s2'. fw_step os tf2 d s2 c ret tf2' d' s2' \<and> but_trace tf' tf2' \<and> but_printed s' s2'"
proof -
  note [transfer_rule] = h s
  have "lockstep (tf_fw_reboot os tf s) (tf_fw_reboot os tf2 s2)" by transfer_prover
  note plain = this [THEN lockstep_follows]
  have "lockstep_result (tf_fw_upload os tf d s) (tf_fw_upload os tf2 d s2)"
    "lockstep_result (tf_fw_upload_next os tf data d s) (tf_fw_upload_next os tf2 data d s2)" for data
    by transfer_prover+
  note result = this [THEN lockstep_result_follows]
  from assms(1) show ?thesis
    by cases (auto dest!: plain result intro: fw_step.intros)
qed

lemma fw_run_lockstep:
  assumes "fw_run os tf d s calls tf' d' s'" and "but_trace tf tf2" and "but_printed s s2"
  shows "\<exists>tf2' s2'. fw_run os tf2 d s2 calls tf2' d' s2' \<and> but_trace tf' tf2' \<and> but_printed s' s2'"
  using assms
proof (induction rule: fw_run.induct)
  case fw_run_start
  then show ?case by (blast intro: fw_run.fw_run_start)
next
  case (fw_run_call calls tf1 d1 s1 c ret tf3 d3 s3)
  then obtain tf4 s4 where "fw_run os tf2 d s2 calls tf4 d1 s4" "but_trace tf1 tf4" "but_printed s1 s4" by blast
  with fw_step_lockstep [OF fw_run_call.hyps(2)] show ?case by (blast intro: fw_run.fw_run_call)
qed

section \<open>Properties\<close>

text \<open>The handle with other settings of the trace.\<close>

definition retrace :: "int \<Rightarrow> stream option \<Rightarrow> tf_handle \<Rightarrow> tf_handle" where
  "retrace level fh tf = tf\<lparr>trace_level := level, tracefh := fh\<rparr>"

lemma but_trace_retrace:
  assumes "but_trace tf tf2" and "trace_level tf2 = level" and "tracefh tf2 = fh"
  shows "tf2 = retrace level fh tf"
  using assms by (intro tf_handle.equality) (simp_all add: but_trace_def retrace_def)

lemma retrace_but_trace: "traceable (retrace level fh tf) \<Longrightarrow> but_trace tf (retrace level fh tf)"
  by (simp add: but_trace_def retrace_def)

text \<open>C13. Tracing is transparent: every sequence of calls on a handle, with its results, is one of the
  same handle with any other trace level and any stream as well, whatever was printed before; the
  world ends in the same state, so the device and the clock have seen the same, and the two final
  handles differ in nothing but these settings. The only settings excluded are a positive level
  without a stream: with them \<^verbatim>\<open>tf_send_success\<close> writes through a null pointer.\<close>

theorem tracing_transparent:
  assumes "session os tf s calls tf' s'" and "world s2 = world s"
  shows "if level > 0 \<and> fh = None then tf_send_success os (retrace level fh tf) s2 = None
    else \<exists>s2'. session os (retrace level fh tf) s2 calls (retrace level fh tf') s2' \<and> world s2' = world s'"
proof (cases "level > 0 \<and> fh = None")
  case True
  then show ?thesis by (simp add: tf_send_success_def retrace_def)
next
  case False
  then have "traceable (retrace level fh tf)" by (auto simp: traceable_def retrace_def)
  moreover have "but_printed s s2" using assms(2) by (simp add: but_printed_def)
  ultimately obtain tf2 s2' where
    run: "session os (retrace level fh tf) s2 calls tf2 s2'" and "but_trace tf' tf2" "but_printed s' s2'"
    using session_lockstep [OF assms(1) retrace_but_trace] by blast
  moreover have "trace_level tf2 = level" "tracefh tf2 = fh"
    using session_steady [OF run] by (simp_all add: steady_def same_session_def retrace_def)
  ultimately show ?thesis unfolding if_not_P [OF False] using but_trace_retrace [of tf' tf2] by (auto simp: but_printed_def)
qed

theorem tracing_transparent_witness:
  "\<exists>tf' s s'. session script_os (retrace 1 (Some 2) script_handle) s script_calls tf' s' \<and> pending tf' = 1
    \<and> trace_level tf' = 1 \<and> tf_send_success script_os (retrace 1 None script_handle) s = None"
proof -
  obtain tf1 s1 where run: "session script_os script_handle script_transfer script_calls tf1 s1" and p: "pending tf1 = 1"
    using script_session by blast
  from tracing_transparent [OF run refl, of 1 "Some 2"] obtain s' where
    "session script_os (retrace 1 (Some 2) script_handle) script_transfer script_calls (retrace 1 (Some 2) tf1) s'" by auto
  moreover have "tf_send_success script_os (retrace 1 None script_handle) script_transfer = None"
    using tracing_transparent [OF run refl, of 1 None] by simp
  ultimately show ?thesis using p
    by (intro exI [of _ "retrace 1 (Some 2) tf1"] exI [of _ script_transfer] exI [of _ s']) (simp add: retrace_def)
qed

text \<open>The same holds of the boot loader protocol.\<close>

theorem fw_tracing_transparent:
  assumes "fw_run os tf d s calls tf' d' s'" and "traceable (retrace level fh tf)" and "world s2 = world s"
  shows "\<exists>s2'. fw_run os (retrace level fh tf) d s2 calls (retrace level fh tf') d' s2' \<and> world s2' = world s'"
proof -
  have "but_printed s s2" using assms(3) by (simp add: but_printed_def)
  from fw_run_lockstep [OF assms(1) retrace_but_trace [OF assms(2)] this] obtain tf2 s2' where
    run: "fw_run os (retrace level fh tf) d s2 calls tf2 d' s2'" and "but_trace tf' tf2" "but_printed s' s2'" by blast
  moreover have "trace_level tf2 = level" "tracefh tf2 = fh"
  proof -
    have "tf2 = (retrace level fh tf)\<lparr>error := error tf2\<rparr>" using fw_run_steady [OF run] by (simp add: quiet_def)
    then show "trace_level tf2 = level" "tracefh tf2 = fh" by (metis retrace_def tf_handle.select_convs(2,3) tf_handle.surjective tf_handle.update_convs(2,3,5))+
  qed
  ultimately show ?thesis using but_trace_retrace [of tf' tf2] by (auto simp: but_printed_def)
qed

theorem fw_tracing_transparent_witness:
  "\<exists>s'. fw_run script_os (retrace 3 (Some 2) script_handle) \<lparr>fw_seq = 0, fw_len = 0, fw_offset = 0\<rparr> (script_sys [])
      [(Fw_reboot, 0)] (retrace 3 (Some 2) (script_handle\<lparr>error := 0\<rparr>)) \<lparr>fw_seq = 0, fw_len = 0, fw_offset = 0\<rparr> s'"
proof -
  obtain s1 where run: "fw_run script_os script_handle \<lparr>fw_seq = 0, fw_len = 0, fw_offset = 0\<rparr> (script_sys [])
      [(Fw_reboot, 0)] (script_handle\<lparr>error := 0\<rparr>) \<lparr>fw_seq = 0, fw_len = 0, fw_offset = 0\<rparr> s1"
    using script_reboot_run by blast
  have "traceable (retrace 3 (Some 2) script_handle)" by (simp add: retrace_def traceable_def)
  from fw_tracing_transparent [OF run this refl] show ?thesis by blast
qed

end
