(* ===== verification/Session_Progress.thy ===== *)
theory Session_Progress
  imports Tf_Trace
begin

text \<open>
  When the calls of \<^verbatim>\<open>tf_io.h\<close> are defined. In the model an access outside an object makes the result
  None; here every operation is shown to give a result as long as the device frames its replies,
  the arguments fit into a packet and the handle comes from \<^verbatim>\<open>topfield_open\<close>. The argument is a
  calculus of total correctness on the option type, \<open>runs r Q\<close>: the run \<open>r\<close> gives a result, and
  that satisfies \<open>Q\<close>. There is one rule for each construct and one for each operation, and an
  operation is verified by applying the rules to its body.
\<close>

section \<open>Runs that give a result\<close>

definition runs :: "'a option \<Rightarrow> ('a \<Rightarrow> bool) \<Rightarrow> bool" where
  "runs r Q \<longleftrightarrow> (\<exists>x. r = Some x \<and> Q x)"

named_theorems runs_rules

lemma runs_Some [runs_rules]: "Q x \<Longrightarrow> runs (Some x) Q"
  by (simp add: runs_def)

lemma runs_bind [runs_rules]: "runs r P \<Longrightarrow> (\<And>x. P x \<Longrightarrow> runs (f x) Q) \<Longrightarrow> runs (Option.bind r f) Q"
  by (auto simp: runs_def)

lemma runs_if [runs_rules]: "(b \<Longrightarrow> runs r Q) \<Longrightarrow> (\<not> b \<Longrightarrow> runs r' Q) \<Longrightarrow> runs (if b then r else r') Q"
  by simp

lemma runs_prod [runs_rules]: "(\<And>x y. p = (x, y) \<Longrightarrow> runs (f x y) Q) \<Longrightarrow> runs (case p of (x, y) \<Rightarrow> f x y) Q"
  by (cases p) simp

lemma runs_mono: "runs r P \<Longrightarrow> (\<And>x. P x \<Longrightarrow> Q x) \<Longrightarrow> runs r Q"
  by (auto simp: runs_def)

section \<open>Replies that can be read\<close>

text \<open>The packet that \<^verbatim>\<open>tf_get_response\<close> leaves is at least a header, and the names in it that the client
  copies with \<^verbatim>\<open>strcpy\<close> end inside their fields.\<close>

definition readable :: "mem \<Rightarrow> bool" where
  "readable m \<longleftrightarrow> 8 \<le> uint (reply_length m)
     \<and> (reply_cmd m = TF_MSG_HDD_DIRENT \<longrightarrow>
          (\<forall>j. int j < (uint (reply_length m) - 8) div 114 \<longrightarrow> (\<exists>i < NAME_SIZE. m (8 + 114 * j + 14 + i) = 0)))
     \<and> (reply_cmd m = TF_MSG_HDD_FILE_START \<longrightarrow> (\<exists>i < NAME_SIZE. m (8 + 14 + i) = 0))"

text \<open>A device whose next complete reply, if there is one, can be read, and one of which this holds
  whatever the calls do with it from now on.\<close>

definition frames_reply :: "'w os \<Rightarrow> int option \<Rightarrow> 'w \<Rightarrow> bool" where
  "frames_reply os d w \<longleftrightarrow> (\<forall>fd t reply s n m s1. d = Some fd \<longrightarrow> world s = w \<longrightarrow>
     usb_bulk_read os fd 0x82 reply sizeof_packet t s = (n, m, s1) \<longrightarrow> 8 \<le> n \<longrightarrow> int (unat (get_u16_raw m 0)) \<le> n \<longrightarrow>
     readable (let len = unat (get_u16_raw m 0) in host_reply (byte_swap m (len + len mod 2)) len))"

definition polite :: "'w os \<Rightarrow> int option \<Rightarrow> 'w \<Rightarrow> bool" where
  "polite os d w \<longleftrightarrow> (\<forall>w'. device_io os d w w' \<longrightarrow> frames_reply os d w')"

definition ready :: "'w os \<Rightarrow> tf_handle \<Rightarrow> 'w sys \<Rightarrow> bool" where
  "ready os tf s \<longleftrightarrow> polite os (dev tf) (world s) \<and> traceable tf \<and> (dev tf \<noteq> None \<longrightarrow> buf tf \<noteq> None)"

lemma polite_step: "polite os d w \<Longrightarrow> device_io os d w w' \<Longrightarrow> polite os d w'"
  unfolding polite_def by (blast intro: device_io_trans)

lemma ready_steady: "steady os tf s tf' s' \<Longrightarrow> ready os tf s \<Longrightarrow> ready os tf' s'"
  by (auto simp: ready_def steady_def same_session_def traceable_def intro: polite_step)

lemma ready_quiet: "quiet os tf s tf' s' \<Longrightarrow> ready os tf s \<Longrightarrow> ready os tf' s'"
  using quiet_steady ready_steady by blast

lemma ready_updates [simp]:
  "ready os (tf\<lparr>error := e\<rparr>) s \<longleftrightarrow> ready os tf s" "ready os (tf\<lparr>pending := p\<rparr>) s \<longleftrightarrow> ready os tf s"
  "ready os (tf\<lparr>timeout := t\<rparr>) s \<longleftrightarrow> ready os tf s"
  by (simp_all add: ready_def traceable_def)

lemma ready_buf: "ready os tf s \<Longrightarrow> ready os (tf\<lparr>buf := Some m\<rparr>) s"
  by (simp add: ready_def traceable_def)

lemma ready_fprint [simp]: "ready os tf (fprint fh text s) \<longleftrightarrow> ready os tf s"
  by (simp add: ready_def fprint_def)

lemma ready_sleep: "ready os tf s \<Longrightarrow> ready os tf (sleep os n s)"
  by (auto simp: ready_def sleep_def intro: polite_step device_io.intros)

section \<open>The rules of the link\<close>

lemma ready_send: "tf_send os tf req s = (ret, tf', s') \<Longrightarrow> ready os tf s \<Longrightarrow> ready os tf' s'"
  using ready_quiet [OF send_quiet [OF _ quiet_refl]] by blast

lemma runs_get_response [runs_rules]:
  assumes ready: "ready os tf s"
  shows "runs (tf_get_response os tf reply s) (\<lambda>(ret, m, tf', s'). ready os tf' s' \<and> (dev tf = None \<longrightarrow> ret \<noteq> 0) \<and> (ret = 0 \<longrightarrow> readable m))"
proof (cases "dev tf")
  case None
  with ready show ?thesis by (simp add: tf_get_response_def runs_def)
next
  case (Some fd)
  obtain n m s1 where read: "usb_bulk_read os fd 0x82 reply sizeof_packet (timeout tf) s = (n, m, s1)"
    by (metis prod_cases3)
  let ?len = "unat (get_u16_raw m 0)"
  have "readable (host_reply (byte_swap m (?len + ?len mod 2)) ?len)" if "8 \<le> n" "int ?len \<le> n"
    using ready that Some read io_refl [of os "Some fd" "world s"] unfolding ready_def polite_def frames_reply_def Let_def by metis
  moreover from this have "8 \<le> ?len" if "8 \<le> n" "int ?len \<le> n"
    using that by (simp add: readable_def host_reply_fields) (unfold unat_eq_nat_uint, linarith)
  ultimately obtain ret m' tf' s' where res: "tf_get_response os tf reply s = Some (ret, m', tf', s')"
    and "ret = 0 \<longrightarrow> readable m'"
    using get_response_eq [OF Some read] by (force simp: Let_def split: if_splits)
  with response_quiet [OF res quiet_refl] ready Some show ?thesis by (simp add: runs_def ready_quiet)
qed

lemma runs_send_success [runs_rules]:
  assumes "ready os tf s"
  shows "runs (tf_send_success os tf s) (\<lambda>(ret, tf', s'). ready os tf' s')"
proof -
  have "tf_send_success os tf s \<noteq> None"
    using assms by (auto simp: tf_send_success_def ready_def traceable_def simp del: not_None_eq split: option.split)
  with assms show ?thesis by (cases "tf_send_success os tf s") (auto simp: runs_def intro: ready_quiet command_quiet(1) [OF _ quiet_refl])
qed

section \<open>The rules of the requests\<close>

lemma runs_req_done [runs_rules]:
  assumes "building m c p" and "ready os tf s"
  shows "runs (tf_req_done os tf m s) (\<lambda>(req, s'). ready os tf s')"
  using req_done_wire [OF assms(1), of os tf s] assms(2) by (auto simp: runs_def ready_def)

lemma runs_put8: "building m c p \<Longrightarrow> 9 + length p \<le> 65535 \<Longrightarrow> runs (tf_req_put8 m v) (\<lambda>m'. building m' c (p @ [v]))"
  using put8.put_building [of m c p v] by (simp add: runs_def)

lemma runs_put32: "building m c p \<Longrightarrow> 12 + length p \<le> 65535 \<Longrightarrow> runs (tf_req_put32 m v) (\<lambda>m'. building m' c (p @ be32 v))"
  using put32.put_building [of m c p v] by (simp add: runs_def)

lemma runs_put64: "building m c p \<Longrightarrow> 16 + length p \<le> 65535 \<Longrightarrow> runs (tf_req_put64 m v) (\<lambda>m'. building m' c (p @ be64 v))"
  using put64.put_building [of m c p v] by (simp add: runs_def)

lemma runs_putdata: "building m c p \<Longrightarrow> 8 + length p + length bs \<le> 65535 \<Longrightarrow> runs (tf_req_putdata m bs) (\<lambda>m'. building m' c (p @ bs))"
  using putdata.put_building [of m c p bs] by (simp add: runs_def)

lemma runs_putfilename: "building m c p \<Longrightarrow> 8 + length p + length (enc_filename (length p) str al) \<le> 65535 \<Longrightarrow>
    runs (tf_req_putfilename m str al) (\<lambda>m'. building m' c (p @ enc_filename (length p) str al))"
  using putfilename_building [of m c p str al] by (simp add: runs_def)

lemmas runs_request [runs_rules] = runs_put8 runs_put32 runs_put64 runs_putdata runs_putfilename building_init

section \<open>The rules of the operations\<close>

lemma runs_cmd [runs_rules]:
  "ready os tf s \<Longrightarrow> runs (tf_cmd os tf req s) (\<lambda>(ret, tf', s'). ready os tf' s')"
  unfolding tf_cmd_def Let_def by (assumption | rule runs_rules | clarsimp dest!: ready_send)+

lemma runs_command [runs_rules]:
  assumes "ready os tf s"
  shows "runs (tf_cmd_cancel os tf s) (\<lambda>(ret, tf', s'). ready os tf' s')"
    "runs (tf_cmd_ready os tf s) (\<lambda>(ret, tf', s'). ready os tf' s')"
    "runs (tf_cmd_reset os tf s) (\<lambda>(ret, tf', s'). ready os tf' s')"
    "runs (tf_cmd_turbo os tf on s) (\<lambda>(ret, tf', s'). ready os tf' s')"
    "runs (tf_send_fail os tf reason s) (\<lambda>(ret, tf', s'). ready os tf' s')"
  unfolding tf_cmd_cancel_def tf_cmd_ready_def tf_cmd_reset_def tf_cmd_turbo_def tf_send_fail_def Let_def
  using assms by - (assumption | rule runs_rules | clarsimp dest!: ready_send)+

lemma runs_size [runs_rules]:
  "ready os tf s \<Longrightarrow> runs (tf_cmd_size os tf result s) (\<lambda>(ret, result', tf', s'). ready os tf' s')"
  unfolding tf_cmd_size_def Let_def by (assumption | rule runs_rules | clarsimp dest!: ready_send)+

lemma runs_delete [runs_rules]:
  "ready os tf s \<Longrightarrow> 8 + length (enc_filename 0 path False) \<le> 65535 \<Longrightarrow>
    runs (tf_cmd_delete os tf path s) (\<lambda>(ret, tf', s'). ready os tf' s')"
  unfolding tf_cmd_delete_def Let_def by (assumption | rule runs_rules | clarsimp dest!: ready_send)+

lemma runs_mkdir [runs_rules]:
  "ready os tf s \<Longrightarrow> 8 + length (enc_filename 0 path True) \<le> 65535 \<Longrightarrow>
    runs (tf_cmd_mkdir os tf path s) (\<lambda>(ret, tf', s'). ready os tf' s')"
  unfolding tf_cmd_mkdir_def Let_def by (assumption | rule runs_rules | clarsimp dest!: ready_send)+

lemma runs_init [runs_rules]:
  "ready os tf s \<Longrightarrow> runs (tf_init os tf s) (\<lambda>(ret, tf', s'). ready os tf' s')"
  unfolding tf_init_def Let_def by (assumption | rule runs_rules | clarsimp dest!: ready_send)+

lemma runs_rename [runs_rules]:
  "ready os tf s \<Longrightarrow> 8 + length (enc_rename (src, dest)) \<le> 65535 \<Longrightarrow>
    runs (tf_cmd_rename os tf src dest s) (\<lambda>(ret, tf', s'). ready os tf' s')"
  unfolding tf_cmd_rename_def Let_def enc_rename_def fst_conv snd_conv
  by (assumption | rule runs_rules | clarsimp simp: enc_filename_even [OF even_enc_filename] dest!: ready_send)+

text \<open>The directory operations: the array of the caller has the length that the header asks for.\<close>

lemma runs_unpack_dirent [runs_rules]:
  "\<exists>i < NAME_SIZE. m (a + 14 + i) = 0 \<Longrightarrow> runs (unpack_dirent os m a) (\<lambda>d. True)"
  using unpack_dirent_None [of os m a] by (auto simp: runs_def)

lemma runs_unpack_entries [runs_rules]:
  assumes "readable m" and "reply_cmd m = TF_MSG_HDD_DIRENT" and "length (entry r) = MAX_DIR_ENTRIES"
  shows "runs (unpack_entries os m 0 (r\<lparr>count := dirent_count (reply_length m)\<rparr>)) (\<lambda>r. True)"
proof -
  have "8 \<le> uint (reply_length m)" using assms(1) by (simp add: readable_def)
  moreover have "unpack_dirent os m (8 + 114 * j) \<noteq> None" if "int j < (uint (reply_length m) - 8) div 114" for j
    using assms(1,2) that unfolding unpack_dirent_None readable_def by blast
  ultimately have "unpack_entries os m 0 (r\<lparr>count := dirent_count (reply_length m)\<rparr>) \<noteq> None"
    using unpack_entries_None [of "r\<lparr>count := dirent_count (reply_length m)\<rparr>" os m 0] assms(3)
      dirent_count_le [of "reply_length m"] by auto
  then show ?thesis by (auto simp: runs_def)
qed

lemma runs_dirents [runs_rules]:
  "ready os tf s \<Longrightarrow> length (entry r) = MAX_DIR_ENTRIES \<Longrightarrow>
    runs (get_dirents os tf r s) (\<lambda>(ret, r', tf', s'). ready os tf' s')"
  unfolding get_dirents_def Let_def by (assumption | rule runs_rules | clarsimp dest!: ready_send)+

lemma runs_dir [runs_rules]:
  assumes "ready os tf s" and "length (entry r) = MAX_DIR_ENTRIES"
  shows "8 + length (enc_filename 0 path False) \<le> 65535 \<Longrightarrow>
      runs (tf_cmd_dir_first os tf path r s) (\<lambda>(ret, r', tf', s'). ready os tf' s')"
    "runs (tf_cmd_dir_next os tf r s) (\<lambda>(ret, r', tf', s'). ready os tf' s')"
    "runs (tf_cmd_dir_cancel os tf s) (\<lambda>(ret, tf', s'). ready os tf' s')"
  unfolding tf_cmd_dir_first_def tf_cmd_dir_next_def tf_cmd_dir_cancel_def Let_def
  using assms by - (assumption | rule runs_rules | clarsimp dest!: ready_send)+

text \<open>The transfers.\<close>

lemma runs_get [runs_rules]:
  assumes "ready os tf s" and "8 + length (enc_file_send DIR_GET path offset) \<le> 65535"
  shows "runs (tf_cmd_get os tf path offset d s) (\<lambda>(ret, d', tf', s'). ready os tf' s')"
  using assms unfolding tf_cmd_get_def Let_def enc_file_send_def
  by - (assumption | rule runs_rules | clarsimp simp: readable_def dest!: ready_send)+

lemma runs_put_typefile [runs_rules]: "os_localtime os stamp \<noteq> None \<Longrightarrow> runs (put_typefile os junk path sz stamp) (\<lambda>m. True)"
  using put_typefile_record [of os stamp _ junk path sz] by (auto simp: runs_def)

lemma runs_put [runs_rules]:
  assumes "ready os tf s" and "8 + length (enc_file_send DIR_PUT path offset) \<le> 65535" and "os_localtime os stamp \<noteq> None"
  shows "runs (tf_cmd_put os tf path sz stamp offset s) (\<lambda>(ret, tf', s'). ready os tf' s')"
  using assms unfolding tf_cmd_put_def Let_def enc_file_send_def
  by - (assumption | rule runs_rules | clarsimp dest!: ready_send)+

lemma runs_put_data [runs_rules]:
  "ready os tf s \<Longrightarrow> 16 + length data \<le> 65535 \<Longrightarrow>
    runs (tf_cmd_put_data os tf offset data s) (\<lambda>(ret, tf', s'). ready os tf' s')"
  unfolding tf_cmd_put_data_def Let_def by (assumption | rule runs_rules | clarsimp dest!: ready_send)+

lemma runs_put_end [runs_rules]:
  assumes "ready os tf s"
  shows "runs (tf_cmd_put_done os tf s) (\<lambda>(ret, tf', s'). ready os tf' s')"
    "runs (tf_cmd_put_cancel os tf s) (\<lambda>(ret, tf', s'). ready os tf' s')"
  unfolding tf_cmd_put_done_def tf_cmd_put_cancel_def Let_def
  using assms by - (assumption | rule runs_rules ready_sleep | clarsimp dest!: ready_send)+

lemma runs_buf_response [runs_rules]:
  assumes "ready os tf s"
  shows "runs (buf_response os tf s) (\<lambda>(ret, m, tf', s'). ready os tf' s')"
proof (cases "buf tf")
  case None
  with assms have "dev tf = None" by (simp add: ready_def)
  with None runs_get_response [OF assms, of "\<lambda>i. 0"] show ?thesis
    by (auto simp: buf_response_def elim!: runs_mono)
next
  case (Some m)
  show ?thesis unfolding buf_response_def Some option.case
    using assms by - (assumption | rule runs_rules ready_buf | clarsimp)+
qed

lemma runs_handle_next [runs_rules]:
  "ready os tf s \<Longrightarrow> runs (handle_next os reply b tf s) (\<lambda>(ret, b', tf', s'). ready os tf' s')"
  unfolding handle_next_def Let_def by (assumption | rule runs_rules | clarsimp)+

lemma runs_get_next [runs_rules]:
  "ready os tf s \<Longrightarrow> runs (tf_cmd_get_next os tf b s) (\<lambda>(ret, b', tf', s'). ready os tf' s')"
  unfolding tf_cmd_get_next_def Let_def by (assumption | rule runs_rules | clarsimp)+

lemma runs_get_cancel_loop [runs_rules]:
  "ready os tf s \<Longrightarrow> runs (get_cancel_loop os n ret tf s) (\<lambda>(ret, tf', s'). ready os tf' s')"
proof (induction n arbitrary: ret tf s)
  case (Suc n)
  then show ?case unfolding get_cancel_loop.simps Let_def
    by - (assumption | rule runs_rules ready_sleep Suc.IH | clarsimp)+
qed (simp add: runs_def)

lemma runs_get_cancel [runs_rules]:
  assumes "ready os tf s"
  shows "runs (tf_cmd_get_cancel os tf s) (\<lambda>(ret, tf', s'). ready os tf' s')"
proof -
  have "runs (do {(_, _, tf, s) \<leftarrow> tf_get_response os (tf\<lparr>pending := 0\<rparr>) (os_junk os ''reply'' (world s)) s; Some (tf, s)})
      (\<lambda>(tf', s'). ready os tf' s')"
    using assms by - (assumption | rule runs_rules | clarsimp)+
  with assms have "runs (if pending tf \<noteq> 0 then do {
        (_, _, tf, s) \<leftarrow> tf_get_response os (tf\<lparr>pending := 0\<rparr>) (os_junk os ''reply'' (world s)) s;
        Some (tf, s)
      } else Some (tf, s)) (\<lambda>(tf', s'). ready os tf' s')"
    by (simp add: runs_Some)
  then show ?thesis unfolding tf_cmd_get_cancel_def
    by (rule runs_bind) (clarsimp simp: runs_get_cancel_loop)
qed

section \<open>Every call\<close>

text \<open>The arguments with which a call is made as the header asks for: requests that fit into a packet and
  times that \<^verbatim>\<open>localtime\<close> knows. \<^verbatim>\<open>tf_stat\<close> of a path with a parent goes on for as long as the
  device lists pages, so it is left to \<open>Tf_Dir\<close>.\<close>

fun fits :: "'w os \<Rightarrow> tf_call \<Rightarrow> bool" where
  "fits os (Call_delete path) \<longleftrightarrow> 8 + length (enc_filename 0 path False) \<le> 65535"
| "fits os (Call_mkdir path) \<longleftrightarrow> 8 + length (enc_filename 0 path True) \<le> 65535"
| "fits os (Call_rename src dest) \<longleftrightarrow> 8 + length (enc_rename (src, dest)) \<le> 65535"
| "fits os (Call_dir_first path) \<longleftrightarrow> 8 + length (enc_filename 0 path False) \<le> 65535"
| "fits os (Call_get path offset) \<longleftrightarrow> 8 + length (enc_file_send DIR_GET path offset) \<le> 65535"
| "fits os (Call_put path sz stamp offset) \<longleftrightarrow>
     8 + length (enc_file_send DIR_PUT path offset) \<le> 65535 \<and> os_localtime os stamp \<noteq> None"
| "fits os (Call_put_data offset data) \<longleftrightarrow> 16 + length data \<le> 65535"
| "fits os (Call_stat path) \<longleftrightarrow> path = ''/'' \<or> last_slash path = None"
| "fits os c \<longleftrightarrow> True"

lemma runs_stat:
  "ready os tf s \<Longrightarrow> path = ''/'' \<or> last_slash path = None \<Longrightarrow>
    runs (tf_stat os tf path r d s) (\<lambda>(ret, d', tf', s'). ready os tf' s')"
  by (auto simp: tf_stat_def runs_def)

lemma runs_triple: "runs r Q \<Longrightarrow> r = Some (fst (the r), fst (snd (the r)), snd (snd (the r)))"
  by (auto simp: runs_def)

lemma runs_quadruple: "runs r Q \<Longrightarrow> r = Some (fst (the r), fst (snd (the r)), fst (snd (snd (the r))), snd (snd (snd (the r))))"
  by (auto simp: runs_def)

text \<open>A call can be made, with arrays as long as the header asks for.\<close>

lemma call_runs:
  assumes ready: "ready os tf s" and fits: "fits os c"
  shows "\<exists>ret tf' s'. call_step os tf s c ret tf' s'"
proof -
  define r :: tf_dir_entries where "r = \<lparr>count = 0, entry = replicate MAX_DIR_ENTRIES undefined\<rparr>"
  have "length (entry r) = MAX_DIR_ENTRIES" by (simp add: r_def)
  note dir = runs_dir [OF ready this]
  note triples = runs_command [OF ready] runs_init [OF ready] runs_put_end [OF ready] runs_get_cancel [OF ready]
    runs_send_success [OF ready] dir(3) runs_delete [OF ready] runs_mkdir [OF ready] runs_rename [OF ready]
    runs_put [OF ready] runs_put_data [OF ready]
  note quadruples = runs_size [OF ready] dir(1,2) runs_get [OF ready] runs_get_next [OF ready] runs_stat [OF ready]
  show ?thesis
    using fits by (cases c; simp only: fits.simps)
      ((rule exI)+, rule call_step.intros, rule triples [THEN runs_triple] quadruples [THEN runs_quadruple], ((simp; fail)+)?)+
qed

text \<open>C11. No call is undefined: on a handle with its buffer and, if it traces, a stream to trace to,
  with a device whose complete replies have a header and names that end inside their fields, every sequence of calls whose arguments fit runs
  to its end and each of its calls gives a result, whatever the device answers and wherever it
  stops answering.\<close>

theorem session_defined:
  assumes "polite os (dev tf) (world s)" and "traceable tf" and "dev tf \<noteq> None \<longrightarrow> buf tf \<noteq> None"
    and "list_all (fits os) cs"
  shows "\<exists>rets tf' s'. length rets = length cs \<and> session os tf s (zip cs rets) tf' s'"
  using assms(4)
proof (induction cs rule: rev_induct)
  case Nil
  then show ?case using session_start by force
next
  case (snoc c cs)
  then obtain rets tf1 s1 where len: "length rets = length cs" and run: "session os tf s (zip cs rets) tf1 s1" by auto
  have "ready os tf1 s1"
    using ready_steady [OF session_steady [OF run]] assms(1-3) by (simp add: ready_def)
  with snoc.prems obtain ret tf2 s2 where "call_step os tf1 s1 c ret tf2 s2" using call_runs by fastforce
  with run have "session os tf s (zip (cs @ [c]) (rets @ [ret])) tf2 s2" by (simp add: len session_call)
  with len show ?case by (metis length_append_singleton)
qed

text \<open>A device that answers everything with a success.\<close>

definition obliging_os :: "script os" where
  "obliging_os = script_os\<lparr>os_bulk_in := (\<lambda>fd ep n t w. (Some (take n (wire TF_MSG_SUCCESS [])), w))\<rparr>"

lemma obliging_reply:
  "usb_bulk_read obliging_os fd 0x82 reply sizeof_packet t s = (8, store (memset reply 0 sizeof_packet) 0 (wire TF_MSG_SUCCESS []), s)"
  by (simp add: usb_bulk_read_def bulk_read_loop.simps ioctl_bulk_in_def obliging_os_def length_wire)

lemma success_bytes: "wire TF_MSG_SUCCESS [] = [0x08, 0x00, 0x81, 0xc1, 0x00, 0x00, 0x02, 0x00]"
  by (simp flip: success_packet_wire add: success_packet_def bytes_at_def upt_rec)

lemma obliging_polite: "polite obliging_os d w"
proof -
  have "get_u16_raw (store m 0 (wire TF_MSG_SUCCESS [])) 0 = 8" for m
    by (simp add: get_u16_raw_def store_def success_bytes)
  moreover have "get_u32 (byte_swap (store m 0 (wire TF_MSG_SUCCESS [])) 8) 4 = TF_MSG_SUCCESS" for m
    by (simp add: get_u32_def byte_swap_def swab_def store_def success_bytes)
  ultimately have "frames_reply obliging_os d w'" for w'
    unfolding frames_reply_def by (clarsimp simp: obliging_reply readable_def host_reply_fields Let_def)
  then show ?thesis by (simp add: polite_def)
qed

abbreviation (input) obliging_calls :: "tf_call list" where
  "obliging_calls \<equiv> [Call_init, Call_dir_first ''/'', Call_rename ''/A.rec'' ''/B.rec'', Call_get ''/B.rec'' 0,
     Call_get_next, Call_get_cancel, Call_put ''/C.rec'' 3 0 0, Call_put_data 0 [1, 2, 3], Call_put_done]"

theorem session_defined_witness:
  "\<exists>rets tf' s'. length rets = length obliging_calls
    \<and> session obliging_os script_handle (script_sys []) (zip obliging_calls rets) tf' s'"
proof (rule session_defined [OF obliging_polite])
  have "os_localtime obliging_os 0 \<noteq> None" by (simp add: obliging_os_def script_os_def)
  then show "list_all (fits obliging_os) obliging_calls"
    by (simp add: enc_rename_def enc_file_send_def length_enc_filename)
qed (simp_all add: traceable_def)

end
