(* ===== verification/Spec2Isabelle.thy ===== *)
theory Spec2Isabelle
  imports Tf_Clients Session_Types Mjd_Double Tf_Tests Makename_Heap Tf_Sort Usbutil Session_Progress
begin

text \<open>
  \<^bold>\<open>libtopfield\<close>, the library that talks to Topfield PVRs over USB.

  \<^bold>\<open>The program.\<close> A client opens a connection with \<^verbatim>\<open>topfield_open\<close> (\<^verbatim>\<open>tf_open.c\<close>), which takes a lock
  file, finds the device (\<^verbatim>\<open>usb_io_util.c\<close>, or \<^verbatim>\<open>usbutil.c\<close> on libusb) and fills in a \<^verbatim>\<open>tf_handle\<close>. The
  commands of \<^verbatim>\<open>tf_io.c\<close> build a request packet, send it through \<^verbatim>\<open>tf_send\<close> and \<^verbatim>\<open>usb_bulk_write\<close>
  (\<^verbatim>\<open>usb_io.c\<close>), and read replies with \<^verbatim>\<open>tf_get_response\<close> and \<^verbatim>\<open>usb_bulk_read\<close>, checking the CRC
  (\<^verbatim>\<open>crc16.c\<close>) of the byte swapped packet (\<^verbatim>\<open>tf_bytes.c\<close>). Dates are modified Julian days
  (\<^verbatim>\<open>mjd.c\<close>); \<^verbatim>\<open>tf_util.c\<close> looks up, joins and sorts names. \<^verbatim>\<open>tf_fwio.c\<close> is a second protocol, that of
  the boot loader; \<^verbatim>\<open>daemon.c\<close> keeps a daemon from running twice.

  \<^bold>\<open>State and effects.\<close> The handle is the record \<open>tf_handle\<close> (theory \<open>Tf_Handle\<close>, every field of the
  structure). Buffers that the code reads and writes through byte pointers are raw memory, a
  function from offsets to bytes, with their size beside them. An operation takes the calls of its
  surroundings (\<open>os\<close> for the device, clock and time zone in \<open>Tf_Os\<close>, \<open>posix\<close> for files, locks and
  signals in \<open>Posix\<close>, \<open>libusb\<close> in \<open>Usbutil\<close>: records of functions over an arbitrary world), the
  handle and the system, that is the world and the text printed so far, and returns its C result
  with the new ones. \<open>None\<close> is undefined behaviour of the C code: an access outside a buffer or
  through a null pointer. Automatic variables start with indeterminate bytes (\<open>os_junk\<close>).

  \<^bold>\<open>The theories\<close>, in the order of their imports:
  \<^item> \<open>Tf_Prelude\<close>: words, memory, slices and stores, big endian and host order encodings.
  \<^item> \<open>Tf_Bytes\<close>: the accessors and both builds of \<^verbatim>\<open>byte_swap\<close>; the locale \<open>field_codec\<close> states what a
    field of a packet promises, with an interpretation for each width.
  \<^item> \<open>Crc16\<close>: the table driven checksum equals the bitwise one and detects any change of one byte or
    two adjacent ones.
  \<^item> \<open>Tf_Os\<close>, \<open>Script_Device\<close>: the surroundings, and a scripted device for the witnesses.
  \<^item> \<open>Usb_Io\<close>: the transfer loops; the locale \<open>usb_transport\<close> is the contract the packet layers use.
  \<^item> \<open>Tf_Handle\<close>: handle, error codes, formatted numbers.
  \<^item> \<open>Tf_Packet\<close>: building a request; \<open>frame\<close> and \<open>wire\<close> specify a packet in memory and on the bus; the
    locale \<open>request_field\<close> is interpreted for each function that adds a field; swapping, summing and
    tracing a packet are undefined when they leave its 65536 bytes.
  \<^item> \<open>Tf_Link\<close>: \<^verbatim>\<open>tf_send\<close>, \<^verbatim>\<open>tf_get_response\<close>, \<^verbatim>\<open>tf_cmd\<close>, \<^verbatim>\<open>tf_send_success\<close>, \<^verbatim>\<open>tf_send_fail\<close>.
  \<^item> \<open>Tf_Command\<close>: the one-packet commands and \<^verbatim>\<open>tf_init\<close>; the locales \<open>session_op\<close>, \<open>error_op\<close> and
    \<open>command\<close> hold what all of them promise.
  \<^item> \<open>Mjd\<close>, \<open>Mjd_Double\<close>: day numbers and calendar dates; the formulas in \<^verbatim>\<open>double\<close> equal the exact ones.
  \<^item> \<open>Tf_Dir\<close>, \<open>Tf_Transfer\<close>: listings, what type they have whatever the device sends, and \<^verbatim>\<open>tf_stat\<close>;
    storing, fetching and cancelling files.
  \<^item> \<open>Tf_Makename\<close>, \<open>Tf_Sort\<close>: paths and the order of listings (\<^verbatim>\<open>tf_util.c\<close>); the locale \<open>c_comparator\<close>
    is what \<^verbatim>\<open>qsort\<close> asks of a comparison.
  \<^item> \<open>Makename_Heap\<close>: the block that \<^verbatim>\<open>tf_makename\<close> keeps its result in, and who may read it.
  \<^item> \<open>Tf_Fwio\<close>: the boot loader protocol and a whole upload session.
  \<^item> \<open>Posix\<close>: system calls with their documented effect on descriptors, waiting and signals, number
    parsing (locale \<open>pid_record\<close>), and a scripted kernel for the witnesses.
  \<^item> \<open>Daemon\<close>, \<open>Usb_Open\<close>, \<open>Usbutil\<close>, \<open>Tf_Open\<close>: locking, both ways to find the device, opening and
    closing the connection.
  \<^item> \<open>Tf_Session\<close>: all calls on a handle as one step relation \<open>call_step\<close>, and what holds after every
    sequence of them; \<open>device_io\<close> collects the system calls they can make.
  \<^item> \<open>Fw_Session\<close>: the same for the calls of the boot loader protocol, \<open>fw_step\<close> and \<open>fw_run\<close>.
  \<^item> \<open>Tf_Trace\<close>: two runs that differ only in tracing, related operation by operation; the relation is
    carried through the definitions by parametricity.
  \<^item> \<open>Session_Progress\<close>: a calculus of total correctness for runs in the option type, and with it the
    conditions under which no call is undefined.
  \<^item> \<open>Session_Types\<close>: results and handle fields, unbounded here, stay values of \<^verbatim>\<open>int\<close> as long as twice
    the timeout is one.
  \<^item> \<open>Tf_Clients\<close>: complete dialogues, listing a directory, storing a file and fetching it again; the
    documented size limits beside those of the code.
  \<^item> \<open>Tf_Tests\<close>: the test programs of the repository, run on the model.

  \<^bold>\<open>What is shown.\<close> For the link: what arrives is what was sent, corruption is detected, every reply
  has its result, and exactly which replies are undefined. For commands, listings and transfers:
  the packets exchanged and the results for every reply, complete sequences of pages and blocks,
  cancellation bounded, a file that is stored comes back unchanged but for its size field, and
  which block sizes stay inside the buffers and which bytes of the stack reach the device. For whole sessions, in any order of calls: the settings and the device are
  kept, a client that follows the documented protocol never starts a transfer with an
  acknowledgement pending, closing gives back every descriptor, every integer stays in the
  range of its type, tracing changes nothing but what is printed (a positive trace level needs a
  stream), and no call is undefined as long as the device frames its replies (\<^verbatim>\<open>tf_stat\<close>, which may list forever, is treated in \<open>Tf_Dir\<close>).
  For the boot loader: complete uploads with blocks shorter than the largest, chunked sending, the
  results of every sequence of calls, and the two weaknesses of the reply check and of the largest
  block. For opening and locking: no descriptor, lock or library handle is left behind on any error
  path, waiting and signals are bounded and the signal goes to the number in the lock file, the
  process number written is the one read, each build opens the device number \<open>index\<close> among the
  matching ones. For the helpers: equivalence of the path loops, the sorts (by time for stamps within
  68 years of each other), the CRC and the date arithmetic with their specifications.

  \<^bold>\<open>Hypotheses\<close> are documented behaviour of the surroundings: \<open>out_pipe\<close> and \<open>in_pipe\<close> (bulk
  endpoints), \<open>receives\<close>, \<open>takes\<close>, \<open>answers\<close>, \<open>file_server\<close>, \<open>fw_session\<close> (what the device does next),
  \<open>polite\<close> (its replies are complete packets with terminated names), \<open>fd_table\<close>,
  \<open>lock_kernel\<close>, \<open>flock_kernel\<close>, \<open>counts_naps\<close>, \<open>logs_signals\<close>, \<open>file_text\<close> (the kernel), \<open>handle_table\<close> (the USB library), \<open>qsort_contract\<close>,
  \<open>ieee_double\<close> (rounding), \<open>allocates\<close> (\<^verbatim>\<open>malloc\<close>). Each has an instance in the scripted device, kernel
  or library, which the witnesses run.

  \<^bold>\<open>Bounds and fuel.\<close> All loops of the code are total functions with a measure, but for the page loop
  of \<^verbatim>\<open>tf_stat\<close>, which ends only when the device ends its listing: it is a partial function whose
  value is \<open>None\<close> if it does not return, and it is proved to return. The clients that the theorems
  run, fetching a file or uploading firmware, take a number of rounds, and the theorems hold for
  every number at least as large as the device's sequence needs. Process numbers are below 100000000,
  as the code's buffer of ten characters needs; Linux has at most 4194304. The date formulas cut to
  unbounded integers where the code casts to \<^verbatim>\<open>int\<close>, which differs only beyond the year 5800000.

  \<^bold>\<open>Not modelled\<close>: debugging output that the default build leaves out; the private copy of
  \<^verbatim>\<open>get_u16\<close> in \<^verbatim>\<open>usb_io.c\<close>, which nothing calls; the heap, but for the result of \<^verbatim>\<open>tf_makename\<close>. Host order is little endian, and the build is one where \<^verbatim>\<open>long\<close>
  has 64 bits, for a kernel of version 2.6 or later (transfers of 16384 bytes in \<^verbatim>\<open>usb_io.c\<close>).
\<close>

end
